(* ===== verification/Prelude.thy ===== *)
theory Prelude
  imports Main "HOL-Library.Word"
begin

text \<open>
  Shared vocabulary of the development: the C types of the sources as word types, the error
  codes of \<^verbatim>\<open>ssherr.h\<close>, memory blocks as byte lists with read and write, the allocator as
  a parameter, the big-endian integer macros of \<^verbatim>\<open>sshbuf.h\<close>, C strings, and the generic
  lemmas on lists and words that the component theories rest on. The platform is the usual
  64-bit Unix one: \<^verbatim>\<open>size_t\<close> and pointers have 64 bits, \<^verbatim>\<open>int\<close> and \<^verbatim>\<open>u_int\<close> have 32.
\<close>

unbundle bit_operations_syntax

named_theorems buf_simps "writes of single fields as writes of bytes"

section \<open>C types\<close>

type_synonym byte = "8 word"
type_synonym u16 = "16 word"
type_synonym u32 = "32 word"
type_synonym u64 = "64 word"
type_synonym size_t = "64 word"
type_synonym ptr = "64 word"

abbreviation (input) NULL :: ptr where
  "NULL \<equiv> 0"

definition SIZE_MAX :: size_t where
  "SIZE_MAX = 0xffffffffffffffff"

definition ROUNDUP :: "size_t \<Rightarrow> size_t \<Rightarrow> size_t" where
  "ROUNDUP x y = ((x + (y - 1)) div y) * y"

text \<open>The error codes; success (code 0) is the right injection of a result.\<close>

datatype (plugins only: code) ssherr =
    SSH_ERR_INTERNAL_ERROR
  | SSH_ERR_ALLOC_FAIL
  | SSH_ERR_MESSAGE_INCOMPLETE
  | SSH_ERR_INVALID_FORMAT
  | SSH_ERR_BIGNUM_IS_NEGATIVE
  | SSH_ERR_STRING_TOO_LARGE
  | SSH_ERR_BIGNUM_TOO_LARGE
  | SSH_ERR_ECPOINT_TOO_LARGE
  | SSH_ERR_NO_BUFFER_SPACE
  | SSH_ERR_INVALID_ARGUMENT
  | SSH_ERR_KEY_BITS_MISMATCH
  | SSH_ERR_EC_CURVE_INVALID
  | SSH_ERR_KEY_TYPE_MISMATCH
  | SSH_ERR_KEY_TYPE_UNKNOWN
  | SSH_ERR_EC_CURVE_MISMATCH
  | SSH_ERR_EXPECTED_CERT
  | SSH_ERR_KEY_LACKS_CERTBLOB
  | SSH_ERR_KEY_CERT_UNKNOWN_TYPE
  | SSH_ERR_KEY_CERT_INVALID_SIGN_KEY
  | SSH_ERR_KEY_INVALID_EC_VALUE
  | SSH_ERR_SIGNATURE_INVALID
  | SSH_ERR_LIBCRYPTO_ERROR
  | SSH_ERR_UNEXPECTED_TRAILING_DATA
  | SSH_ERR_SYSTEM_ERROR
  | SSH_ERR_KEY_CERT_INVALID
  | SSH_ERR_AGENT_COMMUNICATION
  | SSH_ERR_AGENT_FAILURE
  | SSH_ERR_DH_GEX_OUT_OF_RANGE
  | SSH_ERR_DISCONNECTED
  | SSH_ERR_MAC_INVALID
  | SSH_ERR_NO_CIPHER_ALG_MATCH
  | SSH_ERR_NO_MAC_ALG_MATCH
  | SSH_ERR_NO_COMPRESS_ALG_MATCH
  | SSH_ERR_NO_KEX_ALG_MATCH
  | SSH_ERR_NO_HOSTKEY_ALG_MATCH
  | SSH_ERR_NO_HOSTKEY_LOADED
  | SSH_ERR_PROTOCOL_MISMATCH
  | SSH_ERR_NO_PROTOCOL_VERSION
  | SSH_ERR_NEED_REKEY
  | SSH_ERR_PASSPHRASE_TOO_SHORT
  | SSH_ERR_FILE_CHANGED
  | SSH_ERR_KEY_UNKNOWN_CIPHER
  | SSH_ERR_KEY_WRONG_PASSPHRASE
  | SSH_ERR_KEY_BAD_PERMISSIONS
  | SSH_ERR_KEY_CERT_MISMATCH
  | SSH_ERR_KEY_NOT_FOUND
  | SSH_ERR_AGENT_NOT_PRESENT
  | SSH_ERR_AGENT_NO_IDENTITIES
  | SSH_ERR_BUFFER_READ_ONLY
  | SSH_ERR_KRL_BAD_MAGIC
  | SSH_ERR_KEY_REVOKED
  | SSH_ERR_CONN_CLOSED
  | SSH_ERR_CONN_TIMEOUT
  | SSH_ERR_CONN_CORRUPT
  | SSH_ERR_PROTOCOL_ERROR
  | SSH_ERR_KEY_LENGTH
  | SSH_ERR_NUMBER_TOO_LARGE
  | SSH_ERR_SIGN_ALG_UNSUPPORTED
  | SSH_ERR_FEATURE_UNSUPPORTED
  | SSH_ERR_DEVICE_NOT_FOUND

type_synonym 'a res = "ssherr + 'a"

text \<open>
  How a call ends that may not return: with a value, in \<^verbatim>\<open>fatal\<close>, or by ending the connection in
  \<^verbatim>\<open>ssh_packet_disconnect\<close>.
\<close>

datatype 'a outcome = Done 'a | Fatal | Disconnect

section \<open>Memory blocks and the allocator\<close>

text \<open>
  A block of memory is the list of its bytes. The C allocator is a parameter of every
  operation that allocates: for a request of \<open>n\<close> bytes it gives the address of the block,
  \<^const>\<open>NULL\<close> when it refuses.
\<close>

type_synonym allocator = "size_t \<Rightarrow> ptr"

definition mem_read :: "byte list \<Rightarrow> nat \<Rightarrow> nat \<Rightarrow> byte list" where
  "mem_read m i n = take n (drop i m)"

definition mem_write :: "byte list \<Rightarrow> nat \<Rightarrow> byte list \<Rightarrow> byte list" where
  "mem_write m i bs = take i m @ bs @ drop (i + length bs) m"

text \<open>
  The bytes of the block that \<^verbatim>\<open>recallocarray(p, old, new, 1)\<close> returns: the old bytes up to
  the smaller of the two sizes, zeros after them.
\<close>

definition recallocarray_bytes :: "byte list \<Rightarrow> nat \<Rightarrow> byte list" where
  "recallocarray_bytes m n = take n m @ replicate (n - length m) 0"

lemma length_mem_read [simp]: "length (mem_read m i n) = min n (length m - i)"
  by (simp add: mem_read_def min.commute)

lemma length_mem_write [simp]:
  "i + length bs \<le> length m \<Longrightarrow> length (mem_write m i bs) = length m"
  by (simp add: mem_write_def)

lemma length_recallocarray_bytes [simp]: "length (recallocarray_bytes m n) = n"
  by (simp add: recallocarray_bytes_def)

lemma mem_write_Nil [simp]: "mem_write m i [] = m"
  by (simp add: mem_write_def)

lemma mem_read_0 [simp]: "mem_read m i 0 = []"
  by (simp add: mem_read_def)

lemma mem_read_write_same [simp]:
  "i + length bs \<le> length m \<Longrightarrow> n = length bs \<Longrightarrow> mem_read (mem_write m i bs) i n = bs"
  by (simp add: mem_read_def mem_write_def)

lemma mem_write_append:
  "i + length xs \<le> length m \<Longrightarrow>
     mem_write (mem_write m i xs) (i + length xs) ys = mem_write m i (xs @ ys)"
  by (simp add: mem_write_def drop_drop add.commute add.left_commute)

lemma mem_read_write_after:
  "i + length bs \<le> k \<Longrightarrow> i \<le> length m \<Longrightarrow> mem_read (mem_write m i bs) k n = mem_read m k n"
  by (simp add: mem_read_def mem_write_def)

lemma mem_read_write_before:
  "i + n \<le> j \<Longrightarrow> j \<le> length m \<Longrightarrow> mem_read (mem_write m j bs) i n = mem_read m i n"
  by (auto simp: mem_read_def mem_write_def drop_take min_def)

lemma mem_read_recallocarray:
  "i + n \<le> length m \<Longrightarrow> i + n \<le> k \<Longrightarrow> mem_read (recallocarray_bytes m k) i n = mem_read m i n"
  by (auto simp: mem_read_def recallocarray_bytes_def drop_take min_def)

lemma mem_read_append:
  "mem_read m i (n + k) = mem_read m i n @ mem_read m (i + n) k"
  by (simp add: mem_read_def take_add add.commute [of i n])

lemma mem_read_take: "k \<le> n \<Longrightarrow> take k (mem_read m i n) = mem_read m i k"
  by (simp add: mem_read_def min_def)

lemma mem_read_drop: "drop k (mem_read m i n) = mem_read m (i + k) (n - k)"
  by (simp add: mem_read_def drop_take add.commute)

lemma mem_read_all: "length m = n \<Longrightarrow> mem_read m 0 n = m"
  by (simp add: mem_read_def)

lemma mem_read_nth: "j < n \<Longrightarrow> i + j < length m \<Longrightarrow> mem_read m i n ! j = m ! (i + j)"
  by (simp add: mem_read_def)

section \<open>Words\<close>

lemma unat_plus_no_wrap:
  "unat (a :: 'a::len word) + unat b < 2 ^ LENGTH('a) \<Longrightarrow> unat (a + b) = unat a + unat b"
  by (simp add: unat_word_ariths)

lemma unat_minus_no_wrap: "b \<le> a \<Longrightarrow> unat (a - b :: 'a::len word) = unat a - unat b"
  by (rule unat_sub)

lemma unat_less_2p: "unat (w :: 'a::len word) < 2 ^ LENGTH('a)"
  by (rule unsigned_less)

lemma unat_ucast_up:
  "LENGTH('a) \<le> LENGTH('b) \<Longrightarrow> unat (ucast (w :: 'a::len word) :: 'b::len word) = unat w"
proof -
  assume le: "LENGTH('a) \<le> LENGTH('b)"
  have "unat w < 2 ^ LENGTH('a)" by (rule unsigned_less)
  also have "\<dots> \<le> 2 ^ LENGTH('b)" using le by (rule power_increasing) simp
  finally show ?thesis by (simp add: unsigned_ucast_eq take_bit_nat_eq_self)
qed

lemma ucast_of_nat_down:
  "LENGTH('b) \<le> LENGTH('a) \<Longrightarrow> ucast (of_nat n :: 'a::len word) = (of_nat n :: 'b::len word)"
  by (rule bit_word_eqI) (auto simp: bit_simps)

lemma word_one_le_iff: "1 \<le> (w :: 'a::len word) \<longleftrightarrow> w \<noteq> 0"
  by (metis linorder_not_le word_less_1)

lemma mask_8_eq: "(0xff :: 'a::len word) = mask 8"
  by (simp add: mask_eq_exp_minus_1)

lemma ucast_and_ff [simp]: "ucast ((v :: 'a::len word) AND 0xff) = (ucast v :: byte)"
  unfolding mask_8_eq by (rule bit_word_eqI) (auto simp: bit_simps dest: bit_imp_le_length)

lemma bit_byte_high [simp]: "8 \<le> n \<Longrightarrow> \<not> bit (b :: byte) n"
  using bit_imp_le_length [of b n] by auto

lemma bit_u32_high [simp]: "32 \<le> n \<Longrightarrow> \<not> bit (w :: u32) n"
  using bit_imp_le_length [of w n] by auto

lemma unat_of_nat_small:
  "n < 2 ^ LENGTH('a) \<Longrightarrow> unat (of_nat n :: 'a::len word) = n"
  by (simp add: unat_of_nat)

lemma length_2_conv: "length xs = 2 \<longleftrightarrow> (\<exists>a b. xs = [a, b])"
  by (auto simp: numeral_eq_Suc length_Suc_conv)

lemma length_4_conv: "length xs = 4 \<longleftrightarrow> (\<exists>a b c d. xs = [a, b, c, d])"
  by (auto simp: numeral_eq_Suc length_Suc_conv)

lemma length_8_conv:
  "length xs = 8 \<longleftrightarrow> (\<exists>a b c d e f g h. xs = [a, b, c, d, e, f, g, h])"
  by (auto simp: numeral_eq_Suc length_Suc_conv)

section \<open>The integer macros\<close>

definition PEEK_U64 :: "byte list \<Rightarrow> u64" where
  "PEEK_U64 p =
     push_bit 56 (ucast (p ! 0)) OR push_bit 48 (ucast (p ! 1)) OR
     push_bit 40 (ucast (p ! 2)) OR push_bit 32 (ucast (p ! 3)) OR
     push_bit 24 (ucast (p ! 4)) OR push_bit 16 (ucast (p ! 5)) OR
     push_bit 8 (ucast (p ! 6)) OR ucast (p ! 7)"

definition PEEK_U32 :: "byte list \<Rightarrow> u32" where
  "PEEK_U32 p =
     push_bit 24 (ucast (p ! 0)) OR push_bit 16 (ucast (p ! 1)) OR
     push_bit 8 (ucast (p ! 2)) OR ucast (p ! 3)"

definition PEEK_U16 :: "byte list \<Rightarrow> u16" where
  "PEEK_U16 p = push_bit 8 (ucast (p ! 0)) OR ucast (p ! 1)"

definition POKE_U64 :: "u64 \<Rightarrow> byte list" where
  "POKE_U64 v =
     [ucast (drop_bit 56 v AND 0xff), ucast (drop_bit 48 v AND 0xff),
      ucast (drop_bit 40 v AND 0xff), ucast (drop_bit 32 v AND 0xff),
      ucast (drop_bit 24 v AND 0xff), ucast (drop_bit 16 v AND 0xff),
      ucast (drop_bit 8 v AND 0xff), ucast (v AND 0xff)]"

definition POKE_U32 :: "u32 \<Rightarrow> byte list" where
  "POKE_U32 v =
     [ucast (drop_bit 24 v AND 0xff), ucast (drop_bit 16 v AND 0xff),
      ucast (drop_bit 8 v AND 0xff), ucast (v AND 0xff)]"

definition POKE_U16 :: "u16 \<Rightarrow> byte list" where
  "POKE_U16 v = [ucast (drop_bit 8 v AND 0xff), ucast (v AND 0xff)]"

lemma length_POKE [simp]:
  "length (POKE_U64 v8) = 8" "length (POKE_U32 v4) = 4" "length (POKE_U16 v2) = 2"
  by (simp_all add: POKE_U64_def POKE_U32_def POKE_U16_def)

lemma PEEK_POKE_U16 [simp]: "PEEK_U16 (POKE_U16 v) = v"
  unfolding PEEK_U16_def POKE_U16_def ucast_and_ff
  by (rule bit_word_eqI, rename_tac n, case_tac "n < 8") (auto simp: bit_simps)

lemma PEEK_POKE_U32 [simp]: "PEEK_U32 (POKE_U32 v) = v"
  unfolding PEEK_U32_def POKE_U32_def ucast_and_ff
  by (rule bit_word_eqI, rename_tac n, case_tac "n < 8"; case_tac "n < 16"; case_tac "n < 24")
    (simp_all add: bit_simps, auto)

lemma POKE_PEEK_U16: "length p = 2 \<Longrightarrow> POKE_U16 (PEEK_U16 p) = p"
  unfolding length_2_conv PEEK_U16_def POKE_U16_def ucast_and_ff
  by (clarsimp, intro conjI; rule bit_word_eqI; simp add: bit_simps)

lemma POKE_PEEK_U32: "length p = 4 \<Longrightarrow> POKE_U32 (PEEK_U32 p) = p"
  unfolding length_4_conv PEEK_U32_def POKE_U32_def ucast_and_ff
  by (clarsimp, intro conjI; rule bit_word_eqI; simp add: bit_simps)

lemma PEEK_U32_take [simp]: "4 \<le> n \<Longrightarrow> PEEK_U32 (take n p) = PEEK_U32 p"
  by (simp add: PEEK_U32_def)

lemma PEEK_U32_append [simp]: "length p = 4 \<Longrightarrow> PEEK_U32 (p @ q) = PEEK_U32 p"
  by (simp add: PEEK_U32_def nth_append)

lemma POKE_U64_halves: "POKE_U64 v = POKE_U32 (ucast (drop_bit 32 v)) @ POKE_U32 (ucast v)"
  unfolding POKE_U64_def POKE_U32_def ucast_and_ff append.simps list.inject
  by (intro conjI refl; rule bit_word_eqI; simp add: bit_simps)

lemma ucast_push_bit_byte:
  "k \<le> 24 \<Longrightarrow> ucast (push_bit k (ucast (b :: byte)) :: u32) = (push_bit k (ucast b) :: u64)"
  by (rule bit_word_eqI, rename_tac n, case_tac "n - k < 8") (simp_all add: bit_simps, arith)

lemma PEEK_U64_halves:
  "8 \<le> length p \<Longrightarrow> PEEK_U64 p = push_bit 32 (ucast (PEEK_U32 p)) OR ucast (PEEK_U32 (drop 4 p))"
  unfolding PEEK_U64_def PEEK_U32_def
  using ucast_push_bit_byte [of 0]
  by (simp add: unsigned_or_eq ucast_push_bit_byte push_bit_or or.assoc)

lemma PEEK_POKE_U64 [simp]: "PEEK_U64 (POKE_U64 v) = v"
proof -
  have "push_bit 32 (ucast (ucast (drop_bit 32 v) :: u32)) OR ucast (ucast v :: u32) = v"
    by (rule bit_word_eqI, rename_tac n, case_tac "n < 32") (simp_all add: bit_simps, arith)
  then show ?thesis
    by (simp add: PEEK_U64_halves POKE_U64_halves)
qed

lemma POKE_PEEK_U64: "length p = 8 \<Longrightarrow> POKE_U64 (PEEK_U64 p) = p"
proof -
  assume p: "length p = 8"
  have lo: "ucast (push_bit 32 (ucast a) OR ucast b :: u64) = b" for a b :: u32
    by (rule bit_word_eqI) (simp add: bit_simps)
  have hi: "ucast (drop_bit 32 (push_bit 32 (ucast a) OR ucast b :: u64)) = a" for a b :: u32
    by (rule bit_word_eqI) (simp add: bit_simps)
  have "POKE_U32 (PEEK_U32 p) = take 4 p" and "POKE_U32 (PEEK_U32 (drop 4 p)) = drop 4 p"
    using p POKE_PEEK_U32 [of "take 4 p"] POKE_PEEK_U32 [of "drop 4 p"] by simp_all
  with p show ?thesis
    by (simp only: POKE_U64_halves PEEK_U64_halves order.refl hi lo append_take_drop_id)
qed

section \<open>Invariants of step relations\<close>

text \<open>A component that takes steps from a start state, and the invariant that they keep.\<close>

locale step_invariant =
  fixes step :: "'s \<Rightarrow> 's \<Rightarrow> bool" and start :: "'s \<Rightarrow> bool" and inv :: "'s \<Rightarrow> bool"
  assumes start_inv: "start s \<Longrightarrow> inv s"
    and step_inv: "inv s \<Longrightarrow> step s s' \<Longrightarrow> inv s'"
begin

lemma steps_inv: "step\<^sup>*\<^sup>* s s' \<Longrightarrow> inv s \<Longrightarrow> inv s'"
  by (induction rule: rtranclp_induct) (auto intro: step_inv)

lemma reach_inv: "start s \<Longrightarrow> step\<^sup>*\<^sup>* s s' \<Longrightarrow> inv s'"
  by (blast intro: steps_inv start_inv)

end

end
