(* ===== verification/Cstrings.thy ===== *)
theory Cstrings
  imports Prelude
begin

text \<open>
  The C string functions that the configuration and negotiation code uses: tokenising with
  \<^verbatim>\<open>strsep\<close>, bounded copies with \<^verbatim>\<open>strlcpy\<close> and \<^verbatim>\<open>strlcat\<close>, \<^verbatim>\<open>strtoul\<close> and the character
  classes of the C locale, as \<^verbatim>\<open>openbsd-compat\<close> has them. A C string is the list of its
  characters before the terminating zero. The lemmas give the closed form of each loop; a list
  cut at its separators is \<open>split_on\<close>, and \<open>join\<close> puts it together again.
\<close>

section \<open>Tokens\<close>

fun strsep_scan :: "string \<Rightarrow> string \<Rightarrow> string \<times> string option" where
  "strsep_scan delim [] = ([], None)"
| "strsep_scan delim (c # s) =
     (if c \<in> set delim then ([], Some s)
      else (let (tok, r) = strsep_scan delim s in (c # tok, r)))"

definition strsep :: "string option \<Rightarrow> string \<Rightarrow> string option \<times> string option" where
  "strsep stringp delim =
     (case stringp of
        None \<Rightarrow> (None, None)
      | Some s \<Rightarrow> (let (tok, r) = strsep_scan delim s in (Some tok, r)))"

fun split_on :: "'a \<Rightarrow> 'a list \<Rightarrow> 'a list list" where
  "split_on d [] = [[]]"
| "split_on d (x # xs) =
     (if x = d then [] # split_on d xs
      else (x # hd (split_on d xs)) # tl (split_on d xs))"

fun join :: "'a \<Rightarrow> 'a list list \<Rightarrow> 'a list" where
  "join d [] = []"
| "join d [x] = x"
| "join d (x # y # zs) = x @ d # join d (y # zs)"

lemma split_on_not_Nil [simp]: "split_on d xs \<noteq> []"
  by (cases xs) auto

lemma strsep_scan_shorter: "strsep_scan delim s = (tok, Some r) \<Longrightarrow> length r < length s"
  by (induction s arbitrary: tok) (auto split: if_splits prod.splits)

lemma strsep_shorter: "strsep (Some s) delim = (Some tok, Some r) \<Longrightarrow> length r < length s"
  by (auto simp: strsep_def split: prod.splits intro: strsep_scan_shorter)

lemma strsep_scan_split:
  "strsep_scan [d] s = (tok, r) \<Longrightarrow>
     split_on d s = tok # (case r of None \<Rightarrow> [] | Some s' \<Rightarrow> split_on d s')"
proof (induction s arbitrary: tok r)
  case Nil
  then show ?case by simp
next
  case (Cons c s)
  then show ?case by (cases "c = d") (auto split: prod.splits)
qed

lemma join_split_on [simp]: "join d (split_on d s) = s"
proof (induction s)
  case (Cons c s)
  obtain y ys where y: "split_on d s = y # ys" by (cases "split_on d s") auto
  with Cons show ?case by (cases ys) auto
qed simp

lemma strsep_split:
  "strsep (Some s) [d] = (Some (hd (split_on d s)),
     if tl (split_on d s) = [] then None else Some (join d (tl (split_on d s))))"
proof -
  have "snd (strsep_scan [d] s) = (if tl (split_on d s) = [] then None else Some (join d (tl (split_on d s))))"
  proof (induction s)
    case (Cons c s)
    obtain y ys where "split_on d s = y # ys" by (cases "split_on d s") auto
    with Cons join_split_on [of d s] show ?case by (auto simp: case_prod_beta)
  qed simp
  moreover have "fst (strsep_scan [d] s) = hd (split_on d s)"
    by (induction s) (auto simp: case_prod_beta)
  ultimately show ?thesis by (simp add: strsep_def case_prod_beta)
qed

lemma split_on_append:
  "d \<notin> set x \<Longrightarrow> split_on d (x @ s) = (x @ hd (split_on d s)) # tl (split_on d s)"
  by (induction x) auto

lemma split_on_join:
  "xs \<noteq> [] \<Longrightarrow> \<forall>x\<in>set xs. d \<notin> set x \<Longrightarrow> split_on d (join d xs) = xs"
proof (induction d xs rule: join.induct)
  case (2 d x)
  then show ?case using split_on_append [of d x "[]"] by simp
next
  case (3 d x y zs)
  then show ?case using split_on_append [of d x "d # join d (y # zs)"] by simp
qed simp

lemma split_on_no_sep: "x \<in> set (split_on d s) \<Longrightarrow> d \<notin> set x"
proof (induction s arbitrary: x)
  case (Cons c s)
  obtain y ys where y: "split_on d s = y # ys" by (cases "split_on d s") auto
  with Cons show ?case by (auto split: if_splits)
qed simp

lemma split_on_items: "\<forall>x\<in>set (split_on d s). d \<notin> set x"
  by (auto dest: split_on_no_sep)

text \<open>
  What is left to tokenise, as the list of the tokens to come: one call of \<^verbatim>\<open>strsep\<close> takes
  the first of them. The loops over \<^verbatim>\<open>strsep\<close> are shown by induction on this list.
\<close>

definition tokens :: "char \<Rightarrow> string list \<Rightarrow> string option" where
  "tokens d xs = (if xs = [] then None else Some (join d xs))"

lemma tokens_split_on: "Some s = tokens d (split_on d s)"
  by (simp add: tokens_def)

lemma strsep_tokens:
  assumes "\<forall>x\<in>set xs. d \<notin> set x"
  shows "strsep (tokens d xs) [d] = (case xs of [] \<Rightarrow> (None, None) | x # xs' \<Rightarrow> (Some x, tokens d xs'))"
proof (cases xs)
  case (Cons x xs')
  with assms have "split_on d (join d xs) = x # xs'" by (subst split_on_join) auto
  with Cons show ?thesis by (simp add: tokens_def strsep_split del: join.simps)
qed (simp add: tokens_def strsep_def)

lemma join_append:
  "y \<noteq> [] \<Longrightarrow> join d (xs @ y) = (if xs = [] then join d y else join d xs @ d # join d y)"
proof (induction d xs rule: join.induct)
  case (2 d x)
  then show ?case by (cases y) auto
qed auto

lemma length_join: "length (join d xs) = sum_list (map length xs) + (length xs - 1)"
  by (induction d xs rule: join.induct) auto

lemma join_Nil_iff: "\<forall>x\<in>set xs. x \<noteq> [] \<Longrightarrow> join d xs = [] \<longleftrightarrow> xs = []"
  by (induction d xs rule: join.induct) auto

section \<open>Bounded copies\<close>

fun strlcpy_copy :: "nat \<Rightarrow> string \<Rightarrow> string" where
  "strlcpy_copy n s =
     (if n - 1 = 0 then []
      else (case s of [] \<Rightarrow> [] | c # s' \<Rightarrow> c # strlcpy_copy (n - 1) s'))"

definition strlcpy :: "string \<Rightarrow> string \<Rightarrow> nat \<Rightarrow> nat \<times> string" where
  "strlcpy dst src siz = (length src, if siz = 0 then dst else strlcpy_copy siz src)"

fun strlcat_copy :: "nat \<Rightarrow> string \<Rightarrow> string" where
  "strlcat_copy n [] = []"
| "strlcat_copy n (c # s) = (if n \<noteq> 1 then c # strlcat_copy (n - 1) s else strlcat_copy n s)"

definition strlcat :: "string \<Rightarrow> string \<Rightarrow> nat \<Rightarrow> nat \<times> string" where
  "strlcat dst src siz =
     (let dlen = min siz (length dst); n = siz - dlen in
      if n = 0 then (dlen + length src, dst)
      else (dlen + length src, dst @ strlcat_copy n src))"

declare strlcpy_copy.simps [simp del]

lemma strlcpy_copy_take: "strlcpy_copy n s = take (n - 1) s"
proof (induction s arbitrary: n)
  case (Cons c s)
  show ?case
  proof (cases "n - 1")
    case (Suc m)
    then have "n - Suc 0 - 1 = m" by simp
    with Suc Cons.IH [of "n - 1"] show ?thesis by (simp add: strlcpy_copy.simps [of n])
  qed (simp add: strlcpy_copy.simps)
qed (simp add: strlcpy_copy.simps)

lemma strlcpy_eq: "strlcpy dst src siz = (length src, if siz = 0 then dst else take (siz - 1) src)"
  by (simp add: strlcpy_def strlcpy_copy_take)

lemma strlcat_copy_take: "0 < n \<Longrightarrow> strlcat_copy n s = take (n - 1) s"
proof (induction s arbitrary: n)
  case (Cons c s)
  show ?case
  proof (cases "n = 1")
    case True
    then show ?thesis using Cons.IH [of 1] by simp
  next
    case False
    with Cons.prems obtain m where "n = Suc (Suc m)" by (cases n; cases "n - 1") auto
    then show ?thesis using Cons.IH [of "Suc m"] by simp
  qed
qed simp

lemma strlcat_fits:
  "length dst + length src < siz \<Longrightarrow> strlcat dst src siz = (length dst + length src, dst @ src)"
  by (simp add: strlcat_def Let_def strlcat_copy_take)

text \<open>Neither copy ever writes a string that does not fit, and both report truncation.\<close>

lemma strlcpy_bounds:
  assumes "0 < siz" "strlcpy dst src siz = (r, s)"
  shows "length s < siz" "r < siz \<longleftrightarrow> s = src"
  using assms by (auto simp: strlcpy_eq)

lemma strlcat_bounds:
  assumes "length dst < siz" "strlcat dst src siz = (r, s)"
  shows "length s < siz" "r < siz \<longleftrightarrow> s = dst @ src"
  using assms by (auto simp: strlcat_def Let_def strlcat_copy_take)

section \<open>Characters\<close>

definition isupper :: "char \<Rightarrow> bool" where
  "isupper c \<longleftrightarrow> 65 \<le> (of_char c :: nat) \<and> (of_char c :: nat) \<le> 90"

definition isdigit :: "char \<Rightarrow> bool" where
  "isdigit c \<longleftrightarrow> 48 \<le> (of_char c :: nat) \<and> (of_char c :: nat) \<le> 57"

definition isspace :: "char \<Rightarrow> bool" where
  "isspace c \<longleftrightarrow> (of_char c :: nat) = 32 \<or> 9 \<le> (of_char c :: nat) \<and> (of_char c :: nat) \<le> 13"

definition tolower :: "char \<Rightarrow> char" where
  "tolower c = (if isupper c then char_of ((of_char c :: nat) + 32) else c)"

definition lowercase :: "string \<Rightarrow> string" where
  "lowercase s = map tolower s"

definition strchr :: "string \<Rightarrow> char \<Rightarrow> (string \<times> string) option" where
  "strchr s c = (if c \<in> set s
     then Some (takeWhile (\<lambda>x. x \<noteq> c) s, tl (dropWhile (\<lambda>x. x \<noteq> c) s)) else None)"

lemma strchr_Some:
  "strchr s c = Some (a, b) \<longleftrightarrow> s = a @ c # b \<and> c \<notin> set a"
proof
  assume "strchr s c = Some (a, b)"
  then have c: "c \<in> set s" and a: "a = takeWhile (\<lambda>x. x \<noteq> c) s"
    and b: "b = tl (dropWhile (\<lambda>x. x \<noteq> c) s)" by (auto simp: strchr_def split: if_splits)
  from c have "dropWhile (\<lambda>x. x \<noteq> c) s \<noteq> []" by (simp add: dropWhile_eq_Nil_conv)
  with b hd_dropWhile [OF this] have "dropWhile (\<lambda>x. x \<noteq> c) s = c # b"
    by (cases "dropWhile (\<lambda>x. x \<noteq> c) s") auto
  with takeWhile_dropWhile_id [of "\<lambda>x. x \<noteq> c" s] a have "s = a @ c # b" by simp
  moreover have "c \<notin> set a" using a by (auto dest: set_takeWhileD)
  ultimately show "s = a @ c # b \<and> c \<notin> set a" ..
next
  assume s: "s = a @ c # b \<and> c \<notin> set a"
  then have "takeWhile (\<lambda>x. x \<noteq> c) s = a" "dropWhile (\<lambda>x. x \<noteq> c) s = c # b"
    by (auto simp: takeWhile_append dropWhile_append)
  with s show "strchr s c = Some (a, b)" by (auto simp: strchr_def)
qed

lemma strchr_None: "strchr s c = None \<longleftrightarrow> c \<notin> set s"
  by (simp add: strchr_def)

section \<open>Numbers\<close>

text \<open>
  \<^verbatim>\<open>strtoul\<close> in base 10 on 64-bit \<^verbatim>\<open>long\<close>: the value, and what is left of the string (all of
  it if no digit was read). The accumulator stays at \<^verbatim>\<open>ULONG_MAX\<close> once a digit would
  overflow it.
\<close>

definition digit_value :: "char \<Rightarrow> u64" where
  "digit_value c = of_nat ((of_char c :: nat) - 48)"

definition ULONG_MAX :: u64 where "ULONG_MAX = - 1"

fun strtoul_digits :: "u64 \<Rightarrow> int \<Rightarrow> string \<Rightarrow> u64 \<times> int \<times> string" where
  "strtoul_digits acc any [] = (acc, any, [])"
| "strtoul_digits acc any (c # s) =
     (if \<not> isdigit c then (acc, any, c # s)
      else if any < 0 then strtoul_digits acc any s
      else if acc > ULONG_MAX div 10 \<or> acc = ULONG_MAX div 10 \<and> digit_value c > ULONG_MAX mod 10
      then strtoul_digits ULONG_MAX (- 1) s
      else strtoul_digits (acc * 10 + digit_value c) 1 s)"

definition strtoul10 :: "string \<Rightarrow> u64 \<times> string" where
  "strtoul10 nptr =
     (let s = dropWhile isspace nptr;
          neg = (s \<noteq> [] \<and> hd s = CHR ''-'');
          s1 = (if s \<noteq> [] \<and> (hd s = CHR ''-'' \<or> hd s = CHR ''+'') then tl s else s);
          (acc, any, rest) = strtoul_digits 0 0 s1
      in (if neg \<and> any > 0 then - acc else acc, if any \<noteq> 0 then rest else nptr))"

fun dec_value :: "nat \<Rightarrow> string \<Rightarrow> nat" where
  "dec_value a [] = a"
| "dec_value a (c # s) = dec_value (a * 10 + ((of_char c :: nat) - 48)) s"

lemma dec_value_mono: "a \<le> dec_value a s"
proof (induction s arbitrary: a)
  case (Cons c s)
  show ?case using Cons.IH [of "a * 10 + ((of_char c :: nat) - 48)"] by simp
qed simp

lemma ULONG_MAX_cut:
  fixes acc :: u64
  assumes "isdigit c"
  shows "(acc > ULONG_MAX div 10 \<or> acc = ULONG_MAX div 10 \<and> digit_value c > ULONG_MAX mod 10)
    \<longleftrightarrow> unat acc * 10 + ((of_char c :: nat) - 48) \<ge> 2 ^ 64"
proof -
  have d2: "(of_char c :: nat) - 48 < 10" using assms by (auto simp: isdigit_def)
  then have d: "unat (digit_value c) = (of_char c :: nat) - 48"
    unfolding digit_value_def by (intro unat_of_nat_small) simp
  have m: "unat (ULONG_MAX div 10) = 1844674407370955161" "unat (ULONG_MAX mod 10) = 5"
    by (simp_all add: ULONG_MAX_def unat_div unat_mod)
  have "acc = ULONG_MAX div 10 \<longleftrightarrow> unat acc = 1844674407370955161"
    using m(1) by (metis unsigned_word_eqI)
  then show ?thesis
    using d d2 m by (auto simp: word_less_nat_alt)
qed

lemma unat_acc_step:
  fixes acc :: u64
  assumes "unat acc * 10 + ((of_char c :: nat) - 48) < 2 ^ 64"
  shows "unat (acc * 10 + digit_value c) = unat acc * 10 + ((of_char c :: nat) - 48)"
proof -
  have "acc * 10 + digit_value c = (of_nat (unat acc * 10 + ((of_char c :: nat) - 48)) :: u64)"
    by (simp add: digit_value_def)
  also have "unat \<dots> = unat acc * 10 + ((of_char c :: nat) - 48)"
    by (rule unat_of_nat_small) (use assms in simp)
  finally show ?thesis .
qed

lemma strtoul_digits_stuck:
  "any < 0 \<Longrightarrow> strtoul_digits acc any s = (acc, any, dropWhile isdigit s)"
  by (induction s) auto

lemma strtoul_digits_small:
  "\<forall>c\<in>set ds. isdigit c \<Longrightarrow> dec_value (unat acc) ds < 2 ^ 64 \<Longrightarrow> 0 \<le> any \<Longrightarrow>
     (r \<noteq> [] \<longrightarrow> \<not> isdigit (hd r)) \<Longrightarrow>
     strtoul_digits acc any (ds @ r) = (of_nat (dec_value (unat acc) ds), if ds = [] then any else 1, r)"
proof (induction ds arbitrary: acc any)
  case Nil
  then show ?case by (cases r) auto
next
  case (Cons c ds)
  let ?v = "unat acc * 10 + ((of_char c :: nat) - 48)"
  have lt: "?v < 2 ^ 64" using Cons.prems(2) dec_value_mono [of ?v ds] by simp
  with Cons.IH [of "acc * 10 + digit_value c" 1] Cons.prems lt unat_acc_step [OF lt] ULONG_MAX_cut [of c acc]
  show ?case by (auto simp: not_le)
qed

lemma strtoul_digits_big:
  "\<forall>c\<in>set ds. isdigit c \<Longrightarrow> 2 ^ 64 \<le> dec_value (unat acc) ds \<Longrightarrow> 0 \<le> any \<Longrightarrow>
     (r \<noteq> [] \<longrightarrow> \<not> isdigit (hd r)) \<Longrightarrow> strtoul_digits acc any (ds @ r) = (ULONG_MAX, - 1, r)"
proof (induction ds arbitrary: acc any)
  case Nil
  then show ?case using unat_less_2p [of acc] by simp
next
  case (Cons c ds)
  let ?v = "unat acc * 10 + ((of_char c :: nat) - 48)"
  show ?case
  proof (cases "?v < 2 ^ 64")
    case True
    with Cons.IH [of "acc * 10 + digit_value c" 1] Cons.prems True unat_acc_step [OF True] ULONG_MAX_cut [of c acc]
    show ?thesis by (auto simp: not_le)
  next
    case False
    have "dropWhile isdigit (ds @ r) = r"
      using Cons.prems(1,4) by (cases r) (auto simp: dropWhile_append3 dropWhile_append)
    with False Cons.prems ULONG_MAX_cut [of c acc] show ?thesis
      by (auto simp: strtoul_digits_stuck)
  qed
qed

lemma isdigit_not_sign: "isdigit c \<Longrightarrow> \<not> isspace c \<and> c \<noteq> CHR ''-'' \<and> c \<noteq> CHR ''+''"
  by (auto simp: isdigit_def isspace_def)

text \<open>On a string of digits the result is their value, capped at \<^verbatim>\<open>ULONG_MAX\<close>.\<close>

lemma strtoul10_digits:
  assumes "ds \<noteq> []" "\<forall>c\<in>set ds. isdigit c" "r \<noteq> [] \<longrightarrow> \<not> isdigit (hd r)"
  shows "strtoul10 (ds @ r) = (of_nat (min (dec_value 0 ds) (2 ^ 64 - 1)), r)"
proof -
  obtain c ds' where c: "ds = c # ds'" "isdigit c" using assms by (cases ds) auto
  note ns = isdigit_not_sign [OF c(2)]
  have red: "strtoul10 (ds @ r) =
      (case strtoul_digits 0 0 (ds @ r) of (acc, any, rest) \<Rightarrow> (acc, if any \<noteq> 0 then rest else ds @ r))"
    using ns unfolding c(1) by (simp add: strtoul10_def Let_def case_prod_beta del: strtoul_digits.simps)
  show ?thesis
  proof (cases "dec_value 0 ds < 2 ^ 64")
    case True
    then have "min (dec_value 0 ds) (2 ^ 64 - 1) = dec_value 0 ds" by simp
    with True strtoul_digits_small [OF assms(2) _ _ assms(3), of 0 0] assms(1) show ?thesis
      by (simp add: red)
  next
    case False
    then have "min (dec_value 0 ds) (2 ^ 64 - 1) = 2 ^ 64 - 1" by simp
    moreover have "of_nat (2 ^ 64 - 1) = ULONG_MAX" by (simp add: ULONG_MAX_def)
    ultimately show ?thesis
      using False strtoul_digits_big [OF assms(2) _ _ assms(3), of 0 0] by (simp add: red)
  qed
qed

end
