(* ===== verification/Match.thy ===== *)
theory Match
  imports Cstrings
begin

text \<open>
  \<^verbatim>\<open>match.c\<close> without its host part: wildcard patterns, comma-separated pattern lists with
  negation, the choice of the first common name of two proposals, and the filters that remove
  names from a proposal. Patterns and lists are shorter than \<open>2\<^sup>3\<^sup>2\<close> characters, so the
  \<^verbatim>\<open>u_int\<close> positions of the code are exact; the position that \<^verbatim>\<open>match_list\<close> reports is a
  \<open>32\<close>-bit word. The lemmas show the wildcard matcher equal to the set of strings that a
  pattern denotes, the list matcher equal to its order-free reading, and what is chosen and
  what survives a filter.
\<close>

section \<open>Wildcards\<close>

function match_pattern :: "string \<Rightarrow> string \<Rightarrow> bool"
  and match_known :: "string \<Rightarrow> char \<Rightarrow> string \<Rightarrow> bool"
  and match_each :: "string \<Rightarrow> string \<Rightarrow> bool" where
  "match_pattern s pattern =
     (case pattern of
        [] \<Rightarrow> s = []
      | c # pattern' \<Rightarrow>
          if c = CHR ''*'' then
            (case dropWhile (\<lambda>x. x = CHR ''*'') pattern of
               [] \<Rightarrow> True
             | k # p \<Rightarrow>
                 if k \<noteq> CHR ''?'' \<and> k \<noteq> CHR ''*'' then match_known s k p
                 else match_each s (k # p))
          else
            (case s of
               [] \<Rightarrow> False
             | d # s' \<Rightarrow>
                 if c \<noteq> CHR ''?'' \<and> c \<noteq> d then False
                 else match_pattern s' pattern'))"
| "match_known s k p =
     (case s of
        [] \<Rightarrow> False
      | d # s' \<Rightarrow> if d = k \<and> match_pattern s' p then True else match_known s' k p)"
| "match_each s p =
     (case s of
        [] \<Rightarrow> False
      | d # s' \<Rightarrow> if match_pattern s p then True else match_each s' p)"
  by pat_completeness auto
termination
proof (relation "measures [case_sum (\<lambda>(s, p). length p) (case_sum (\<lambda>(s, k, p). Suc (length p)) (\<lambda>(s, p). length p)),
      case_sum (\<lambda>(s, p). length s) (case_sum (\<lambda>(s, k, p). length s) (\<lambda>(s, p). length s)),
      case_sum (\<lambda>(s, p). 0) (case_sum (\<lambda>(s, k, p). 1) (\<lambda>(s, p). 1))]", goal_cases)
  case (2 s pattern c pattern' k p)
  then have "length (dropWhile (\<lambda>x. x = CHR ''*'') pattern') \<le> length pattern'"
    by (intro length_dropWhile_le)
  with 2 show ?case by simp
next
  case (3 s pattern c pattern' k p)
  then have "length (dropWhile (\<lambda>x. x = CHR ''*'') pattern') \<le> length pattern'"
    by (intro length_dropWhile_le)
  with 3 show ?case by simp
qed auto

declare match_pattern.simps [simp del] match_known.simps [simp del] match_each.simps [simp del]

lemma match_loops [simp]:
  "match_known [] k p = False"
  "match_known (d # s) k p \<longleftrightarrow> d = k \<and> match_pattern s p \<or> match_known s k p"
  "match_each [] p = False"
  "match_each (d # s) p \<longleftrightarrow> match_pattern (d # s) p \<or> match_each s p"
  by (auto simp: match_known.simps [of "[]"] match_known.simps [of "d # s"]
      match_each.simps [of "[]"] match_each.simps [of "d # s"])

lemma match_pattern_cases [simp]:
  "match_pattern s [] \<longleftrightarrow> s = []"
  "c \<noteq> CHR ''*'' \<Longrightarrow> match_pattern [] (c # p) = False"
  "c \<noteq> CHR ''*'' \<Longrightarrow> match_pattern (d # s) (c # p) \<longleftrightarrow> (c = CHR ''?'' \<or> c = d) \<and> match_pattern s p"
  by (auto simp: match_pattern.simps [of s "[]"] match_pattern.simps [of "[]" "c # p"]
      match_pattern.simps [of "d # s" "c # p"])

lemma match_pattern_star:
  "match_pattern s (CHR ''*'' # p) =
     (case dropWhile (\<lambda>x. x = CHR ''*'') p of
        [] \<Rightarrow> True
      | k # r \<Rightarrow> if k \<noteq> CHR ''?'' \<and> k \<noteq> CHR ''*'' then match_known s k r else match_each s (k # r))"
  by (simp add: match_pattern.simps [of s "CHR ''*'' # p"])

text \<open>The strings that a pattern stands for.\<close>

fun glob_lang :: "string \<Rightarrow> string set" where
  "glob_lang [] = {[]}"
| "glob_lang (c # p) =
     (if c = CHR ''*'' then {u @ v |u v. v \<in> glob_lang p}
      else if c = CHR ''?'' then {d # v |d v. v \<in> glob_lang p}
      else {c # v |v. v \<in> glob_lang p})"

lemma glob_lang_stars:
  "s \<in> glob_lang (CHR ''*'' # p) \<longleftrightarrow>
     (\<exists>u v. s = u @ v \<and> v \<in> glob_lang (dropWhile (\<lambda>x. x = CHR ''*'') p))"
proof (induction p)
  case (Cons c p)
  show ?case
  proof (cases "c = CHR ''*''")
    case True
    have "s \<in> glob_lang (CHR ''*'' # CHR ''*'' # p) \<longleftrightarrow> s \<in> glob_lang (CHR ''*'' # p)"
      by simp (metis append.assoc append_Nil)
    with True Cons show ?thesis by (simp del: glob_lang.simps)
  qed simp
qed simp

lemma match_pattern_glob: "match_pattern s p \<longleftrightarrow> s \<in> glob_lang p"
  and match_known_glob: "match_known s k q \<longleftrightarrow> (\<exists>u v. s = u @ k # v \<and> v \<in> glob_lang q)"
  and match_each_glob: "match_each s q' \<longleftrightarrow> (\<exists>u v. s = u @ v \<and> v \<noteq> [] \<and> v \<in> glob_lang q')"
proof (induction s p and s k q and s q' rule: match_pattern_match_known_match_each.induct)
  case (1 s p)
  show ?case
  proof (cases p)
    case (Cons c p')
    show ?thesis
    proof (cases "c = CHR ''*''")
      case star: True
      have p: "p = CHR ''*'' # p'" using Cons star by simp
      show ?thesis
      proof (cases "dropWhile (\<lambda>x. x = CHR ''*'') p'")
        case Nil
        then show ?thesis
          unfolding p glob_lang_stars match_pattern_star Nil by simp
      next
        case drop: (Cons k r)
        then have k: "k \<noteq> CHR ''*''" using hd_dropWhile [of "\<lambda>x. x = CHR ''*''" p'] by simp
        have dp: "dropWhile (\<lambda>x. x = CHR ''*'') p = k # r" using drop p by simp
        show ?thesis
          using 1(1) [OF Cons star dp] 1(2) [OF Cons star dp] drop k
          unfolding p glob_lang_stars
          by (cases "k = CHR ''?''") (auto simp: match_pattern_star)
      qed
    next
      case False
      show ?thesis
      proof (cases s)
        case s: (Cons d s')
        with 1(3) [OF Cons False s] False show ?thesis unfolding Cons s by auto
      qed (use False Cons in auto)
    qed
  qed simp
next
  case (2 s k q)
  show ?case
  proof (cases s)
    case (Cons d s')
    from 2(1) [OF Cons] 2(2) [OF Cons]
    have "match_known (d # s') k q \<longleftrightarrow>
        d = k \<and> s' \<in> glob_lang q \<or> (\<exists>u v. s' = u @ k # v \<and> v \<in> glob_lang q)"
      by (cases "d = k \<and> match_pattern s' q") auto
    then show ?thesis unfolding Cons by (auto simp: Cons_eq_append_conv)
  qed simp
next
  case (3 s q)
  show ?case
  proof (cases s)
    case (Cons d s')
    from 3(1) [OF Cons] 3(2) [OF Cons]
    have "match_each (d # s') q \<longleftrightarrow>
        d # s' \<in> glob_lang q \<or> (\<exists>u v. s' = u @ v \<and> v \<noteq> [] \<and> v \<in> glob_lang q)"
      by (cases "match_pattern (d # s') q") (auto simp: Cons)
    then show ?thesis unfolding Cons by (auto simp: Cons_eq_append_conv)
  qed simp
qed

section \<open>Pattern lists\<close>

definition SUB_MAX :: nat where "SUB_MAX = 1024 - 1"

fun copy_sub :: "nat \<Rightarrow> bool \<Rightarrow> string \<Rightarrow> string \<times> string" where
  "copy_sub n dolower [] = ([], [])"
| "copy_sub n dolower (c # pattern) =
     (if 0 < n \<and> c \<noteq> CHR '','' then
        (let (sub, r) = copy_sub (n - 1) dolower pattern
         in ((if dolower \<and> isupper c then tolower c else c) # sub, r))
      else ([], c # pattern))"

lemma copy_sub_length: "copy_sub n l p = (sub, r) \<Longrightarrow> length sub + length r = length p"
  by (induction n l p arbitrary: sub rule: copy_sub.induct) (auto split: if_splits prod.splits)

lemma list_loop_shorter:
  assumes "pattern \<noteq> []" "copy_sub SUB_MAX l (if hd pattern = CHR ''!'' then tl pattern else pattern) = (sub, r)"
  shows "length (if r \<noteq> [] \<and> hd r = CHR '','' then tl r else r) < length pattern"
proof (cases pattern)
  case (Cons c p)
  show ?thesis
  proof (cases "c = CHR ''!'' \<or> c = CHR '',''")
    case True
    with Cons assms copy_sub_length [OF assms(2)] show ?thesis by (auto split: if_splits)
  next
    case False
    with Cons assms copy_sub_length [of "SUB_MAX - 1" l p "tl sub" r] show ?thesis
      by (auto simp: SUB_MAX_def split: prod.splits)
  qed
qed (use assms in simp)

function match_pattern_list_loop :: "string \<Rightarrow> bool \<Rightarrow> string \<Rightarrow> bool \<Rightarrow> int" where
  "match_pattern_list_loop string dolower pattern got_positive =
     (if pattern = [] then (if got_positive then 1 else 0)
      else
        let negated = (hd pattern = CHR ''!'');
            (sub, r) = copy_sub SUB_MAX dolower (if negated then tl pattern else pattern);
            r1 = (if r \<noteq> [] \<and> hd r = CHR '','' then tl r else r)
        in if SUB_MAX \<le> length sub then 0
           else if match_pattern string sub then
             (if negated then - 1 else match_pattern_list_loop string dolower r1 True)
           else match_pattern_list_loop string dolower r1 got_positive)"
  by pat_completeness auto

termination
proof (relation "measure (\<lambda>(s, l, p, g). length p)", goal_cases)
  case (2 s l p g neg cs sub r r1)
  then show ?case using list_loop_shorter [of p l sub r] by (simp split del: if_split)
next
  case (3 s l p g neg cs sub r r1)
  then show ?case using list_loop_shorter [of p l sub r] by (simp split del: if_split)
qed simp

declare match_pattern_list_loop.simps [simp del]

definition match_pattern_list :: "string \<Rightarrow> string \<Rightarrow> bool \<Rightarrow> int" where
  "match_pattern_list string pattern dolower = match_pattern_list_loop string dolower pattern False"

definition match_usergroup_pattern_list :: "string \<Rightarrow> string \<Rightarrow> int" where
  "match_usergroup_pattern_list string pattern = match_pattern_list string pattern False"

definition match_hostname :: "string \<Rightarrow> string \<Rightarrow> int" where
  "match_hostname host pattern = match_pattern_list (lowercase host) pattern True"

text \<open>
  The reading of a pattern list that does not depend on the order of its entries: the entries
  are the parts between commas (a last empty part is not an entry), each a pattern that may be
  negated.
\<close>

definition list_entries :: "string \<Rightarrow> string list" where
  "list_entries pattern = (let xs = split_on CHR '','' pattern in if last xs = [] then butlast xs else xs)"

definition entry_pattern :: "bool \<Rightarrow> string \<Rightarrow> string" where
  "entry_pattern dolower e = (let p = (if e \<noteq> [] \<and> hd e = CHR ''!'' then tl e else e)
     in if dolower then lowercase p else p)"

definition entry_negated :: "string \<Rightarrow> bool" where
  "entry_negated e \<longleftrightarrow> e \<noteq> [] \<and> hd e = CHR ''!''"

definition list_matches :: "string \<Rightarrow> bool \<Rightarrow> bool \<Rightarrow> string list \<Rightarrow> bool" where
  "list_matches s dolower neg es \<longleftrightarrow>
     (\<exists>e\<in>set es. entry_negated e = neg \<and> s \<in> glob_lang (entry_pattern dolower e))"

lemma list_matches_simps [simp]:
  "list_matches s l n [] = False"
  "list_matches s l n (e # es) \<longleftrightarrow>
     entry_negated e = n \<and> s \<in> glob_lang (entry_pattern l e) \<or> list_matches s l n es"
  by (auto simp: list_matches_def)

lemma copy_sub_eq:
  "\<forall>c\<in>set x. c \<noteq> CHR '','' \<Longrightarrow> length x < n \<Longrightarrow> (r \<noteq> [] \<longrightarrow> hd r = CHR '','') \<Longrightarrow>
     copy_sub n l (x @ r) = (if l then lowercase x else x, r)"
proof (induction x arbitrary: n)
  case Nil
  then show ?case by (cases r) (auto simp: lowercase_def)
next
  case (Cons c x)
  then show ?case by (auto simp: lowercase_def tolower_def)
qed

lemma split_on_Cons_iff:
  "split_on d s = x # xs \<longleftrightarrow>
     d \<notin> set x \<and> (if xs = [] then s = x else \<exists>r. s = x @ d # r \<and> split_on d r = xs)"
proof
  assume a: "split_on d s = x # xs"
  then have nx: "d \<notin> set x" and nxs: "\<forall>y\<in>set xs. d \<notin> set y"
    using split_on_no_sep [of _ d s] by auto
  have s: "s = join d (x # xs)" using join_split_on [of d s] a by simp
  with nx nxs show "d \<notin> set x \<and> (if xs = [] then s = x else \<exists>r. s = x @ d # r \<and> split_on d r = xs)"
    by (cases xs) (auto simp: split_on_join simp del: join.simps(3), metis join.simps(3) list.distinct(1) split_on_join list.set_intros set_ConsD)
next
  assume "d \<notin> set x \<and> (if xs = [] then s = x else \<exists>r. s = x @ d # r \<and> split_on d r = xs)"
  then show "split_on d s = x # xs"
    using split_on_append [of d x "[]"] by (auto simp: split_on_append split: if_splits)
qed

lemma list_entries_simps:
  "list_entries [] = []"
  "CHR '','' \<notin> set x \<Longrightarrow> x \<noteq> [] \<Longrightarrow> list_entries x = [x]"
  "CHR '','' \<notin> set x \<Longrightarrow> list_entries (x @ CHR '','' # r) = x # list_entries r"
  using split_on_append [of "CHR '',''" x "[]"] split_on_append [of "CHR '',''" x "CHR '','' # r"]
  by (simp_all add: list_entries_def Let_def)

lemma list_cases:
  obtains "pattern = []"
  | x where "pattern = x" "x \<noteq> []" "CHR '','' \<notin> set x"
  | x r where "pattern = x @ CHR '','' # r" "CHR '','' \<notin> set x"
proof (cases "CHR '','' \<in> set pattern")
  case True
  with split_list_first [of "CHR '',''" pattern] that(3) show ?thesis by blast
qed (use that in blast)

lemma list_loop_step:
  assumes x: "CHR '','' \<notin> set x" and r0: "r0 = [] \<and> x \<noteq> [] \<and> r = [] \<or> r0 = CHR '','' # r"
    and len: "length (entry_pattern l x) < SUB_MAX"
  shows "match_pattern_list_loop s l (x @ r0) g =
    (if match_pattern s (entry_pattern l x)
     then if entry_negated x then - 1 else match_pattern_list_loop s l r True
     else match_pattern_list_loop s l r g)"
proof -
  let ?y = "if entry_negated x then tl x else x"
  have neg: "hd (x @ r0) = CHR ''!'' \<longleftrightarrow> entry_negated x" and ne: "x @ r0 \<noteq> []"
    using r0 by (auto simp: entry_negated_def hd_append)
  have tl: "(if entry_negated x then tl (x @ r0) else x @ r0) = ?y @ r0"
    by (auto simp: entry_negated_def)
  have y: "\<forall>c\<in>set ?y. c \<noteq> CHR '',''" "entry_pattern l x = (if l then lowercase ?y else ?y)"
    using x by (auto simp: entry_pattern_def entry_negated_def dest: list.set_sel(2))
  then have "length ?y < SUB_MAX" using len by (simp add: lowercase_def split: if_splits)
  then have cp: "copy_sub SUB_MAX l (?y @ r0) = (entry_pattern l x, r0)"
    using copy_sub_eq [OF y(1), of SUB_MAX r0 l] r0 y(2) by auto
  have r: "(if r0 \<noteq> [] \<and> hd r0 = CHR '','' then tl r0 else r0) = r" using r0 by auto
  show ?thesis
    unfolding match_pattern_list_loop.simps [of s l "x @ r0"] Let_def neg tl cp prod.case r
    using ne len by (simp del: append_is_Nil_conv)
qed

lemma match_pattern_list_loop_eq:
  "\<forall>e\<in>set (list_entries pattern). length (entry_pattern l e) < SUB_MAX \<Longrightarrow>
   match_pattern_list_loop s l pattern g =
    (if list_matches s l True (list_entries pattern) then - 1
     else if g \<or> list_matches s l False (list_entries pattern) then 1 else 0)"
proof (induction "length pattern" arbitrary: pattern g rule: less_induct)
  case less
  show ?case
  proof (cases rule: list_cases [of pattern])
    case 1
    then show ?thesis
      by (simp add: match_pattern_list_loop.simps list_entries_simps)
  next
    case (2 x)
    with less.prems list_loop_step [of x "[]" "[]" l s g] show ?thesis
      by (simp add: list_entries_simps match_pattern_glob
          match_pattern_list_loop.simps [of s l "[]"])
  next
    case (3 x r)
    then have "match_pattern_list_loop s l r g =
        (if list_matches s l True (list_entries r) then - 1
         else if g \<or> list_matches s l False (list_entries r) then 1 else 0)" for g
      using less.prems by (intro less.hyps) (auto simp: list_entries_simps)
    with 3 less.prems list_loop_step [of x "CHR '','' # r" r l s g] show ?thesis
      by (auto simp: list_entries_simps match_pattern_glob)
  qed
qed

section \<open>Choosing a name\<close>

definition MAX_PROP :: nat where "MAX_PROP = 40"

definition strsep_left :: "string option \<Rightarrow> nat" where
  "strsep_left sp = (case sp of None \<Rightarrow> 0 | Some s \<Rightarrow> Suc (length s))"

lemma strsep_left_less:
  "strsep sp delim = (Some p, sp') \<Longrightarrow> strsep_left sp' < strsep_left sp"
  by (cases sp) (auto simp: strsep_left_def strsep_def strsep_scan_shorter
      split: option.splits prod.splits dest: strsep_scan_shorter)

function server_proposals :: "string option \<Rightarrow> nat \<Rightarrow> string list" where
  "server_proposals sp i =
     (case strsep sp '','' of
        (None, _) \<Rightarrow> []
      | (Some p, sp') \<Rightarrow>
          if p = [] then []
          else if i < MAX_PROP then p # server_proposals sp' (i + 1)
          else [])"
  by pat_completeness auto
termination
  by (relation "measure (\<lambda>(sp, i). strsep_left sp)") (auto dest: strsep_left_less [OF sym])

function client_search :: "string \<Rightarrow> string list \<Rightarrow> string option \<Rightarrow> string option \<times> u32" where
  "client_search c sproposals cp =
     (case strsep cp '','' of
        (None, _) \<Rightarrow> (None, of_nat (length c))
      | (Some p, cp') \<Rightarrow>
          if p = [] then (None, of_nat (length c))
          else if p \<in> set sproposals
          then (Some p, case cp' of None \<Rightarrow> of_nat (length c) | Some r \<Rightarrow> of_nat (length c - length r))
          else client_search c sproposals cp')"
  by pat_completeness auto
termination
  by (relation "measure (\<lambda>(c, sps, cp). strsep_left cp)") (auto dest: strsep_left_less [OF sym])

declare server_proposals.simps [simp del] client_search.simps [simp del]

definition match_list :: "string \<Rightarrow> string \<Rightarrow> string option \<times> u32" where
  "match_list client server = client_search client (server_proposals (Some server) 0) (Some client)"

text \<open>The names of a proposal: the parts between commas, up to the first empty one.\<close>

definition proposal_names :: "string \<Rightarrow> string list" where
  "proposal_names s = takeWhile (\<lambda>x. x \<noteq> []) (split_on CHR '','' s)"

lemma server_proposals_tokens:
  "\<forall>x\<in>set xs. CHR '','' \<notin> set x \<Longrightarrow>
     server_proposals (tokens CHR '','' xs) i = take (MAX_PROP - i) (takeWhile (\<lambda>x. x \<noteq> []) xs)"
proof (induction xs arbitrary: i)
  case (Cons x xs)
  have "server_proposals (tokens CHR '','' (x # xs)) i =
      (if x = [] then [] else if i < MAX_PROP then x # server_proposals (tokens CHR '','' xs) (i + 1) else [])"
    using Cons.prems by (subst server_proposals.simps) (simp add: strsep_tokens)
  moreover have "i < MAX_PROP \<Longrightarrow> MAX_PROP - i = Suc (MAX_PROP - (i + 1))" by simp
  ultimately show ?case using Cons by simp
qed (simp add: server_proposals.simps [of "tokens _ _"] strsep_tokens)

lemma client_search_tokens:
  "\<forall>x\<in>set xs. CHR '','' \<notin> set x \<Longrightarrow>
     fst (client_search c sps (tokens CHR '','' xs)) =
       find (\<lambda>x. x \<in> set sps) (takeWhile (\<lambda>x. x \<noteq> []) xs)"
proof (induction xs)
  case (Cons x xs)
  then show ?case by (auto simp: client_search.simps [of _ _ "tokens _ _"] strsep_tokens)
qed (simp add: client_search.simps [of _ _ "tokens _ _"] strsep_tokens)

lemma match_list_eq:
  "fst (match_list client server) =
     find (\<lambda>x. x \<in> set (take MAX_PROP (proposal_names server))) (proposal_names client)"
proof -
  have "server_proposals (Some server) 0 = take MAX_PROP (proposal_names server)"
    using server_proposals_tokens [of "split_on CHR '','' server" 0] split_on_items [of _ server]
    by (simp add: proposal_names_def tokens_def)
  moreover have "fst (client_search client sps (Some client)) =
      find (\<lambda>x. x \<in> set sps) (proposal_names client)" for sps
    using client_search_tokens [of "split_on CHR '','' client" client sps] split_on_items [of _ client]
    by (simp add: proposal_names_def tokens_def)
  ultimately show ?thesis by (simp add: match_list_def)
qed

section \<open>Filtering a proposal\<close>

function filter_loop :: "string \<Rightarrow> bool \<Rightarrow> nat \<Rightarrow> string option \<Rightarrow> string \<Rightarrow> string" where
  "filter_loop filt denylist len tmp fix_prop =
     (case strsep tmp '','' of
        (None, _) \<Rightarrow> fix_prop
      | (Some cp, tmp') \<Rightarrow>
          let r = match_pattern_list cp filt False;
              fix_prop' =
                (if denylist \<and> r \<noteq> 1 \<or> \<not> denylist \<and> r = 1
                 then let f = (if fix_prop \<noteq> [] then snd (strlcat fix_prop '','' len) else fix_prop)
                      in snd (strlcat f cp len)
                 else fix_prop)
          in filter_loop filt denylist len tmp' fix_prop')"
  by pat_completeness auto
termination
  by (relation "measure (\<lambda>(fi, d, l, tmp, f). strsep_left tmp)") (auto dest: strsep_left_less [OF sym])

declare filter_loop.simps [simp del]

definition filter_list :: "allocator \<Rightarrow> string \<Rightarrow> string \<Rightarrow> bool \<Rightarrow> string option" where
  "filter_list am proposal filt denylist =
     (let len = length proposal + 1 in
      if am (of_nat len) = NULL then None
      else Some (filter_loop filt denylist len (Some proposal) []))"

definition match_filter_denylist :: "allocator \<Rightarrow> string \<Rightarrow> string \<Rightarrow> string option" where
  "match_filter_denylist am proposal filt = filter_list am proposal filt True"

definition match_filter_allowlist :: "allocator \<Rightarrow> string \<Rightarrow> string \<Rightarrow> string option" where
  "match_filter_allowlist am proposal filt = filter_list am proposal filt False"

text \<open>The names that survive, in their order, and nothing is cut off.\<close>

definition filter_keeps :: "string \<Rightarrow> bool \<Rightarrow> string \<Rightarrow> bool" where
  "filter_keeps filt denylist x \<longleftrightarrow> (match_pattern_list x filt False = 1) \<noteq> denylist"

lemma filter_loop_tokens:
  "\<forall>x\<in>set xs. CHR '','' \<notin> set x \<and> x \<noteq> [] \<Longrightarrow> \<forall>y\<in>set ys. y \<noteq> [] \<Longrightarrow>
     length (join CHR '','' (ys @ xs)) < len \<Longrightarrow>
     filter_loop filt deny len (tokens CHR '','' xs) (join CHR '','' ys) =
       join CHR '','' (ys @ filter (filter_keeps filt deny) xs)"
proof (induction xs arbitrary: ys)
  case Nil
  then show ?case by (simp add: filter_loop.simps [of _ _ _ "tokens _ _"] strsep_tokens)
next
  case (Cons x xs)
  let ?d = "CHR '',''"
  let ?f = "if join ?d ys \<noteq> [] then snd (strlcat (join ?d ys) '','' len) else join ?d ys"
  have step: "filter_loop filt deny len (tokens ?d (x # xs)) (join ?d ys) =
      filter_loop filt deny len (tokens ?d xs)
        (if filter_keeps filt deny x then snd (strlcat ?f x len) else join ?d ys)"
    using Cons.prems(1)
    by (subst filter_loop.simps) (auto simp: strsep_tokens filter_keeps_def Let_def)
  have len: "length (join ?d (ys @ x # xs)) < len" by (rule Cons.prems(3))
  show ?case
  proof (cases "filter_keeps filt deny x")
    case True
    have "snd (strlcat ?f x len) = join ?d (ys @ [x])"
    proof (cases "ys = []")
      case True
      then show ?thesis using len by (auto simp: strlcat_fits length_join)
    next
      case False
      then have "length (join ?d ys) + length (?d # x) < len" using len by (cases ys) (auto simp: length_join)
      with False join_Nil_iff [OF Cons.prems(2), of ?d] join_append [of "[x]" ?d ys] show ?thesis
        by (simp add: strlcat_fits)
    qed
    with True step Cons.prems Cons.IH [of "ys @ [x]"] show ?thesis by simp
  next
    case False
    have "length (join ?d (ys @ xs)) < len" using len by (auto simp: length_join)
    with False step Cons.prems Cons.IH [of ys] show ?thesis by simp
  qed
qed

lemma filter_list_eq:
  assumes "[] \<notin> set (split_on CHR '','' proposal)"
    and "filter_list am proposal filt deny = Some s"
  shows "s = join CHR '','' (filter (filter_keeps filt deny) (split_on CHR '','' proposal))"
proof -
  have "\<forall>x\<in>set (split_on CHR '','' proposal). CHR '','' \<notin> set x \<and> x \<noteq> []"
    using assms(1) split_on_items by metis
  then show ?thesis
    using assms(2) filter_loop_tokens [of "split_on CHR '','' proposal" "[]" "length proposal + 1" filt deny]
    by (simp add: filter_list_def Let_def tokens_def split: if_splits)
qed

section \<open>Properties\<close>

text \<open>
  C17: the wildcard matcher, with its search for the next known character, accepts exactly the
  strings that the pattern denotes, and always returns.
\<close>

theorem match_pattern_spec: "match_pattern s p \<longleftrightarrow> s \<in> glob_lang p"
  by (rule match_pattern_glob)

text \<open>
  C27: a pattern list whose entries fit the buffer gives a negative match exactly if a negated
  entry matches, wherever it stands in the list; otherwise a positive match exactly if some
  other entry matches.
\<close>

theorem match_pattern_list_spec:
  assumes "\<forall>e\<in>set (list_entries pattern). length (entry_pattern l e) < SUB_MAX"
  shows "match_pattern_list s pattern l =
    (if list_matches s l True (list_entries pattern) then - 1
     else if list_matches s l False (list_entries pattern) then 1 else 0)"
  using match_pattern_list_loop_eq [OF assms] by (simp add: match_pattern_list_def)

theorem match_pattern_list_spec_witness:
  "match_pattern_list ''alice'' ''bob,al*,!*e'' False = - 1"
  using match_pattern_list_spec [of "''bob,al*,!*e''" False "''alice''"]
  by (simp add: list_entries_def entry_pattern_def entry_negated_def SUB_MAX_def Let_def)

text \<open>
  C22: the name chosen from two proposals is the first name of the client that is among the
  first 40 names of the server; a proposal ends at its first empty name.
\<close>

theorem match_list_spec:
  "fst (match_list client server) =
     find (\<lambda>x. x \<in> set (take MAX_PROP (proposal_names server))) (proposal_names client)"
  by (rule match_list_eq)

text \<open>
  filtering a proposal keeps, in order and untruncated, exactly the names that the filter
  admits: those with a positive match for an allow list, those without one for a deny list.
\<close>

theorem filter_list_spec:
  assumes "[] \<notin> set (split_on CHR '','' proposal)" "filter_list am proposal filt deny = Some s"
  shows "s = join CHR '','' (filter (\<lambda>x. (match_pattern_list x filt False = 1) \<noteq> deny)
    (split_on CHR '','' proposal))"
proof -
  have "filter_keeps filt deny = (\<lambda>x. (match_pattern_list x filt False = 1) \<noteq> deny)"
    by (simp add: fun_eq_iff filter_keeps_def)
  with filter_list_eq [OF assms] show ?thesis by simp
qed

theorem filter_list_spec_witness:
  "match_filter_denylist (\<lambda>_. 1) ''aes,des,3des'' ''*des'' = Some ''aes''"
proof -
  have "match_pattern_list x ''*des'' False = (if match_pattern x ''*des'' then 1 else 0)" for x
    by (simp add: match_pattern_list_def match_pattern_list_loop.simps SUB_MAX_def Let_def)
  then show ?thesis
    using filter_list_spec [of "''aes,des,3des''" "\<lambda>_. 1" "''*des''" True]
    by (simp add: match_filter_denylist_def filter_list_def match_pattern_star)
qed

end
