(* ===== verification/Addr.thy ===== *)
theory Addr
  imports Match
begin

text \<open>
  \<^verbatim>\<open>addr.c\<close> and \<^verbatim>\<open>addrmatch.c\<close>: network addresses, netmasks, CIDR parsing and the matching of
  an address against a list of networks and wildcards. The 128-bit union of \<^verbatim>\<open>struct xaddr\<close> is
  the list of its four 32-bit words in network order (the words \<^verbatim>\<open>ntohl(addr32[i])\<close>; \<^verbatim>\<open>v4\<close> is
  the first of them), so that the bytes \<^verbatim>\<open>addr8\<close> are the big-endian bytes of the words.
  \<^verbatim>\<open>getaddrinfo\<close> and \<^verbatim>\<open>getnameinfo\<close> belong to the system and are parameters. The lemmas show
  masks and matches bit by bit: an address is in a network exactly if the leading bits agree.
\<close>

unbundle bit_operations_syntax

section \<open>Addresses\<close>

datatype addr_family = AF_INET | AF_INET6 | AF_OTHER

record xaddr =
  xa_af :: addr_family
  xa_addr32 :: "u32 list"
  xa_scope_id :: u32

definition xaddr_zero :: xaddr where
  "xaddr_zero = \<lparr>xa_af = AF_OTHER, xa_addr32 = [0, 0, 0, 0], xa_scope_id = 0\<rparr>"

datatype sockaddr = SA_in u16 u32 | SA_in6 u16 "u32 list" u32 | SA_other

definition addr_unicast_masklen :: "addr_family \<Rightarrow> int" where
  "addr_unicast_masklen af = (case af of AF_INET \<Rightarrow> 32 | AF_INET6 \<Rightarrow> 128 | AF_OTHER \<Rightarrow> - 1)"

definition masklen_valid :: "addr_family \<Rightarrow> u32 \<Rightarrow> int" where
  "masklen_valid af masklen =
     (case af of
        AF_INET \<Rightarrow> if masklen \<le> 32 then 0 else - 1
      | AF_INET6 \<Rightarrow> if masklen \<le> 128 then 0 else - 1
      | AF_OTHER \<Rightarrow> - 1)"

definition sizeof_sockaddr_in :: u32 where "sizeof_sockaddr_in = 16"
definition sizeof_sockaddr_in6 :: u32 where "sizeof_sockaddr_in6 = 28"

definition addr_xaddr_to_sa :: "xaddr \<Rightarrow> u32 \<Rightarrow> u16 \<Rightarrow> (sockaddr \<times> u32) option" where
  "addr_xaddr_to_sa xa len port =
     (case xa_af xa of
        AF_INET \<Rightarrow>
          if len < sizeof_sockaddr_in then None
          else Some (SA_in port (xa_addr32 xa ! 0), sizeof_sockaddr_in)
      | AF_INET6 \<Rightarrow>
          if len < sizeof_sockaddr_in6 then None
          else Some (SA_in6 port (xa_addr32 xa) (xa_scope_id xa), sizeof_sockaddr_in6)
      | AF_OTHER \<Rightarrow> None)"

definition addr_sa_to_xaddr :: "sockaddr \<Rightarrow> u32 \<Rightarrow> xaddr option" where
  "addr_sa_to_xaddr sa slen =
     (case sa of
        SA_in port a \<Rightarrow>
          if slen < sizeof_sockaddr_in then None
          else Some (xaddr_zero\<lparr>xa_af := AF_INET, xa_addr32 := (xa_addr32 xaddr_zero)[0 := a]\<rparr>)
      | SA_in6 port a scope \<Rightarrow>
          if slen < sizeof_sockaddr_in6 then None
          else Some (xaddr_zero\<lparr>xa_af := AF_INET6, xa_addr32 := a, xa_scope_id := scope\<rparr>)
      | SA_other \<Rightarrow> None)"

definition addr_invert :: "xaddr \<Rightarrow> xaddr option" where
  "addr_invert n =
     (case xa_af n of
        AF_INET \<Rightarrow> Some (n\<lparr>xa_addr32 := (xa_addr32 n)[0 := NOT (xa_addr32 n ! 0)]\<rparr>)
      | AF_INET6 \<Rightarrow> Some (n\<lparr>xa_addr32 := map NOT (xa_addr32 n)\<rparr>)
      | AF_OTHER \<Rightarrow> None)"

function netmask6_loop :: "nat \<Rightarrow> u32 \<Rightarrow> u32 list \<Rightarrow> nat \<times> u32 \<times> u32 list" where
  "netmask6_loop i l ws =
     (if i < 4 \<and> l \<ge> 32 then netmask6_loop (i + 1) (l - 32) (ws[i := 0xffffffff]) else (i, l, ws))"
  by pat_completeness auto
termination by (relation "measure (\<lambda>(i, l, ws). 4 - i)") auto

declare netmask6_loop.simps [simp del]

definition addr_netmask :: "addr_family \<Rightarrow> u32 \<Rightarrow> xaddr option" where
  "addr_netmask af l =
     (if masklen_valid af l \<noteq> 0 then None
      else
        (case af of
           AF_INET \<Rightarrow>
             let n = xaddr_zero\<lparr>xa_af := AF_INET\<rparr> in
             if l = 0 then Some n
             else Some (n\<lparr>xa_addr32 := (xa_addr32 n)
                    [0 := push_bit (unat (32 - l)) 0xffffffff AND 0xffffffff]\<rparr>)
         | AF_INET6 \<Rightarrow>
             let n = xaddr_zero\<lparr>xa_af := AF_INET6\<rparr>;
                 (i, l1, ws) = netmask6_loop 0 l (xa_addr32 n)
             in Some (n\<lparr>xa_addr32 :=
                  (if i < 4 \<and> l1 \<noteq> 0
                   then ws[i := push_bit (unat (32 - l1)) 0xffffffff AND 0xffffffff] else ws)\<rparr>)
         | AF_OTHER \<Rightarrow> None))"

definition addr_hostmask :: "addr_family \<Rightarrow> u32 \<Rightarrow> xaddr option" where
  "addr_hostmask af l = (case addr_netmask af l of None \<Rightarrow> None | Some n \<Rightarrow> addr_invert n)"

definition addr_and :: "xaddr \<Rightarrow> xaddr \<Rightarrow> xaddr option" where
  "addr_and a b =
     (if xa_af a \<noteq> xa_af b then None
      else
        (case xa_af a of
           AF_INET \<Rightarrow> Some (a\<lparr>xa_addr32 := (xa_addr32 a)[0 := xa_addr32 a ! 0 AND xa_addr32 b ! 0]\<rparr>)
         | AF_INET6 \<Rightarrow> Some (a\<lparr>xa_addr32 := map2 (AND) (xa_addr32 a) (xa_addr32 b)\<rparr>)
         | AF_OTHER \<Rightarrow> None))"

definition addr_or :: "xaddr \<Rightarrow> xaddr \<Rightarrow> xaddr option" where
  "addr_or a b =
     (if xa_af a \<noteq> xa_af b then None
      else
        (case xa_af a of
           AF_INET \<Rightarrow> Some (a\<lparr>xa_addr32 := (xa_addr32 a)[0 := xa_addr32 a ! 0 OR xa_addr32 b ! 0]\<rparr>)
         | AF_INET6 \<Rightarrow> Some (a\<lparr>xa_addr32 := map2 (OR) (xa_addr32 a) (xa_addr32 b)\<rparr>)
         | AF_OTHER \<Rightarrow> None))"

definition xaddr_addr8 :: "xaddr \<Rightarrow> byte list" where
  "xaddr_addr8 a = concat (map POKE_U32 (xa_addr32 a))"

fun addr8_diff :: "byte list \<Rightarrow> byte list \<Rightarrow> int option" where
  "addr8_diff (x # xs) (y # ys) = (if uint x - uint y \<noteq> 0 then Some (uint x - uint y) else addr8_diff xs ys)"
| "addr8_diff _ _ = None"

definition addr_cmp :: "xaddr \<Rightarrow> xaddr \<Rightarrow> int" where
  "addr_cmp a b =
     (if xa_af a \<noteq> xa_af b then (if xa_af a = AF_INET6 then 1 else - 1)
      else
        (case xa_af a of
           AF_INET \<Rightarrow>
             if xa_addr32 a ! 0 = xa_addr32 b ! 0 then 0
             else if xa_addr32 a ! 0 > xa_addr32 b ! 0 then 1 else - 1
         | AF_INET6 \<Rightarrow>
             (case addr8_diff (xaddr_addr8 a) (xaddr_addr8 b) of
                Some d \<Rightarrow> d
              | None \<Rightarrow>
                  if xa_scope_id a = xa_scope_id b then 0
                  else if xa_scope_id a > xa_scope_id b then 1 else - 1)
         | AF_OTHER \<Rightarrow> - 1))"

definition addr_is_all0s :: "xaddr \<Rightarrow> int" where
  "addr_is_all0s a =
     (case xa_af a of
        AF_INET \<Rightarrow> if xa_addr32 a ! 0 = 0 then 0 else - 1
      | AF_INET6 \<Rightarrow> if \<exists>w\<in>set (xa_addr32 a). w \<noteq> 0 then - 1 else 0
      | AF_OTHER \<Rightarrow> - 1)"

fun increment6 :: "nat \<Rightarrow> u32 list \<Rightarrow> u32 list" where
  "increment6 0 ws = ws"
| "increment6 (Suc k) ws =
     (let n = ws ! k + 1; ws' = ws[k := n] in if n \<noteq> 0 then ws' else increment6 k ws')"

definition addr_increment :: "xaddr \<Rightarrow> xaddr" where
  "addr_increment a =
     (case xa_af a of
        AF_INET \<Rightarrow> a\<lparr>xa_addr32 := (xa_addr32 a)[0 := xa_addr32 a ! 0 + 1]\<rparr>
      | AF_INET6 \<Rightarrow> a\<lparr>xa_addr32 := increment6 4 (xa_addr32 a)\<rparr>
      | AF_OTHER \<Rightarrow> a)"

definition addr_host_is_all0s :: "xaddr \<Rightarrow> u32 \<Rightarrow> int" where
  "addr_host_is_all0s a masklen =
     (case addr_hostmask (xa_af a) masklen of
        None \<Rightarrow> - 1
      | Some tmp_mask \<Rightarrow>
          (case addr_and a tmp_mask of
             None \<Rightarrow> - 1
           | Some tmp_result \<Rightarrow> addr_is_all0s tmp_result))"

definition addr_host_to_all1s :: "xaddr \<Rightarrow> u32 \<Rightarrow> xaddr option" where
  "addr_host_to_all1s a masklen =
     (case addr_hostmask (xa_af a) masklen of
        None \<Rightarrow> None
      | Some tmp_mask \<Rightarrow> addr_or a tmp_mask)"

definition addr_netmatch :: "xaddr \<Rightarrow> xaddr \<Rightarrow> u32 \<Rightarrow> int" where
  "addr_netmatch host net masklen =
     (if xa_af host \<noteq> xa_af net then - 1
      else
        (case addr_netmask (xa_af host) masklen of
           None \<Rightarrow> - 1
         | Some tmp_mask \<Rightarrow>
             (case addr_and host tmp_mask of
                None \<Rightarrow> - 1
              | Some tmp_result \<Rightarrow> addr_cmp tmp_result net)))"

section \<open>Parsing\<close>

text \<open>
  The answer of \<^verbatim>\<open>getaddrinfo\<close> with \<^verbatim>\<open>AI_NUMERICHOST\<close>: failure, success without a result,
  a result without an address, or an address with its length.
\<close>

datatype gai_result = GAI_error | GAI_null | GAI_no_addr | GAI_addr sockaddr u32

type_synonym resolver = "string \<Rightarrow> gai_result"

definition addr_pton :: "resolver \<Rightarrow> string option \<Rightarrow> xaddr option" where
  "addr_pton gai p =
     (case p of
        None \<Rightarrow> None
      | Some s \<Rightarrow>
          (case gai s of
             GAI_addr sa len \<Rightarrow> addr_sa_to_xaddr sa len
           | _ \<Rightarrow> None))"

definition SIZEOF_SOCKADDR_STORAGE :: u32 where "SIZEOF_SOCKADDR_STORAGE = 128"

definition addr_ntop :: "(sockaddr \<Rightarrow> u32 \<Rightarrow> nat \<Rightarrow> string option) \<Rightarrow> xaddr \<Rightarrow> nat \<Rightarrow> string option" where
  "addr_ntop getnameinfo n len =
     (case addr_xaddr_to_sa n SIZEOF_SOCKADDR_STORAGE 0 of
        None \<Rightarrow> None
      | Some (ss, slen) \<Rightarrow> if len = 0 then None else getnameinfo ss slen len)"

definition addr_pton_cidr :: "resolver \<Rightarrow> string option \<Rightarrow> int + xaddr \<times> u32" where
  "addr_pton_cidr gai p =
     (case p of
        None \<Rightarrow> Inl (- 1)
      | Some s \<Rightarrow>
          let (r, addrbuf) = strlcpy [] s 64 in
          if 64 \<le> r then Inl (- 1)
          else
            let (host, mp) = (case strchr addrbuf CHR ''/'' of
                   None \<Rightarrow> (addrbuf, None) | Some (h, m) \<Rightarrow> (h, Some m));
                bad = (case mp of
                   None \<Rightarrow> False
                 | Some m \<Rightarrow> m = [] \<or> \<not> isdigit (hd m) \<or> snd (strtoul10 m) \<noteq> [] \<or>
                     fst (strtoul10 m) > 128)
            in if bad then Inl (- 1)
               else
                 (case addr_pton gai (Some host) of
                    None \<Rightarrow> Inl (- 1)
                  | Some tmp \<Rightarrow>
                      let masklen = (case mp of
                            None \<Rightarrow> of_int (addr_unicast_masklen (xa_af tmp))
                          | Some m \<Rightarrow> ucast (fst (strtoul10 m))) :: u32
                      in if masklen_valid (xa_af tmp) masklen = - 1 then Inl (- 2)
                         else if addr_host_is_all0s tmp masklen \<noteq> 0 then Inl (- 2)
                         else Inr (tmp, masklen)))"

section \<open>Lists of networks\<close>

function addr_match_loop :: "resolver \<Rightarrow> (string \<times> xaddr) option \<Rightarrow> string option \<Rightarrow> int \<Rightarrow> int" where
  "addr_match_loop gai addr list ret =
     (case strsep list '','' of
        (None, _) \<Rightarrow> ret
      | (Some cp0, list') \<Rightarrow>
          let neg = (cp0 \<noteq> [] \<and> hd cp0 = CHR ''!'');
              cp = (if neg then tl cp0 else cp0)
          in if cp = [] then - 2
             else
               (case addr_pton_cidr gai (Some cp) of
                  Inl r \<Rightarrow>
                    if r = - 2 then - 2
                    else if (case addr of None \<Rightarrow> False | Some (a, _) \<Rightarrow> match_pattern a cp)
                    then (if neg then - 1 else addr_match_loop gai addr list' 1)
                    else addr_match_loop gai addr list' ret
                | Inr (match_addr, masklen) \<Rightarrow>
                    if (case addr of None \<Rightarrow> False
                        | Some (_, try_addr) \<Rightarrow> addr_netmatch try_addr match_addr masklen = 0)
                    then (if neg then - 1 else addr_match_loop gai addr list' 1)
                    else addr_match_loop gai addr list' ret))"
  by pat_completeness auto
termination
  by (relation "measure (\<lambda>(g, a, list, r). strsep_left list)") (auto dest: strsep_left_less [OF sym])

declare addr_match_loop.simps [simp del]

definition addr_match_list :: "resolver \<Rightarrow> allocator \<Rightarrow> string option \<Rightarrow> string \<Rightarrow> int" where
  "addr_match_list gai am addr list =
     (case addr of
        None \<Rightarrow> if am (of_nat (length list + 1)) = NULL then - 1 else addr_match_loop gai None (Some list) 0
      | Some a \<Rightarrow>
          (case addr_pton gai (Some a) of
             None \<Rightarrow> 0
           | Some try_addr \<Rightarrow>
               if am (of_nat (length list + 1)) = NULL then - 1
               else addr_match_loop gai (Some (a, try_addr)) (Some list) 0))"

definition INET6_ADDRSTRLEN :: nat where "INET6_ADDRSTRLEN = 46"

definition VALID_CIDR_CHARS :: string where "VALID_CIDR_CHARS = ''0123456789abcdefABCDEF.:/''"

function addr_match_cidr_loop :: "resolver \<Rightarrow> xaddr option \<Rightarrow> string option \<Rightarrow> int \<Rightarrow> int" where
  "addr_match_cidr_loop gai addr list ret =
     (case strsep list '','' of
        (None, _) \<Rightarrow> ret
      | (Some cp, list') \<Rightarrow>
          if cp = [] then - 1
          else if INET6_ADDRSTRLEN + 3 < length cp then - 1
          else
            let ret1 = (if \<not> set cp \<subseteq> set VALID_CIDR_CHARS then - 1 else ret) in
            (case addr_pton_cidr gai (Some cp) of
               Inl r \<Rightarrow> - 1
             | Inr (match_addr, masklen) \<Rightarrow>
                 addr_match_cidr_loop gai addr list'
                   (case addr of None \<Rightarrow> ret1
                    | Some try_addr \<Rightarrow>
                        if addr_netmatch try_addr match_addr masklen = 0 then 1 else ret1)))"
  by pat_completeness auto
termination
  by (relation "measure (\<lambda>(g, a, list, r). strsep_left list)") (auto dest: strsep_left_less [OF sym])

declare addr_match_cidr_loop.simps [simp del]

definition addr_match_cidr_list :: "resolver \<Rightarrow> allocator \<Rightarrow> string option \<Rightarrow> string \<Rightarrow> int" where
  "addr_match_cidr_list gai am addr list =
     (case addr of
        None \<Rightarrow> if am (of_nat (length list + 1)) = NULL then - 1 else addr_match_cidr_loop gai None (Some list) 0
      | Some a \<Rightarrow>
          (case addr_pton gai (Some a) of
             None \<Rightarrow> 0
           | Some try_addr \<Rightarrow>
               if am (of_nat (length list + 1)) = NULL then - 1
               else addr_match_cidr_loop gai (Some try_addr) (Some list) 0))"

section \<open>Masks bit by bit\<close>

text \<open>
  The words of an address that its family uses, and its bits counted from the most significant
  bit of the first word, the way prefixes count them.
\<close>

definition xaddr_wf :: "xaddr \<Rightarrow> bool" where
  "xaddr_wf a \<longleftrightarrow> xa_af a \<noteq> AF_OTHER \<and> length (xa_addr32 a) = 4"

definition xaddr_words :: "xaddr \<Rightarrow> u32 list" where
  "xaddr_words a = (if xa_af a = AF_INET then [xa_addr32 a ! 0] else xa_addr32 a)"

definition word_count :: "addr_family \<Rightarrow> nat" where
  "word_count af = (if af = AF_INET then 1 else 4)"

definition addr_bit :: "u32 list \<Rightarrow> nat \<Rightarrow> bool" where
  "addr_bit ws i = bit (ws ! (i div 32)) (31 - i mod 32)"

definition mask_word :: "nat \<Rightarrow> u32" where
  "mask_word k = (if k = 0 then 0 else push_bit (32 - k) 0xffffffff)"

lemma bit_mask_word: "bit (mask_word k) n \<longleftrightarrow> n < 32 \<and> 32 - k \<le> n"
proof -
  have f: "(0xffffffff :: u32) = mask 32" by (simp add: mask_eq_exp_minus_1)
  show ?thesis unfolding mask_word_def f by (auto simp: bit_simps)
qed

lemma mask_word_full [simp]: "32 \<le> k \<Longrightarrow> mask_word k = 0xffffffff"
  by (simp add: mask_word_def)

lemma mask_word_0 [simp]: "mask_word 0 = 0"
  by (simp add: mask_word_def)

lemma netmask_word:
  assumes "l \<le> 32" "l \<noteq> (0 :: u32)"
  shows "push_bit (unat (32 - l)) 0xffffffff AND 0xffffffff = mask_word (unat l)"
proof -
  have "unat (32 - l) = 32 - unat l" using assms by (simp add: unat_sub)
  moreover have "w AND 0xffffffff = w" for w :: u32
  proof -
    have "(0xffffffff :: u32) = - 1" by simp
    then show ?thesis by (simp only: and.right_neutral)
  qed
  moreover have "unat l \<noteq> 0" using assms(2) by (simp add: unat_eq_0)
  ultimately show ?thesis by (simp add: mask_word_def)
qed

lemma netmask6_loop_eq:
  assumes "length ws = 4" "i \<le> 4" "\<forall>j<4. i \<le> j \<longrightarrow> ws ! j = 0" "unat l \<le> 32 * (4 - i)"
    and "netmask6_loop i l ws = (i', l', ws')"
  shows "(if i' < 4 \<and> l' \<noteq> 0
      then ws'[i' := push_bit (unat (32 - l')) 0xffffffff AND 0xffffffff] else ws') =
    take i ws @ map (\<lambda>j. mask_word (unat l - 32 * j)) [0..<4 - i]"
  using assms
proof (induction i l ws rule: netmask6_loop.induct)
  case (1 i l ws)
  show ?case
  proof (cases "i < 4 \<and> 32 \<le> l")
    case True
    then have u: "unat (l - 32) = unat l - 32" and l: "32 \<le> unat l"
      by (simp_all add: unat_sub word_le_nat_alt)
    have "(if i' < 4 \<and> l' \<noteq> 0
        then ws'[i' := push_bit (unat (32 - l')) 0xffffffff AND 0xffffffff] else ws') =
      take (i + 1) (ws[i := 0xffffffff]) @ map (\<lambda>j. mask_word (unat (l - 32) - 32 * j)) [0..<4 - (i + 1)]"
      using True 1(2-) u l by (intro 1(1) [OF True]) (auto simp: netmask6_loop.simps [of i])
    also have "\<dots> = take i ws @ mask_word (unat l) # map (\<lambda>j. mask_word (unat l - 32 * Suc j)) [0..<3 - i]"
      using True 1(2) l by (simp add: u take_Suc_conv_app_nth diff_diff_eq)
    also have "\<dots> = take i ws @ map (\<lambda>j. mask_word (unat l - 32 * j)) [0..<Suc (3 - i)]"
      by (simp add: upt_conv_Cons map_Suc_upt [symmetric] del: upt_Suc)
    also have "Suc (3 - i) = 4 - i" using True by arith
    finally show ?thesis .
  next
    case False
    then have r: "i' = i" "l' = l" "ws' = ws" using 1(6) by (auto simp: netmask6_loop.simps [of i])
    let ?m = "\<lambda>j. mask_word (unat l - 32 * j)"
    have "ws ! j = ?m (j - i)" if "i < j" "j < 4" for j
    proof -
      have "unat l < 32" using False that by (simp add: word_le_nat_alt)
      then show ?thesis using that 1(4) by simp
    qed
    moreover have "i < 4 \<Longrightarrow> l \<noteq> 0 \<Longrightarrow> push_bit (unat (32 - l)) 0xffffffff AND 0xffffffff = ?m 0"
      using False netmask_word [of l] by simp
    ultimately show ?thesis
      using 1(2-4) unfolding r
      by (intro nth_equalityI) (auto simp: nth_append nth_list_update)
  qed
qed

lemma masklen_valid_iff:
  "masklen_valid af l = 0 \<longleftrightarrow> af \<noteq> AF_OTHER \<and> unat l \<le> 32 * word_count af"
  "masklen_valid af l = - 1 \<longleftrightarrow> masklen_valid af l \<noteq> 0"
  by (cases af; simp add: masklen_valid_def word_count_def word_le_nat_alt)+

definition mask_words :: "addr_family \<Rightarrow> nat \<Rightarrow> u32 list" where
  "mask_words af l = map (\<lambda>j. mask_word (l - 32 * j)) [0..<word_count af]"

lemma length_mask_words [simp]: "length (mask_words af l) = word_count af"
  by (simp add: mask_words_def)

lemma addr_netmask_eq:
  "masklen_valid af l \<noteq> 0 \<Longrightarrow> addr_netmask af l = None"
  "masklen_valid af l = 0 \<Longrightarrow> \<exists>n. addr_netmask af l = Some n \<and> xa_af n = af \<and> xaddr_wf n \<and>
     xaddr_words n = mask_words af (unat l)"
proof -
  show "masklen_valid af l \<noteq> 0 \<Longrightarrow> addr_netmask af l = None" by (simp add: addr_netmask_def)
  assume v: "masklen_valid af l = 0"
  show "\<exists>n. addr_netmask af l = Some n \<and> xa_af n = af \<and> xaddr_wf n \<and> xaddr_words n = mask_words af (unat l)"
  proof (cases af)
    case AF_INET
    then have "l \<le> 32" using v by (simp add: masklen_valid_def split: if_splits)
    with AF_INET v netmask_word [of l] show ?thesis
      by (cases "l = 0") (simp_all add: addr_netmask_def xaddr_words_def mask_words_def
          word_count_def xaddr_zero_def xaddr_wf_def Let_def)
  next
    case AF_INET6
    obtain i l1 ws where r: "netmask6_loop 0 l [0, 0, 0, 0] = (i, l1, ws)" by (cases "netmask6_loop 0 l [0, 0, 0, 0]")
    have "unat l \<le> 128" using v AF_INET6 by (simp add: masklen_valid_iff word_count_def)
    then have "(if i < 4 \<and> l1 \<noteq> 0 then ws[i := push_bit (unat (32 - l1)) 0xffffffff AND 0xffffffff] else ws) =
        mask_words AF_INET6 (unat l)"
      using netmask6_loop_eq [OF _ _ _ _ r] by (auto simp: mask_words_def word_count_def nth_Cons')
    with AF_INET6 v r show ?thesis
      by (simp add: addr_netmask_def xaddr_zero_def xaddr_words_def xaddr_wf_def word_count_def)
  next
    case AF_OTHER
    with v show ?thesis by (simp add: masklen_valid_def)
  qed
qed

lemma length_xaddr_words: "xaddr_wf a \<Longrightarrow> length (xaddr_words a) = word_count (xa_af a)"
  by (simp add: xaddr_wf_def xaddr_words_def word_count_def)

lemma addr_and_words:
  assumes "xaddr_wf a" "xaddr_wf b" "xa_af a = xa_af b"
  shows "\<exists>c. addr_and a b = Some c \<and> xa_af c = xa_af a \<and> xaddr_wf c \<and> xa_scope_id c = xa_scope_id a \<and>
    xaddr_words c = map2 (AND) (xaddr_words a) (xaddr_words b)"
  using assms by (cases "xa_af a") (auto simp: addr_and_def xaddr_wf_def xaddr_words_def)

lemma addr_or_words:
  assumes "xaddr_wf a" "xaddr_wf b" "xa_af a = xa_af b"
  shows "\<exists>c. addr_or a b = Some c \<and> xa_af c = xa_af a \<and> xaddr_wf c \<and> xa_scope_id c = xa_scope_id a \<and>
    xaddr_words c = map2 (OR) (xaddr_words a) (xaddr_words b)"
  using assms by (cases "xa_af a") (auto simp: addr_or_def xaddr_wf_def xaddr_words_def)

lemma addr_hostmask_words:
  assumes "masklen_valid af l = 0"
  shows "\<exists>n. addr_hostmask af l = Some n \<and> xa_af n = af \<and> xaddr_wf n \<and>
    xaddr_words n = map NOT (mask_words af (unat l))"
proof -
  from addr_netmask_eq(2) [OF assms] obtain m where m: "addr_netmask af l = Some m" "xa_af m = af"
    "xaddr_wf m" "xaddr_words m = mask_words af (unat l)" by blast
  from m(2,3) have "\<exists>n. addr_invert m = Some n \<and> xa_af n = af \<and> xaddr_wf n \<and>
      xaddr_words n = map NOT (xaddr_words m)"
    by (cases af) (auto simp: addr_invert_def xaddr_wf_def xaddr_words_def)
  with m(1,4) show ?thesis by (simp add: addr_hostmask_def)
qed

lemma addr8_diff_None:
  "length xs = length ys \<Longrightarrow> addr8_diff xs ys = None \<longleftrightarrow> xs = ys"
  by (induction xs ys rule: list_induct2) (auto simp: word_uint_eq_iff)

lemma addr8_diff_nonzero: "addr8_diff xs ys = Some d \<Longrightarrow> d \<noteq> 0"
  by (induction xs ys rule: addr8_diff.induct) (auto split: if_splits)

lemma length_POKE_U32' [simp]: "length (POKE_U32 w) = 4"
  by (simp add: POKE_U32_def)

lemma concat_POKE_eq:
  "length ws = length vs \<Longrightarrow> concat (map POKE_U32 ws) = concat (map POKE_U32 vs) \<longleftrightarrow> ws = vs"
  by (induction ws vs rule: list_induct2) (auto, metis PEEK_POKE_U32)

lemma addr_cmp_0:
  assumes "xaddr_wf a" "xaddr_wf b"
  shows "addr_cmp a b = 0 \<longleftrightarrow> xa_af a = xa_af b \<and> xaddr_words a = xaddr_words b \<and>
    (xa_af a = AF_INET6 \<longrightarrow> xa_scope_id a = xa_scope_id b)"
proof (cases "xa_af a = AF_INET6 \<and> xa_af b = AF_INET6")
  case True
  have "length (xaddr_addr8 a) = length (xaddr_addr8 b)"
    using assms by (simp add: xaddr_addr8_def xaddr_wf_def length_concat sum_list_triv o_def)
  then have "addr8_diff (xaddr_addr8 a) (xaddr_addr8 b) = None \<longleftrightarrow> xa_addr32 a = xa_addr32 b"
    using assms by (simp add: addr8_diff_None xaddr_addr8_def concat_POKE_eq xaddr_wf_def)
  with True show ?thesis
    by (auto simp: addr_cmp_def xaddr_words_def split: option.splits dest: addr8_diff_nonzero)
next
  case False
  with assms show ?thesis
    by (cases "xa_af a") (auto simp: addr_cmp_def xaddr_words_def xaddr_wf_def)
qed

lemma addr_is_all0s_iff:
  "xaddr_wf a \<Longrightarrow> addr_is_all0s a = 0 \<longleftrightarrow> (\<forall>w\<in>set (xaddr_words a). w = 0)"
  by (cases "xa_af a") (auto simp: addr_is_all0s_def xaddr_words_def xaddr_wf_def)

text \<open>Lists of words as strings of bits.\<close>

lemma addr_bit_eqI:
  assumes "length ws = n" "length vs = n"
  shows "ws = vs \<longleftrightarrow> (\<forall>i<32 * n. addr_bit ws i = addr_bit vs i)"
proof (rule iffI)
  assume b: "\<forall>i<32 * n. addr_bit ws i = addr_bit vs i"
  show "ws = vs"
  proof (intro nth_equalityI)
    fix j assume "j < length ws"
    show "ws ! j = vs ! j"
    proof (rule bit_word_eqI)
      fix k assume "k < LENGTH(32)"
      then have k: "k < 32" by simp
      define q where "q = 31 - k"
      have q: "k = 31 - q" "q < 32" using k by (simp_all add: q_def)
      then have "(32 * j + q) div 32 = j" "(32 * j + q) mod 32 = q" "32 * j + q < 32 * n"
        using \<open>j < length ws\<close> assms by simp_all
      with b [rule_format, of "32 * j + q"] q(1) show "bit (ws ! j) k = bit (vs ! j) k"
        by (simp add: addr_bit_def)
    qed
  qed (use assms in simp)
qed simp

lemma addr_bit_mask_words:
  assumes "i < 32 * word_count af"
  shows "addr_bit (mask_words af l) i \<longleftrightarrow> i < l"
proof -
  have "i div 32 < word_count af" using assms by (simp add: less_mult_imp_div_less mult.commute)
  moreover have "32 - (l - 32 * (i div 32)) \<le> 31 - i mod 32 \<longleftrightarrow> i < l"
  proof -
    have "i = 32 * (i div 32) + i mod 32" "i mod 32 < 32" by simp_all
    then show ?thesis by arith
  qed
  moreover have "31 - i mod 32 < 32" by simp
  ultimately show ?thesis by (simp add: addr_bit_def mask_words_def bit_mask_word)
qed

lemma addr_bit_map2:
  assumes "i < 32 * n" "length ws = n" "length vs = n"
  shows "addr_bit (map2 (AND) ws vs) i \<longleftrightarrow> addr_bit ws i \<and> addr_bit vs i"
    and "addr_bit (map2 (OR) ws vs) i \<longleftrightarrow> addr_bit ws i \<or> addr_bit vs i"
    and "addr_bit (map NOT ws) i \<longleftrightarrow> \<not> addr_bit ws i"
proof -
  have "i div 32 < n" "31 - i mod 32 < 32" using assms(1) by (auto simp: less_mult_imp_div_less mult.commute)
  then show "addr_bit (map2 (AND) ws vs) i \<longleftrightarrow> addr_bit ws i \<and> addr_bit vs i"
    "addr_bit (map2 (OR) ws vs) i \<longleftrightarrow> addr_bit ws i \<or> addr_bit vs i"
    "addr_bit (map NOT ws) i \<longleftrightarrow> \<not> addr_bit ws i"
    using assms(2,3) by (auto simp: addr_bit_def bit_simps)
qed

text \<open>The host part of an address under a mask.\<close>

lemma addr_host_is_all0s_iff:
  assumes "xaddr_wf a"
  shows "addr_host_is_all0s a l = 0 \<longleftrightarrow>
    masklen_valid (xa_af a) l = 0 \<and>
    (\<forall>i<32 * word_count (xa_af a). unat l \<le> i \<longrightarrow> \<not> addr_bit (xaddr_words a) i)"
proof (cases "masklen_valid (xa_af a) l = 0")
  case True
  let ?n = "word_count (xa_af a)"
  let ?h = "map2 (AND) (xaddr_words a) (map NOT (mask_words (xa_af a) (unat l)))"
  from addr_hostmask_words [OF True] obtain m where m: "addr_hostmask (xa_af a) l = Some m"
    "xa_af m = xa_af a" "xaddr_wf m" "xaddr_words m = map NOT (mask_words (xa_af a) (unat l))" by blast
  from addr_and_words [OF assms m(3) m(2) [symmetric]] m(4) obtain c where
    c: "addr_and a m = Some c" "xaddr_wf c" "xaddr_words c = ?h" by auto
  have len: "length (xaddr_words a) = ?n" using assms by (rule length_xaddr_words)
  have "addr_host_is_all0s a l = 0 \<longleftrightarrow> (\<forall>w\<in>set ?h. w = 0)"
    using m(1) c by (simp add: addr_host_is_all0s_def addr_is_all0s_iff)
  also have "\<dots> \<longleftrightarrow> ?h = replicate ?n 0"
    using len by (auto simp: list_eq_iff_nth_eq in_set_conv_nth all_set_conv_all_nth)
  also have "\<dots> \<longleftrightarrow> (\<forall>i<32 * ?n. addr_bit ?h i = addr_bit (replicate ?n 0) i)"
    using len by (intro addr_bit_eqI) auto
  also have "\<dots> \<longleftrightarrow> (\<forall>i<32 * ?n. unat l \<le> i \<longrightarrow> \<not> addr_bit (xaddr_words a) i)"
  proof -
    have "addr_bit (replicate ?n 0) i = False" if "i < 32 * ?n" for i
      using that by (simp add: addr_bit_def less_mult_imp_div_less mult.commute)
    then show ?thesis
      using len by (auto simp: addr_bit_map2 addr_bit_mask_words not_less)
  qed
  finally show ?thesis using True by simp
next
  case False
  then have "addr_hostmask (xa_af a) l = None" using addr_netmask_eq(1) by (simp add: addr_hostmask_def)
  with False show ?thesis by (simp add: addr_host_is_all0s_def)
qed

lemma addr_netmatch_iff:
  assumes "xaddr_wf host" "xaddr_wf net" "addr_host_is_all0s net l = 0"
  shows "addr_netmatch host net l = 0 \<longleftrightarrow>
    xa_af host = xa_af net \<and>
    (\<forall>i<unat l. addr_bit (xaddr_words host) i = addr_bit (xaddr_words net) i) \<and>
    (xa_af net = AF_INET6 \<longrightarrow> xa_scope_id host = xa_scope_id net)"
proof (cases "xa_af host = xa_af net")
  case same: True
  let ?n = "word_count (xa_af net)"
  let ?h = "map2 (AND) (xaddr_words host) (mask_words (xa_af net) (unat l))"
  have v: "masklen_valid (xa_af net) l = 0"
    and z: "\<forall>i<32 * ?n. unat l \<le> i \<longrightarrow> \<not> addr_bit (xaddr_words net) i"
    using assms(2,3) by (simp_all add: addr_host_is_all0s_iff)
  from addr_netmask_eq(2) [OF v] obtain m where m: "addr_netmask (xa_af net) l = Some m"
    "xa_af m = xa_af net" "xaddr_wf m" "xaddr_words m = mask_words (xa_af net) (unat l)" by blast
  from addr_and_words [OF assms(1) m(3)] same m(2,4) obtain c where c: "addr_and host m = Some c"
    "xaddr_wf c" "xa_af c = xa_af net" "xa_scope_id c = xa_scope_id host" "xaddr_words c = ?h" by auto
  have len: "length (xaddr_words host) = ?n" "length (xaddr_words net) = ?n"
    using assms(1,2) same by (simp_all add: length_xaddr_words)
  have le: "unat l \<le> 32 * ?n" using v by (simp add: masklen_valid_iff)
  have "?h = xaddr_words net \<longleftrightarrow> (\<forall>i<32 * ?n. addr_bit ?h i = addr_bit (xaddr_words net) i)"
    using len by (intro addr_bit_eqI) auto
  also have "\<dots> \<longleftrightarrow> (\<forall>i<unat l. addr_bit (xaddr_words host) i = addr_bit (xaddr_words net) i)"
    using len z le
    by (simp add: addr_bit_map2 addr_bit_mask_words) (metis less_le_trans not_le)
  finally have eq: "?h = xaddr_words net \<longleftrightarrow>
    (\<forall>i<unat l. addr_bit (xaddr_words host) i = addr_bit (xaddr_words net) i)" .
  have "addr_netmatch host net l = addr_cmp c net" using same m(1) c(1) by (simp add: addr_netmatch_def)
  then show ?thesis using addr_cmp_0 [OF c(2) assms(2)] c(3-5) eq same by simp
qed (simp add: addr_netmatch_def)

lemma addr_host_to_all1s_ok:
  assumes "xaddr_wf a" "masklen_valid (xa_af a) l = 0"
  shows "\<exists>b. addr_host_to_all1s a l = Some b \<and> xa_af b = xa_af a \<and> xaddr_wf b \<and>
    (\<forall>i<32 * word_count (xa_af a).
       addr_bit (xaddr_words b) i \<longleftrightarrow> unat l \<le> i \<or> addr_bit (xaddr_words a) i)"
proof -
  from addr_hostmask_words [OF assms(2)] obtain m where m: "addr_hostmask (xa_af a) l = Some m"
    "xa_af m = xa_af a" "xaddr_wf m" "xaddr_words m = map NOT (mask_words (xa_af a) (unat l))" by blast
  from addr_or_words [OF assms(1) m(3) m(2) [symmetric]] m(4) obtain c where
    c: "addr_or a m = Some c" "xa_af c = xa_af a" "xaddr_wf c"
      "xaddr_words c = map2 (OR) (xaddr_words a) (map NOT (mask_words (xa_af a) (unat l)))" by auto
  with m(1) length_xaddr_words [OF assms(1)] show ?thesis
    by (auto simp: addr_host_to_all1s_def addr_bit_map2 addr_bit_mask_words not_less)
qed

text \<open>Socket addresses and back; the next address.\<close>

lemma addr_sa_round_trip:
  assumes "xaddr_wf a" "xa_af a = AF_INET \<Longrightarrow> tl (xa_addr32 a) = [0, 0, 0] \<and> xa_scope_id a = 0"
    and "addr_xaddr_to_sa a len port = Some (sa, slen)"
  shows "addr_sa_to_xaddr sa slen = Some a"
proof (cases a)
  case (fields af ws sc)
  with assms show ?thesis
    by (cases af; cases ws) (auto simp: addr_xaddr_to_sa_def addr_sa_to_xaddr_def xaddr_zero_def xaddr_wf_def
        split: if_splits)
qed

fun words_value :: "u32 list \<Rightarrow> nat" where
  "words_value [] = 0"
| "words_value (w # ws) = unat w * 2 ^ (32 * length ws) + words_value ws"

lemma words_value_less: "words_value ws < 2 ^ (32 * length ws)"
proof (induction ws)
  case (Cons w ws)
  have "unat w * 2 ^ (32 * length ws) + words_value ws < (unat w + 1) * 2 ^ (32 * length ws)"
    using Cons by simp
  also have "\<dots> \<le> 2 ^ 32 * 2 ^ (32 * length ws)"
    using unat_less_2p [of w] by (intro mult_right_mono) simp_all
  also have "\<dots> = 2 ^ (32 * length (w # ws))" by (simp add: power_add)
  finally show ?case by simp
qed simp

lemma words_value_snoc: "words_value (ws @ [w]) = words_value ws * 2 ^ 32 + unat w"
  by (induction ws) (simp_all add: power_add algebra_simps)

lemma length_increment6 [simp]: "length (increment6 k ws) = length ws"
  by (induction k ws rule: increment6.induct) (auto simp: Let_def)

lemma increment6_append: "k \<le> length ws \<Longrightarrow> increment6 k (ws @ vs) = increment6 k ws @ vs"
  by (induction k ws rule: increment6.induct) (auto simp: Let_def nth_append list_update_append)

lemma increment6_value:
  "words_value (increment6 (length ws) ws) = (words_value ws + 1) mod 2 ^ (32 * length ws)"
proof (induction ws rule: rev_induct)
  case (snoc w ws)
  have e: "(2 :: nat) ^ (32 * length (ws @ [w])) = 2 ^ (32 * length ws) * 2 ^ 32"
    by (simp add: power_add)
  show ?case
  proof (cases "w + 1 = 0")
    case True
    then have "w = - 1" by (simp add: eq_neg_iff_add_eq_0)
    then have w: "unat w + 1 = 2 ^ 32" by (simp add: unsigned_minus_1_eq_mask mask_eq_exp_minus_1)
    have "words_value (increment6 (length (ws @ [w])) (ws @ [w])) =
        ((words_value ws + 1) mod 2 ^ (32 * length ws)) * 2 ^ 32"
      using True snoc by (simp add: Let_def increment6_append words_value_snoc)
    also have "\<dots> = ((words_value ws + 1) * 2 ^ 32) mod (2 ^ (32 * length ws) * 2 ^ 32)"
      by (rule mult_mod_left)
    also have "(words_value ws + 1) * 2 ^ 32 = words_value (ws @ [w]) + 1"
      using w by (simp add: words_value_snoc)
    finally show ?thesis unfolding e .
  next
    case False
    then have "unat (w + 1) = unat w + 1" using unatSuc [of w] by (simp add: add.commute)
    then have "words_value (increment6 (length (ws @ [w])) (ws @ [w])) = words_value (ws @ [w]) + 1"
      using False by (simp add: Let_def words_value_snoc)
    moreover have "words_value (ws @ [w + 1]) < 2 ^ (32 * length (ws @ [w]))"
      using words_value_less [of "ws @ [w + 1]"] by simp
    ultimately show ?thesis using False by (simp add: Let_def)
  qed
qed simp

section \<open>Networks and lists of networks\<close>

text \<open>
  What the code relies on of \<^verbatim>\<open>getaddrinfo\<close>: an IPv6 address has the sixteen bytes of
  \<^verbatim>\<open>struct in6_addr\<close>.
\<close>

definition resolver_ok :: "resolver \<Rightarrow> bool" where
  "resolver_ok gai \<longleftrightarrow> (\<forall>s p ws sc len. gai s = GAI_addr (SA_in6 p ws sc) len \<longrightarrow> length ws = 4)"

lemma addr_pton_wf:
  "resolver_ok gai \<Longrightarrow> addr_pton gai p = Some a \<Longrightarrow> xaddr_wf a"
  by (fastforce simp: addr_pton_def addr_sa_to_xaddr_def resolver_ok_def xaddr_wf_def xaddr_zero_def
      split: option.splits gai_result.splits sockaddr.splits if_splits)

lemma addr_pton_cidr_ok:
  assumes "resolver_ok gai" "addr_pton_cidr gai p = Inr (n, l)"
  shows "xaddr_wf n" "addr_host_is_all0s n l = 0"
  using assms addr_pton_wf [OF assms(1)]
  by (auto simp: addr_pton_cidr_def Let_def split: option.splits if_splits prod.splits)

lemma addr_pton_cidr_error: "addr_pton_cidr gai p = Inl r \<Longrightarrow> r = - 1 \<or> r = - 2"
  by (auto simp: addr_pton_cidr_def Let_def split: option.splits if_splits prod.splits)

lemma addr_pton_cidr_slash:
  assumes "CHR ''/'' \<notin> set h" "length (h @ CHR ''/'' # ds) < 64"
    and "ds \<noteq> []" "\<forall>c\<in>set ds. isdigit c" "dec_value 0 ds \<le> 128"
  shows "addr_pton_cidr gai (Some (h @ CHR ''/'' # ds)) =
    (case addr_pton gai (Some h) of
       None \<Rightarrow> Inl (- 1)
     | Some a \<Rightarrow>
         if addr_host_is_all0s a (of_nat (dec_value 0 ds)) = 0 then Inr (a, of_nat (dec_value 0 ds))
         else Inl (- 2))"
proof -
  have "strchr (h @ CHR ''/'' # ds) CHR ''/'' = Some (h, ds)" using assms(1) by (simp add: strchr_Some)
  moreover have "strtoul10 ds = (of_nat (dec_value 0 ds), [])"
    using strtoul10_digits [of ds "[]"] assms(3-5) by (simp add: min_def)
  moreover have "\<not> (of_nat (dec_value 0 ds) :: u64) > 128"
    using assms(5) unat_of_nat_small [of "dec_value 0 ds", where 'a = 64] by (simp add: word_less_nat_alt)
  moreover have "(ucast (of_nat (dec_value 0 ds) :: u64) :: u32) = of_nat (dec_value 0 ds)"
    by (simp add: ucast_of_nat_down)
  moreover have "isdigit (hd ds)" using assms(3,4) by (cases ds) auto
  moreover have "masklen_valid (xa_af a) l \<noteq> 0 \<Longrightarrow> addr_host_is_all0s a l \<noteq> 0" for a l
    using addr_netmask_eq(1) [of "xa_af a" l] by (simp add: addr_host_is_all0s_def addr_hostmask_def)
  ultimately show ?thesis
    using assms(2,3)
    by (auto simp: addr_pton_cidr_def strlcpy_eq Let_def masklen_valid_iff(2) split: option.splits)
qed

text \<open>One entry of a list: whether it is malformed, and whether an address is in it.\<close>

definition addr_entry_bad :: "resolver \<Rightarrow> string \<Rightarrow> bool" where
  "addr_entry_bad gai e \<longleftrightarrow> entry_pattern False e = [] \<or> addr_pton_cidr gai (Some (entry_pattern False e)) = Inl (- 2)"

definition addr_entry_hit :: "resolver \<Rightarrow> string \<Rightarrow> xaddr \<Rightarrow> string \<Rightarrow> bool" where
  "addr_entry_hit gai a x e =
     (case addr_pton_cidr gai (Some (entry_pattern False e)) of
        Inr (net, l) \<Rightarrow> addr_netmatch x net l = 0
      | Inl _ \<Rightarrow> a \<in> glob_lang (entry_pattern False e))"

definition addr_list_verdict :: "resolver \<Rightarrow> string \<Rightarrow> xaddr \<Rightarrow> string list \<Rightarrow> int \<Rightarrow> int" where
  "addr_list_verdict gai a x es ret =
     (case find (\<lambda>e. addr_entry_bad gai e \<or> entry_negated e \<and> addr_entry_hit gai a x e) es of
        Some e \<Rightarrow> if addr_entry_bad gai e then - 2 else - 1
      | None \<Rightarrow> if \<exists>e\<in>set es. addr_entry_hit gai a x e then 1 else ret)"

lemma addr_match_loop_tokens:
  "\<forall>e\<in>set es. CHR '','' \<notin> set e \<Longrightarrow>
     addr_match_loop gai (Some (a, x)) (tokens CHR '','' es) ret = addr_list_verdict gai a x es ret"
proof (induction es arbitrary: ret)
  case Nil
  then show ?case by (subst addr_match_loop.simps) (simp add: strsep_tokens addr_list_verdict_def)
next
  case (Cons e es)
  let ?cp = "entry_pattern False e"
  have cp: "(if entry_negated e then tl e else e) = ?cp" "(e \<noteq> [] \<and> hd e = CHR ''!'') = entry_negated e"
    by (simp_all add: entry_pattern_def entry_negated_def)
  have st: "strsep (tokens CHR '','' (e # es)) '','' = (Some e, tokens CHR '','' es)"
    using Cons.prems by (simp add: strsep_tokens)
  have "addr_match_loop gai (Some (a, x)) (tokens CHR '','' (e # es)) ret =
    (if addr_entry_bad gai e then - 2
     else if addr_entry_hit gai a x e
     then (if entry_negated e then - 1 else addr_match_loop gai (Some (a, x)) (tokens CHR '','' es) 1)
     else addr_match_loop gai (Some (a, x)) (tokens CHR '','' es) ret)"
    unfolding addr_match_loop.simps [of gai "Some (a, x)" "tokens CHR '','' (e # es)"] st prod.case
      option.case Let_def cp addr_entry_bad_def addr_entry_hit_def
    by (cases "addr_pton_cidr gai (Some ?cp)") (auto simp: match_pattern_glob dest: addr_pton_cidr_error)
  with Cons show ?case
    by (auto simp: addr_list_verdict_def split: option.splits)
qed

text \<open>
  The CIDR list accepts an address only if every entry was parsed and one of them has it; an
  entry with characters that are not allowed in a list marks an error, which a later match
  overrides.
\<close>

lemma addr_match_cidr_loop_step:
  assumes "\<forall>e\<in>set (e # es). CHR '','' \<notin> set e"
  shows "addr_match_cidr_loop gai (Some x) (tokens CHR '','' (e # es)) ret =
    (if e = [] \<or> INET6_ADDRSTRLEN + 3 < length e then - 1
     else
       case addr_pton_cidr gai (Some e) of
         Inl _ \<Rightarrow> - 1
       | Inr (net, l) \<Rightarrow>
           addr_match_cidr_loop gai (Some x) (tokens CHR '','' es)
             (if addr_netmatch x net l = 0 then 1
              else if \<not> set e \<subseteq> set VALID_CIDR_CHARS then - 1 else ret))"
proof -
  have st: "strsep (tokens CHR '','' (e # es)) '','' = (Some e, tokens CHR '','' es)"
    using assms by (simp add: strsep_tokens)
  show ?thesis
    unfolding addr_match_cidr_loop.simps [of gai "Some x" "tokens CHR '','' (e # es)"] st prod.case
      option.case Let_def by simp
qed

lemma addr_match_cidr_loop_Nil: "addr_match_cidr_loop gai (Some x) (tokens CHR '','' []) ret = ret"
  by (subst addr_match_cidr_loop.simps) (simp add: strsep_tokens)



text \<open>
  The verdict of a CIDR list. An entry can end the loop; otherwise an entry that has the address sets
  the result to 1, another one with forbidden characters to \<open>-1\<close>, and the last of them stays.
\<close>

definition cidr_stops :: "resolver \<Rightarrow> string \<Rightarrow> bool" where
  "cidr_stops gai e \<longleftrightarrow> e = [] \<or> INET6_ADDRSTRLEN + 3 < length e \<or> (\<exists>r. addr_pton_cidr gai (Some e) = Inl r)"

definition cidr_has :: "resolver \<Rightarrow> xaddr \<Rightarrow> string \<Rightarrow> bool" where
  "cidr_has gai x e \<longleftrightarrow> (\<exists>net l. addr_pton_cidr gai (Some e) = Inr (net, l) \<and> addr_netmatch x net l = 0)"

definition cidr_junk :: "string \<Rightarrow> bool" where
  "cidr_junk e \<longleftrightarrow> \<not> set e \<subseteq> set VALID_CIDR_CHARS"

lemma addr_match_cidr_loop_verdict:
  assumes "\<forall>e\<in>set es. CHR '','' \<notin> set e"
  shows "addr_match_cidr_loop gai (Some x) (tokens CHR '','' es) ret =
    (if \<exists>e\<in>set es. cidr_stops gai e then - 1
     else case find (\<lambda>e. cidr_has gai x e \<or> cidr_junk e) (rev es) of
       None \<Rightarrow> ret | Some e \<Rightarrow> if cidr_has gai x e then 1 else - 1)"
  using assms
proof (induction es arbitrary: ret)
  case Nil
  then show ?case by (simp add: addr_match_cidr_loop_Nil)
next
  case (Cons e es)
  have f: "find P (xs @ [e]) = (case find P xs of None \<Rightarrow> if P e then Some e else None | Some y \<Rightarrow> Some y)" for P xs
    by (induction xs) auto
  show ?case
  proof (cases "cidr_stops gai e")
    case True
    then show ?thesis unfolding addr_match_cidr_loop_step [OF Cons.prems] by (auto simp: cidr_stops_def)
  next
    case False
    then obtain net l where n: "addr_pton_cidr gai (Some e) = Inr (net, l)" "e \<noteq> []" "\<not> INET6_ADDRSTRLEN + 3 < length e"
      by (cases "addr_pton_cidr gai (Some e)") (auto simp: cidr_stops_def)
    define r where "r = (if cidr_has gai x e then 1 else if cidr_junk e then - 1 else ret)"
    have "addr_match_cidr_loop gai (Some x) (tokens CHR '','' (e # es)) ret = addr_match_cidr_loop gai (Some x) (tokens CHR '','' es) r"
      unfolding addr_match_cidr_loop_step [OF Cons.prems] using n by (simp add: cidr_has_def cidr_junk_def r_def)
    also have "\<dots> = (if \<exists>e\<in>set es. cidr_stops gai e then - 1
       else case find (\<lambda>e. cidr_has gai x e \<or> cidr_junk e) (rev es) of
         None \<Rightarrow> r | Some e \<Rightarrow> if cidr_has gai x e then 1 else - 1)"
      using Cons by simp
    finally show ?thesis using False by (simp add: f r_def split: option.split)
  qed
qed

section \<open>Properties\<close>

text \<open>Addresses for the examples: a system that knows four addresses.\<close>

definition ex_gai :: resolver where
  "ex_gai s =
     (if s = ''10.0.0.0'' then GAI_addr (SA_in 0 0x0a000000) 16
      else if s = ''10.1.2.3'' then GAI_addr (SA_in 0 0x0a010203) 16
      else if s = ''10.9.9.9'' then GAI_addr (SA_in 0 0x0a090909) 16
      else if s = ''fe80::1%1'' then GAI_addr (SA_in6 0 [0xfe800000, 0, 0, 1] 1) 28
      else GAI_error)"

lemma ex_gai_ok: "resolver_ok ex_gai"
  by (simp add: resolver_ok_def ex_gai_def)

lemma ex_gai_pton:
  "addr_pton ex_gai (Some ''10.1.2.3'') = Some \<lparr>xa_af = AF_INET, xa_addr32 = [0x0a010203, 0, 0, 0], xa_scope_id = 0\<rparr>"
  "addr_pton_cidr ex_gai (Some ''10.0.0.0/8'') =
     Inr (\<lparr>xa_af = AF_INET, xa_addr32 = [0x0a000000, 0, 0, 0], xa_scope_id = 0\<rparr>, 8)"
  "addr_pton_cidr ex_gai (Some ''fe80::1%1'') =
     Inr (\<lparr>xa_af = AF_INET6, xa_addr32 = [0xfe800000, 0, 0, 1], xa_scope_id = 1\<rparr>, 128)"
proof -
  show "addr_pton ex_gai (Some ''10.1.2.3'') = Some \<lparr>xa_af = AF_INET, xa_addr32 = [0x0a010203, 0, 0, 0], xa_scope_id = 0\<rparr>"
    by (simp add: addr_pton_def ex_gai_def addr_sa_to_xaddr_def sizeof_sockaddr_in_def xaddr_zero_def)
  show "addr_pton_cidr ex_gai (Some ''10.0.0.0/8'') =
     Inr (\<lparr>xa_af = AF_INET, xa_addr32 = [0x0a000000, 0, 0, 0], xa_scope_id = 0\<rparr>, 8)"
    using addr_pton_cidr_slash [of "''10.0.0.0''" "''8''" ex_gai]
    by (simp add: isdigit_def addr_pton_def ex_gai_def addr_sa_to_xaddr_def sizeof_sockaddr_in_def xaddr_zero_def
        addr_host_is_all0s_def addr_hostmask_def addr_netmask_def masklen_valid_def addr_invert_def addr_and_def
        addr_is_all0s_def Let_def)
  show "addr_pton_cidr ex_gai (Some ''fe80::1%1'') =
     Inr (\<lparr>xa_af = AF_INET6, xa_addr32 = [0xfe800000, 0, 0, 1], xa_scope_id = 1\<rparr>, 128)"
    by (simp add: addr_pton_cidr_def strlcpy_eq strchr_def addr_pton_def ex_gai_def addr_sa_to_xaddr_def
        sizeof_sockaddr_in6_def xaddr_zero_def addr_unicast_masklen_def masklen_valid_def addr_host_is_all0s_def
        addr_hostmask_def addr_netmask_def addr_invert_def addr_and_def addr_is_all0s_def Let_def
        netmask6_loop.simps)
qed

text \<open>
  C18: an address is matched by a CIDR network exactly if both are of the same family, their
  leading bits agree up to the mask length, and for IPv6 the interface scopes are equal.
\<close>

theorem addr_netmatch_spec:
  assumes "resolver_ok gai" "addr_pton gai (Some a) = Some host" "addr_pton_cidr gai (Some cp) = Inr (net, l)"
  shows "addr_netmatch host net l = 0 \<longleftrightarrow>
    xa_af host = xa_af net \<and>
    (\<forall>i<unat l. addr_bit (xaddr_words host) i = addr_bit (xaddr_words net) i) \<and>
    (xa_af net = AF_INET6 \<longrightarrow> xa_scope_id host = xa_scope_id net)"
  using addr_netmatch_iff addr_pton_wf [OF assms(1,2)] addr_pton_cidr_ok [OF assms(1,3)] by blast

theorem addr_netmatch_spec_witness:
  "addr_netmatch \<lparr>xa_af = AF_INET, xa_addr32 = [0x0a010203, 0, 0, 0], xa_scope_id = 0\<rparr>
     \<lparr>xa_af = AF_INET, xa_addr32 = [0x0a000000, 0, 0, 0], xa_scope_id = 0\<rparr> 8 = 0"
proof -
  have "addr_bit [0x0a010203] i = addr_bit [0x0a000000] i" if "i < 8" for i
  proof -
    have "i \<in> {0, 1, 2, 3, 4, 5, 6, 7}" using that by auto
    then show ?thesis by (auto simp: addr_bit_def)
  qed
  then show ?thesis
    using addr_netmatch_spec [OF ex_gai_ok ex_gai_pton(1,2)] by (simp add: xaddr_words_def)
qed

text \<open>
  C28: matching an address against a list stops at the first entry that is malformed (result
  \<open>-2\<close>) or negated and matching (result \<open>-1\<close>); if there is none, the address is accepted
  exactly if some entry has it, as a network or as a wildcard.
\<close>

theorem addr_match_list_spec:
  assumes "addr_pton gai (Some a) = Some x" "am (of_nat (length list + 1)) \<noteq> NULL"
  shows "addr_match_list gai am (Some a) list =
    (case find (\<lambda>e. addr_entry_bad gai e \<or> entry_negated e \<and> addr_entry_hit gai a x e)
        (split_on CHR '','' list) of
       Some e \<Rightarrow> if addr_entry_bad gai e then - 2 else - 1
     | None \<Rightarrow> if \<exists>e\<in>set (split_on CHR '','' list). addr_entry_hit gai a x e then 1 else 0)"
  using assms addr_match_loop_tokens [OF split_on_items, where ret = 0]
  by (simp add: addr_match_list_def tokens_def addr_list_verdict_def)

lemma ex_netmatch:
  "addr_netmatch \<lparr>xa_af = AF_INET, xa_addr32 = [0x0a010203, 0, 0, 0], xa_scope_id = 0\<rparr>
     \<lparr>xa_af = AF_INET, xa_addr32 = [0x0a000000, 0, 0, 0], xa_scope_id = 0\<rparr> 8 = 0"
  by (simp add: addr_netmatch_def addr_netmask_def masklen_valid_def xaddr_zero_def addr_and_def addr_cmp_def Let_def)

theorem addr_match_list_spec_witness:
  "addr_match_list ex_gai (\<lambda>_. 1) (Some ''10.1.2.3'') ''10.0.0.0/8'' = 1 \<and>
   addr_match_list ex_gai (\<lambda>_. 1) (Some ''10.1.2.3'') ''!10.0.0.0/8'' = - 1"
  using addr_match_list_spec [OF ex_gai_pton(1), of "\<lambda>_. 1" "''10.0.0.0/8''"]
    addr_match_list_spec [OF ex_gai_pton(1), of "\<lambda>_. 1" "''!10.0.0.0/8''"] ex_gai_pton(2) ex_netmatch
  by (simp add: addr_entry_bad_def addr_entry_hit_def entry_pattern_def entry_negated_def)



text \<open>
  C33: the verdict of a CIDR list, for every list, address and resolver. An entry that is empty, too
  long or no network makes the verdict an error. Otherwise the last entry decides that has the
  address or has characters that the code means to keep away from the resolver: a match if it has the
  address, an error if not. So the error of an entry with forbidden characters is forgotten as
  soon as a later entry has the address.
\<close>

theorem addr_match_cidr_list_override:
  assumes "addr_pton gai (Some a) = Some x" "am (of_nat (length list + 1)) \<noteq> NULL"
  shows "addr_match_cidr_list gai am (Some a) list =
    (if \<exists>e\<in>set (split_on CHR '','' list). cidr_stops gai e then - 1
     else case find (\<lambda>e. cidr_has gai x e \<or> cidr_junk e) (rev (split_on CHR '','' list)) of
       None \<Rightarrow> 0 | Some e \<Rightarrow> if cidr_has gai x e then 1 else - 1)"
  using assms addr_match_cidr_loop_verdict [OF split_on_items, where ret = 0]
  by (simp add: addr_match_cidr_list_def tokens_def)

theorem addr_match_cidr_list_override_witness:
  "cidr_junk ''fe80::1%1'' \<and>
   addr_match_cidr_list ex_gai (\<lambda>_. 1) (Some ''10.1.2.3'') ''fe80::1%1,10.0.0.0/8'' = 1 \<and>
   addr_match_cidr_list ex_gai (\<lambda>_. 1) (Some ''10.1.2.3'') ''10.0.0.0/8,fe80::1%1'' = - 1"
proof -
  have j: "cidr_junk ''fe80::1%1''" by (simp add: cidr_junk_def VALID_CIDR_CHARS_def)
  have s: "\<not> cidr_stops ex_gai ''fe80::1%1''" "\<not> cidr_stops ex_gai ''10.0.0.0/8''"
    using ex_gai_pton by (auto simp: cidr_stops_def INET6_ADDRSTRLEN_def)
  define x where "x = \<lparr>xa_af = AF_INET, xa_addr32 = [0x0a010203, 0, 0, 0], xa_scope_id = 0\<rparr>"
  have h: "cidr_has ex_gai x ''10.0.0.0/8''" "\<not> cidr_has ex_gai x ''fe80::1%1''"
    using ex_gai_pton(2,3) ex_netmatch by (auto simp: cidr_has_def x_def addr_netmatch_def)
  have sp: "split_on CHR '','' ''fe80::1%1,10.0.0.0/8'' = [''fe80::1%1'', ''10.0.0.0/8'']"
    "split_on CHR '','' ''10.0.0.0/8,fe80::1%1'' = [''10.0.0.0/8'', ''fe80::1%1'']" by code_simp+
  have n: "(1 :: ptr) \<noteq> NULL" by simp
  define e f where "e = ''fe80::1%1''" and "f = ''10.0.0.0/8''"
  note ef = e_def [symmetric] f_def [symmetric]
  have "addr_match_cidr_list ex_gai (\<lambda>_. 1) (Some ''10.1.2.3'') ''fe80::1%1,10.0.0.0/8'' = 1"
    using j s h unfolding addr_match_cidr_list_override [OF ex_gai_pton(1) [folded x_def] n] sp unfolding ef by simp
  moreover have "addr_match_cidr_list ex_gai (\<lambda>_. 1) (Some ''10.1.2.3'') ''10.0.0.0/8,fe80::1%1'' = - 1"
    using j s h unfolding addr_match_cidr_list_override [OF ex_gai_pton(1) [folded x_def] n] sp unfolding ef by simp
  ultimately show ?thesis using j by blast
qed

text \<open>
  incrementing an IPv6 address adds one to its 128-bit value, with the carry passing
  through all four words and wrapping around at the end.
\<close>

theorem addr_increment_spec:
  assumes "xa_af a = AF_INET6" "length (xa_addr32 a) = 4"
  shows "words_value (xa_addr32 (addr_increment a)) = (words_value (xa_addr32 a) + 1) mod 2 ^ 128"
  using assms increment6_value [of "xa_addr32 a"] by (simp add: addr_increment_def)

theorem addr_increment_spec_witness:
  "words_value (xa_addr32 (addr_increment
     \<lparr>xa_af = AF_INET6, xa_addr32 = [1, 0xffffffff, 0xffffffff, 0xffffffff], xa_scope_id = 0\<rparr>)) = 2 ^ 97"
  using addr_increment_spec
    [of "\<lparr>xa_af = AF_INET6, xa_addr32 = [1, 0xffffffff, 0xffffffff, 0xffffffff], xa_scope_id = 0\<rparr>"]
  by simp

end
