(* ===== verification/Match_Host.thy ===== *)
theory Match_Host
  imports Addr
begin

text \<open>
  The part of \<^verbatim>\<open>match.c\<close> that decides on users and hosts: it combines the name patterns of
  \<^verbatim>\<open>match.c\<close> with the address lists of \<^verbatim>\<open>addrmatch.c\<close>. A \<^verbatim>\<open>NULL\<close> argument is \<^const>\<open>None\<close>.
\<close>

definition match_host_and_ip :: "resolver \<Rightarrow> allocator \<Rightarrow> string option \<Rightarrow> string option \<Rightarrow> string \<Rightarrow> int" where
  "match_host_and_ip gai am host ipaddr patterns =
     (let mip = addr_match_list gai am ipaddr patterns in
      if mip = - 2 then - 1
      else
        (case (host, ipaddr) of
           (Some h, Some _) \<Rightarrow>
             if mip = - 1 then 0
             else
               let mhost = match_hostname h patterns in
               if mhost = - 1 then 0
               else if mhost = 0 \<and> mip = 0 then 0
               else 1
         | _ \<Rightarrow> 0))"

definition match_user :: "resolver \<Rightarrow> allocator \<Rightarrow> string option \<Rightarrow> string option \<Rightarrow> string option \<Rightarrow> string \<Rightarrow> int" where
  "match_user gai am user host ipaddr pattern =
     (if user = None \<and> host = None \<and> ipaddr = None then
        (case strchr pattern CHR ''@'' of
           Some (_, p) \<Rightarrow> if match_host_and_ip gai am None None p < 0 then - 1 else 0
         | None \<Rightarrow> 0)
      else
        (case user of
           None \<Rightarrow> 0
         | Some u \<Rightarrow>
             (case strchr pattern CHR ''@'' of
                None \<Rightarrow> if match_pattern u pattern then 1 else 0
              | Some (pat, p) \<Rightarrow>
                  if match_pattern u pat then match_host_and_ip gai am host ipaddr p else 0)))"

section \<open>Properties\<close>

lemma addr_match_list_range:
  assumes "am (of_nat (length list + 1)) \<noteq> NULL"
  shows "addr_match_list gai am (Some a) list \<in> {- 2, - 1, 0, 1}"
proof (cases "addr_pton gai (Some a)")
  case (Some x)
  have "addr_list_verdict gai a x es 0 \<in> {- 2, - 1, 0, 1}" for es
    by (simp add: addr_list_verdict_def split: option.split)
  with Some assms addr_match_loop_tokens [of "split_on CHR '','' list" gai a x 0]
    split_on_items [of "CHR '',''" list]
  show ?thesis by (simp add: addr_match_list_def tokens_def)
qed (simp add: addr_match_list_def)

text \<open>
  C26: a pattern \<open>user@hosts\<close> admits a user from a host exactly if the user part matches, no
  negated entry of the host part matches the host name or the address, and some other entry
  matches one of them.
\<close>

theorem match_user_spec:
  assumes "CHR ''@'' \<notin> set pat" "am (of_nat (length hosts + 1)) \<noteq> NULL"
    and "\<forall>e\<in>set (list_entries hosts). length (entry_pattern True e) < SUB_MAX"
  shows "match_user gai am (Some u) (Some h) (Some ip) (pat @ CHR ''@'' # hosts) = 1 \<longleftrightarrow>
    u \<in> glob_lang pat \<and>
    addr_match_list gai am (Some ip) hosts \<in> {0, 1} \<and>
    \<not> list_matches (lowercase h) True True (list_entries hosts) \<and>
    (addr_match_list gai am (Some ip) hosts = 1 \<or> list_matches (lowercase h) True False (list_entries hosts))"
proof -
  have "strchr (pat @ CHR ''@'' # hosts) CHR ''@'' = Some (pat, hosts)"
    using assms(1) by (simp add: strchr_Some)
  moreover have "match_hostname h hosts =
    (if list_matches (lowercase h) True True (list_entries hosts) then - 1
     else if list_matches (lowercase h) True False (list_entries hosts) then 1 else 0)"
    using match_pattern_list_loop_eq [OF assms(3)] by (simp add: match_hostname_def match_pattern_list_def)
  ultimately show ?thesis
    using addr_match_list_range [of am hosts gai ip] assms(2)
    by (auto simp: match_user_def match_host_and_ip_def match_pattern_glob Let_def)
qed

theorem match_user_spec_witness:
  "match_user ex_gai (\<lambda>_. 1) (Some ''alice'') (Some ''GW.example'') (Some ''10.1.2.3'') ''al*@10.0.0.0/8'' = 1"
proof -
  have "addr_match_list ex_gai (\<lambda>_. 1) (Some ''10.1.2.3'') ''10.0.0.0/8'' = 1"
    using ex_gai_pton ex_netmatch
      addr_match_loop_tokens [of "[''10.0.0.0/8'']" ex_gai "''10.1.2.3''" "the (addr_pton ex_gai (Some ''10.1.2.3''))" 0]
    by (simp add: addr_match_list_def tokens_def addr_list_verdict_def addr_entry_bad_def
        addr_entry_hit_def entry_pattern_def entry_negated_def)
  then show ?thesis
    using match_user_spec [of "''al*''" "\<lambda>_. 1" "''10.0.0.0/8''" ex_gai "''alice''" "''GW.example''" "''10.1.2.3''"]
    by (simp add: list_entries_def entry_pattern_def entry_negated_def SUB_MAX_def Let_def lowercase_def)
qed

end
