(* ===== verification/Sshbuf.thy ===== *)
theory Sshbuf
  imports Prelude
begin

text \<open>
  The buffer of \<^verbatim>\<open>sshbuf.c\<close>: the structure with its offsets, allocation and reference count,
  every operation on one buffer as a function from the old structure to the new one, and the
  operations that link buffers (\<^verbatim>\<open>sshbuf_set_parent\<close>, \<^verbatim>\<open>sshbuf_fromb\<close>, \<^verbatim>\<open>sshbuf_free\<close>) on
  a store of buffers. The lemmas show that every operation keeps the sanity conditions that
  \<^verbatim>\<open>sshbuf_check_sanity\<close> tests, what each does to the bytes held, and when it fails, and
  that counted references keep a linked buffer alive exactly as long as it is used.

  A failed sanity test raises \<^verbatim>\<open>SIGSEGV\<close> and then returns an error code; the model has the
  error code. An operation gives its result together with the new structure, because several
  of them change the structure (they pack it) before they fail.
\<close>

unbundle bit_operations_syntax

section \<open>The structure\<close>

definition SSHBUF_SIZE_MAX :: size_t where "SSHBUF_SIZE_MAX = 0x8000000"
definition SSHBUF_REFS_MAX :: u32 where "SSHBUF_REFS_MAX = 0x100000"
definition SSHBUF_MAX_BIGNUM :: size_t where "SSHBUF_MAX_BIGNUM = 16384 div 8"
definition SSHBUF_SIZE_INIT :: size_t where "SSHBUF_SIZE_INIT = 256"
definition SSHBUF_SIZE_INC :: size_t where "SSHBUF_SIZE_INC = 256"
definition SSHBUF_PACK_MIN :: size_t where "SSHBUF_PACK_MIN = 8192"

lemmas sshbuf_consts =
  SSHBUF_SIZE_MAX_def SSHBUF_REFS_MAX_def SSHBUF_MAX_BIGNUM_def SSHBUF_SIZE_INIT_def
  SSHBUF_SIZE_INC_def SSHBUF_PACK_MIN_def

text \<open>
  The fields of the C structure, with the buffer's parent as an index into the store. The last
  field is not one of the structure: it holds the \<^verbatim>\<open>alloc\<close> bytes that \<^verbatim>\<open>cd\<close> points to.
\<close>

record sshbuf =
  sb_d :: ptr
  sb_cd :: ptr
  sb_off :: size_t
  sb_size :: size_t
  sb_max_size :: size_t
  sb_alloc :: size_t
  sb_readonly :: bool
  sb_refcount :: u32
  sb_parent :: "nat option"
  sb_mem :: "byte list"

definition SIZEOF_SSHBUF :: size_t where "SIZEOF_SSHBUF = 64"

definition sshbuf_check_sanity :: "sshbuf \<Rightarrow> unit res" where
  "sshbuf_check_sanity buf =
     (if (\<not> sb_readonly buf \<and> sb_d buf \<noteq> sb_cd buf) \<or>
         sb_refcount buf < 1 \<or> sb_refcount buf > SSHBUF_REFS_MAX \<or>
         sb_cd buf = NULL \<or>
         sb_max_size buf > SSHBUF_SIZE_MAX \<or>
         sb_alloc buf > sb_max_size buf \<or>
         sb_size buf > sb_alloc buf \<or>
         sb_off buf > sb_size buf
      then Inl SSH_ERR_INTERNAL_ERROR else Inr ())"

definition sshbuf_maybe_pack :: "sshbuf \<Rightarrow> bool \<Rightarrow> sshbuf" where
  "sshbuf_maybe_pack buf force =
     (if sb_off buf = 0 \<or> sb_readonly buf \<or> sb_refcount buf > 1 then buf
      else if force \<or> (sb_off buf \<ge> SSHBUF_PACK_MIN \<and> sb_off buf \<ge> sb_size buf div 2)
      then buf\<lparr>sb_mem := mem_write (sb_mem buf) 0
                 (mem_read (sb_mem buf) (unat (sb_off buf)) (unat (sb_size buf - sb_off buf))),
               sb_size := sb_size buf - sb_off buf,
               sb_off := 0\<rparr>
      else buf)"

definition sshbuf_new :: "allocator \<Rightarrow> sshbuf option" where
  "sshbuf_new am =
     (if am SIZEOF_SSHBUF = NULL then None
      else let p = am SSHBUF_SIZE_INIT in
        if p = NULL then None
        else Some \<lparr>sb_d = p, sb_cd = p, sb_off = 0, sb_size = 0,
                   sb_max_size = SSHBUF_SIZE_MAX, sb_alloc = SSHBUF_SIZE_INIT,
                   sb_readonly = False, sb_refcount = 1, sb_parent = None,
                   sb_mem = replicate (unat SSHBUF_SIZE_INIT) 0\<rparr>)"

text \<open>\<open>m\<close> is the memory at the address \<open>blob\<close>.\<close>

definition sshbuf_from :: "allocator \<Rightarrow> ptr \<Rightarrow> byte list \<Rightarrow> size_t \<Rightarrow> sshbuf option" where
  "sshbuf_from am blob m len =
     (if blob = NULL \<or> len > SSHBUF_SIZE_MAX \<or> am SIZEOF_SSHBUF = NULL then None
      else Some \<lparr>sb_d = NULL, sb_cd = blob, sb_off = 0, sb_size = len,
                 sb_max_size = len, sb_alloc = len,
                 sb_readonly = True, sb_refcount = 1, sb_parent = None,
                 sb_mem = take (unat len) m\<rparr>)"

definition sshbuf_reset :: "allocator \<Rightarrow> sshbuf \<Rightarrow> sshbuf" where
  "sshbuf_reset am buf =
     (if sb_readonly buf \<or> sb_refcount buf > 1 then buf\<lparr>sb_off := sb_size buf\<rparr>
      else case sshbuf_check_sanity buf of
        Inl _ \<Rightarrow> buf
      | Inr _ \<Rightarrow>
          let buf1 = buf\<lparr>sb_off := 0, sb_size := 0\<rparr>;
              d = am SSHBUF_SIZE_INIT;
              buf2 = (if sb_alloc buf1 \<noteq> SSHBUF_SIZE_INIT \<and> d \<noteq> NULL
                      then buf1\<lparr>sb_d := d, sb_cd := d, sb_alloc := SSHBUF_SIZE_INIT,
                                sb_mem := recallocarray_bytes (sb_mem buf1) (unat SSHBUF_SIZE_INIT)\<rparr>
                      else buf1)
          in buf2\<lparr>sb_mem := replicate (unat (sb_alloc buf2)) 0\<rparr>)"

definition sshbuf_max_size :: "sshbuf \<Rightarrow> size_t" where
  "sshbuf_max_size buf = sb_max_size buf"

definition sshbuf_alloc :: "sshbuf \<Rightarrow> size_t" where
  "sshbuf_alloc buf = sb_alloc buf"

definition sshbuf_parent :: "sshbuf \<Rightarrow> nat option" where
  "sshbuf_parent buf = sb_parent buf"

definition sshbuf_refcount :: "sshbuf \<Rightarrow> u32" where
  "sshbuf_refcount buf = sb_refcount buf"

definition sshbuf_set_max_size :: "allocator \<Rightarrow> sshbuf \<Rightarrow> size_t \<Rightarrow> unit res \<times> sshbuf" where
  "sshbuf_set_max_size am buf max_size =
     (case sshbuf_check_sanity buf of
        Inl r \<Rightarrow> (Inl r, buf)
      | Inr _ \<Rightarrow>
          if max_size = sb_max_size buf then (Inr (), buf)
          else if sb_readonly buf \<or> sb_refcount buf > 1
          then (Inl SSH_ERR_BUFFER_READ_ONLY, buf)
          else if max_size > SSHBUF_SIZE_MAX then (Inl SSH_ERR_NO_BUFFER_SPACE, buf)
          else
            let buf1 = sshbuf_maybe_pack buf (max_size < sb_size buf) in
            if max_size < sb_alloc buf1 \<and> max_size > sb_size buf1 then
              let rlen0 = (if sb_size buf1 < SSHBUF_SIZE_INIT then SSHBUF_SIZE_INIT
                           else ROUNDUP (sb_size buf1) SSHBUF_SIZE_INC);
                  rlen = (if rlen0 > max_size then max_size else rlen0);
                  dp = am rlen
              in if dp = NULL then (Inl SSH_ERR_ALLOC_FAIL, buf1)
                 else let buf2 = buf1\<lparr>sb_d := dp, sb_cd := dp, sb_alloc := rlen,
                                      sb_mem := recallocarray_bytes (sb_mem buf1) (unat rlen)\<rparr>
                      in if max_size < sb_alloc buf2 then (Inl SSH_ERR_NO_BUFFER_SPACE, buf2)
                         else (Inr (), buf2\<lparr>sb_max_size := max_size\<rparr>)
            else if max_size < sb_alloc buf1 then (Inl SSH_ERR_NO_BUFFER_SPACE, buf1)
            else (Inr (), buf1\<lparr>sb_max_size := max_size\<rparr>))"

definition sshbuf_len :: "sshbuf \<Rightarrow> size_t" where
  "sshbuf_len buf =
     (case sshbuf_check_sanity buf of Inl _ \<Rightarrow> 0 | Inr _ \<Rightarrow> sb_size buf - sb_off buf)"

definition sshbuf_avail :: "sshbuf \<Rightarrow> size_t" where
  "sshbuf_avail buf =
     (case sshbuf_check_sanity buf of
        Inl _ \<Rightarrow> 0
      | Inr _ \<Rightarrow> if sb_readonly buf \<or> sb_refcount buf > 1 then 0
               else sb_max_size buf - (sb_size buf - sb_off buf))"

definition sshbuf_ptr :: "sshbuf \<Rightarrow> ptr" where
  "sshbuf_ptr buf =
     (case sshbuf_check_sanity buf of Inl _ \<Rightarrow> NULL | Inr _ \<Rightarrow> sb_cd buf + sb_off buf)"

definition sshbuf_mutable_ptr :: "sshbuf \<Rightarrow> ptr" where
  "sshbuf_mutable_ptr buf =
     (case sshbuf_check_sanity buf of
        Inl _ \<Rightarrow> NULL
      | Inr _ \<Rightarrow> if sb_readonly buf \<or> sb_refcount buf > 1 then NULL
               else sb_d buf + sb_off buf)"

definition sshbuf_check_reserve :: "sshbuf \<Rightarrow> size_t \<Rightarrow> unit res" where
  "sshbuf_check_reserve buf len =
     (case sshbuf_check_sanity buf of
        Inl r \<Rightarrow> Inl r
      | Inr _ \<Rightarrow>
          if sb_readonly buf \<or> sb_refcount buf > 1 then Inl SSH_ERR_BUFFER_READ_ONLY
          else if len > sb_max_size buf \<or>
                  sb_max_size buf - len < sb_size buf - sb_off buf
          then Inl SSH_ERR_NO_BUFFER_SPACE
          else Inr ())"

definition sshbuf_allocate :: "allocator \<Rightarrow> sshbuf \<Rightarrow> size_t \<Rightarrow> unit res \<times> sshbuf" where
  "sshbuf_allocate am buf len =
     (case sshbuf_check_reserve buf len of
        Inl r \<Rightarrow> (Inl r, buf)
      | Inr _ \<Rightarrow>
          let buf1 = sshbuf_maybe_pack buf (sb_size buf + len > sb_max_size buf) in
          if len + sb_size buf1 \<le> sb_alloc buf1 then (Inr (), buf1)
          else
            let need = len + sb_size buf1 - sb_alloc buf1;
                rlen0 = ROUNDUP (sb_alloc buf1 + need) SSHBUF_SIZE_INC;
                rlen = (if rlen0 > sb_max_size buf1 then sb_alloc buf1 + need else rlen0);
                dp = am rlen
            in if dp = NULL then (Inl SSH_ERR_ALLOC_FAIL, buf1)
               else
                 let buf2 = buf1\<lparr>sb_alloc := rlen, sb_d := dp, sb_cd := dp,
                                 sb_mem := recallocarray_bytes (sb_mem buf1) (unat rlen)\<rparr>
                 in (sshbuf_check_reserve buf2 len, buf2))"

text \<open>The reserved region is given by its index in the block, \<^verbatim>\<open>dp - buf->d\<close>.\<close>

definition sshbuf_reserve :: "allocator \<Rightarrow> sshbuf \<Rightarrow> size_t \<Rightarrow> size_t res \<times> sshbuf" where
  "sshbuf_reserve am buf len =
     (case sshbuf_allocate am buf len of
        (Inl r, buf1) \<Rightarrow> (Inl r, buf1)
      | (Inr _, buf1) \<Rightarrow> (Inr (sb_size buf1), buf1\<lparr>sb_size := sb_size buf1 + len\<rparr>))"

definition sshbuf_consume :: "sshbuf \<Rightarrow> size_t \<Rightarrow> unit res \<times> sshbuf" where
  "sshbuf_consume buf len =
     (case sshbuf_check_sanity buf of
        Inl r \<Rightarrow> (Inl r, buf)
      | Inr _ \<Rightarrow>
          if len = 0 then (Inr (), buf)
          else if len > sshbuf_len buf then (Inl SSH_ERR_MESSAGE_INCOMPLETE, buf)
          else let buf1 = buf\<lparr>sb_off := sb_off buf + len\<rparr> in
               (Inr (), if sb_off buf1 = sb_size buf1 then buf1\<lparr>sb_off := 0, sb_size := 0\<rparr>
                        else buf1))"

definition sshbuf_consume_end :: "sshbuf \<Rightarrow> size_t \<Rightarrow> unit res \<times> sshbuf" where
  "sshbuf_consume_end buf len =
     (case sshbuf_check_sanity buf of
        Inl r \<Rightarrow> (Inl r, buf)
      | Inr _ \<Rightarrow>
          if len = 0 then (Inr (), buf)
          else if len > sshbuf_len buf then (Inl SSH_ERR_MESSAGE_INCOMPLETE, buf)
          else (Inr (), buf\<lparr>sb_size := sb_size buf - len\<rparr>))"

section \<open>Buffers that refer to each other\<close>

text \<open>
  The store holds the live buffers by index; a freed buffer's place is \<^const>\<open>None\<close>. An index
  that is not live stands for the \<^verbatim>\<open>NULL\<close> that \<^verbatim>\<open>sshbuf_check_sanity\<close> refuses.
\<close>

type_synonym bufstore = "sshbuf option list"

definition store_get :: "bufstore \<Rightarrow> nat \<Rightarrow> sshbuf option" where
  "store_get st i = (if i < length st then st ! i else None)"

definition sshbuf_set_parent :: "bufstore \<Rightarrow> nat \<Rightarrow> nat \<Rightarrow> unit res \<times> bufstore" where
  "sshbuf_set_parent st child parent =
     (case (store_get st child, store_get st parent) of
        (Some c, Some p) \<Rightarrow>
          (case (sshbuf_check_sanity c, sshbuf_check_sanity p) of
             (Inl r, _) \<Rightarrow> (Inl r, st)
           | (Inr _, Inl r) \<Rightarrow> (Inl r, st)
           | (Inr _, Inr _) \<Rightarrow>
               if sb_parent c \<noteq> None \<and> sb_parent c \<noteq> Some parent
               then (Inl SSH_ERR_INTERNAL_ERROR, st)
               else
                 let st1 = st[child := Some (c\<lparr>sb_parent := Some parent\<rparr>)];
                     st2 = st1[parent := map_option
                             (\<lambda>b. b\<lparr>sb_refcount := sb_refcount b + 1\<rparr>) (st1 ! parent)]
                 in (Inr (), st2))
      | _ \<Rightarrow> (Inl SSH_ERR_INTERNAL_ERROR, st))"

definition store_weight :: "bufstore \<Rightarrow> nat" where
  "store_weight st =
     sum_list (map (\<lambda>x. case x of None \<Rightarrow> 0 | Some b \<Rightarrow> unat (sb_refcount b)) st)"

lemma store_weight_update:
  "i < length st \<Longrightarrow> st ! i = Some b \<Longrightarrow> 1 \<le> sb_refcount b \<Longrightarrow>
     store_weight (st[i := Some (b\<lparr>sb_refcount := sb_refcount b - 1\<rparr>)]) < store_weight st"
proof (induction st arbitrary: i)
  case Nil
  then show ?case by simp
next
  case (Cons x xs)
  have "unat (sb_refcount b - 1) < unat (sb_refcount b)"
    using Cons.prems(3) by (simp add: unat_sub word_le_nat_alt)
  with Cons show ?case
    by (cases i) (auto simp: store_weight_def)
qed

function sshbuf_free :: "bufstore \<Rightarrow> nat \<Rightarrow> bufstore" where
  "sshbuf_free st i =
     (case store_get st i of
        None \<Rightarrow> st
      | Some buf \<Rightarrow>
          if sshbuf_check_sanity buf \<noteq> Inr () then st
          else
            let buf1 = buf\<lparr>sb_refcount := sb_refcount buf - 1\<rparr>;
                st1 = st[i := Some buf1]
            in if sb_refcount buf1 > 0 then st1
               else (case sb_parent buf1 of
                       None \<Rightarrow> st1[i := None]
                     | Some p \<Rightarrow> (sshbuf_free st1 p)[i := None]))"
  by pat_completeness auto
termination
proof (relation "measure (\<lambda>(st, i). store_weight st)")
  show "wf (measure (\<lambda>(st, i). store_weight st))" by simp
next
  fix st :: bufstore and i buf x xa p
  assume get: "store_get st i = Some buf"
    and sane: "\<not> sshbuf_check_sanity buf \<noteq> Inr ()"
    and x: "x = buf\<lparr>sb_refcount := sb_refcount buf - 1\<rparr>" "xa = st[i := Some x]"
  from sane have "1 \<le> sb_refcount buf"
    by (auto simp: sshbuf_check_sanity_def word_one_le_iff split: if_splits)
  with get x show "((xa, p), (st, i)) \<in> measure (\<lambda>(st, i). store_weight st)"
    by (auto simp: store_get_def split: if_splits intro: store_weight_update)
qed

declare sshbuf_free.simps [simp del]

definition sshbuf_fromb :: "allocator \<Rightarrow> bufstore \<Rightarrow> nat \<Rightarrow> nat option \<times> bufstore" where
  "sshbuf_fromb am st i =
     (case store_get st i of
        None \<Rightarrow> (None, st)
      | Some buf \<Rightarrow>
          if sshbuf_check_sanity buf \<noteq> Inr () then (None, st)
          else
            (case sshbuf_from am (sshbuf_ptr buf)
                    (drop (unat (sb_off buf)) (sb_mem buf)) (sshbuf_len buf) of
               None \<Rightarrow> (None, st)
             | Some ret \<Rightarrow>
                 let c = length st; st1 = st @ [Some ret] in
                 (case sshbuf_set_parent st1 c i of
                    (Inl _, st2) \<Rightarrow> (None, sshbuf_free st2 c)
                  | (Inr _, st2) \<Rightarrow> (Some c, st2))))"

section \<open>Sanity\<close>

text \<open>The invariant: the tested conditions, and that the block has the recorded size.\<close>

definition sshbuf_inv :: "sshbuf \<Rightarrow> bool" where
  "sshbuf_inv buf \<longleftrightarrow>
     sshbuf_check_sanity buf = Inr () \<and> length (sb_mem buf) = unat (sb_alloc buf)"

definition sshbuf_writable :: "sshbuf \<Rightarrow> bool" where
  "sshbuf_writable buf \<longleftrightarrow> \<not> sb_readonly buf \<and> \<not> sb_refcount buf > 1"

text \<open>The abstraction: the bytes a reader of the buffer sees.\<close>

definition sshbuf_contents :: "sshbuf \<Rightarrow> byte list" where
  "sshbuf_contents buf =
     mem_read (sb_mem buf) (unat (sb_off buf)) (unat (sb_size buf) - unat (sb_off buf))"

lemma sanity_cases: "sshbuf_check_sanity buf = Inr () \<or> sshbuf_check_sanity buf = Inl SSH_ERR_INTERNAL_ERROR"
  by (simp add: sshbuf_check_sanity_def)

lemma sshbuf_inv_sane [simp]: "sshbuf_inv buf \<Longrightarrow> sshbuf_check_sanity buf = Inr ()"
  by (simp add: sshbuf_inv_def)

lemma sshbuf_sane_iff:
  "sshbuf_check_sanity buf = Inr () \<longleftrightarrow>
     (sb_readonly buf \<or> sb_d buf = sb_cd buf) \<and>
     1 \<le> unat (sb_refcount buf) \<and> unat (sb_refcount buf) \<le> 0x100000 \<and>
     sb_cd buf \<noteq> NULL \<and>
     unat (sb_max_size buf) \<le> 0x8000000 \<and> unat (sb_alloc buf) \<le> unat (sb_max_size buf) \<and>
     unat (sb_size buf) \<le> unat (sb_alloc buf) \<and> unat (sb_off buf) \<le> unat (sb_size buf)"
  by (auto simp: sshbuf_check_sanity_def sshbuf_consts not_less word_le_nat_alt word_less_nat_alt)

lemma sshbuf_inv_iff:
  "sshbuf_inv buf \<longleftrightarrow>
     (sb_readonly buf \<or> sb_d buf = sb_cd buf) \<and>
     1 \<le> unat (sb_refcount buf) \<and> unat (sb_refcount buf) \<le> 0x100000 \<and>
     sb_cd buf \<noteq> NULL \<and>
     unat (sb_max_size buf) \<le> 0x8000000 \<and> unat (sb_alloc buf) \<le> unat (sb_max_size buf) \<and>
     unat (sb_size buf) \<le> unat (sb_alloc buf) \<and> unat (sb_off buf) \<le> unat (sb_size buf) \<and>
     length (sb_mem buf) = unat (sb_alloc buf)"
  by (auto simp: sshbuf_inv_def sshbuf_sane_iff)

lemma sshbuf_inv_bounds:
  assumes "sshbuf_inv buf"
  shows "unat (sb_off buf) \<le> unat (sb_size buf)" "unat (sb_size buf) \<le> unat (sb_alloc buf)"
    "unat (sb_alloc buf) \<le> unat (sb_max_size buf)" "unat (sb_max_size buf) \<le> 0x8000000"
    "length (sb_mem buf) = unat (sb_alloc buf)"
  using assms by (auto simp: sshbuf_inv_iff)

lemma length_contents:
  "sshbuf_inv buf \<Longrightarrow> length (sshbuf_contents buf) = unat (sb_size buf) - unat (sb_off buf)"
  using sshbuf_inv_bounds [of buf] by (simp add: sshbuf_contents_def)

lemma unat_size_minus_off:
  "sshbuf_inv buf \<Longrightarrow> unat (sb_size buf - sb_off buf) = unat (sb_size buf) - unat (sb_off buf)"
  by (simp add: unat_sub word_le_nat_alt sshbuf_inv_bounds)

lemma unat_sshbuf_len [simp]:
  "sshbuf_inv buf \<Longrightarrow> unat (sshbuf_len buf) = length (sshbuf_contents buf)"
  by (simp add: sshbuf_len_def length_contents unat_size_minus_off)

lemma length_contents_le_max:
  "sshbuf_inv buf \<Longrightarrow> length (sshbuf_contents buf) \<le> unat (sb_max_size buf)"
  using sshbuf_inv_bounds [of buf] by (simp add: length_contents)

section \<open>Packing and allocation\<close>

lemma sshbuf_maybe_pack_cases:
  obtains (same) "sshbuf_maybe_pack buf force = buf"
  | (packed) "sshbuf_maybe_pack buf force =
      buf\<lparr>sb_mem := mem_write (sb_mem buf) 0
            (mem_read (sb_mem buf) (unat (sb_off buf)) (unat (sb_size buf - sb_off buf))),
          sb_size := sb_size buf - sb_off buf, sb_off := 0\<rparr>"
      "sshbuf_writable buf"
proof (cases "sshbuf_maybe_pack buf force = buf")
  case False
  then show ?thesis
    by (intro packed) (auto simp: sshbuf_maybe_pack_def sshbuf_writable_def split: if_splits)
qed (rule same)

lemma sshbuf_maybe_pack_inv:
  assumes "sshbuf_inv buf"
  shows "sshbuf_inv (sshbuf_maybe_pack buf force)"
    and "sshbuf_contents (sshbuf_maybe_pack buf force) = sshbuf_contents buf"
    and "sb_max_size (sshbuf_maybe_pack buf force) = sb_max_size buf"
    and "sb_alloc (sshbuf_maybe_pack buf force) = sb_alloc buf"
    and "sshbuf_writable (sshbuf_maybe_pack buf force) = sshbuf_writable buf"
    and "unat (sb_size (sshbuf_maybe_pack buf force)) \<le> unat (sb_size buf)"
proof -
  note b = sshbuf_inv_bounds [OF assms] unat_size_minus_off [OF assms]
  show "sshbuf_inv (sshbuf_maybe_pack buf force)"
    using assms b by (cases rule: sshbuf_maybe_pack_cases [of buf force]) (auto simp: sshbuf_inv_iff)
  show "sshbuf_contents (sshbuf_maybe_pack buf force) = sshbuf_contents buf"
    using b by (cases rule: sshbuf_maybe_pack_cases [of buf force])
      (simp_all add: sshbuf_contents_def)
  show "sb_max_size (sshbuf_maybe_pack buf force) = sb_max_size buf"
    "sb_alloc (sshbuf_maybe_pack buf force) = sb_alloc buf"
    "sshbuf_writable (sshbuf_maybe_pack buf force) = sshbuf_writable buf"
    by (simp_all add: sshbuf_maybe_pack_def sshbuf_writable_def)
  show "unat (sb_size (sshbuf_maybe_pack buf force)) \<le> unat (sb_size buf)"
    using b by (cases rule: sshbuf_maybe_pack_cases [of buf force]) simp_all
qed

lemma sshbuf_maybe_pack_forced:
  "sshbuf_inv buf \<Longrightarrow> sshbuf_writable buf \<Longrightarrow>
     unat (sb_size (sshbuf_maybe_pack buf True)) = length (sshbuf_contents buf)"
  by (auto simp: sshbuf_maybe_pack_def sshbuf_writable_def length_contents unat_size_minus_off)

lemma unat_ROUNDUP_256:
  assumes "unat x \<le> 0x8000000"
  shows "unat (ROUNDUP x 256) = (unat x + 255) div 256 * 256"
proof -
  have "unat (x + 255) = unat x + 255"
    using assms by (subst unat_plus_no_wrap) simp_all
  moreover have "(unat x + 255) div 256 * 256 \<le> unat x + 255" by simp
  ultimately show ?thesis
    using assms by (simp add: ROUNDUP_def unat_word_ariths unat_div)
qed

lemma sshbuf_check_reserve_eq:
  assumes "sshbuf_inv buf"
  shows "sshbuf_check_reserve buf len =
    (if \<not> sshbuf_writable buf then Inl SSH_ERR_BUFFER_READ_ONLY
     else if unat (sb_max_size buf) < length (sshbuf_contents buf) + unat len
     then Inl SSH_ERR_NO_BUFFER_SPACE else Inr ())"
proof -
  note b = sshbuf_inv_bounds [OF assms]
  have "(len > sb_max_size buf \<or> sb_max_size buf - len < sb_size buf - sb_off buf) \<longleftrightarrow>
      unat (sb_max_size buf) < length (sshbuf_contents buf) + unat len"
    using b by (cases "len \<le> sb_max_size buf")
      (auto simp: word_less_nat_alt word_le_nat_alt unat_sub length_contents [OF assms])
  with assms show ?thesis
    by (auto simp: sshbuf_check_reserve_def sshbuf_writable_def)
qed

text \<open>After the pack that a request forces, the request fits below \<^verbatim>\<open>max_size\<close>.\<close>

lemma sshbuf_pack_makes_room:
  assumes inv: "sshbuf_inv buf" and w: "sshbuf_writable buf"
    and fits: "length (sshbuf_contents buf) + unat len \<le> unat (sb_max_size buf)"
  shows "unat (sb_size (sshbuf_maybe_pack buf (sb_size buf + len > sb_max_size buf))) + unat len
    \<le> unat (sb_max_size buf)"
proof (cases "sb_size buf + len > sb_max_size buf")
  case True
  with inv w fits show ?thesis by (simp add: sshbuf_maybe_pack_forced)
next
  case False
  note b = sshbuf_inv_bounds [OF inv]
  have "unat (sb_size buf + len) = unat (sb_size buf) + unat len"
    using b fits by (intro unat_plus_no_wrap) simp
  with False have "unat (sb_size buf) + unat len \<le> unat (sb_max_size buf)"
    by (simp add: word_less_nat_alt)
  with sshbuf_maybe_pack_inv(6) [OF inv, of False] False show ?thesis by simp
qed

text \<open>The size asked of the allocator: enough for the request, and not above \<^verbatim>\<open>max_size\<close>.\<close>

lemma sshbuf_rlen_bounds:
  fixes alloc len size max :: size_t
  assumes "unat size + unat len \<le> unat max" "unat max \<le> 0x8000000"
    and "\<not> len + size \<le> alloc" "unat alloc \<le> unat max"
    and "rlen = (if ROUNDUP (alloc + (len + size - alloc)) SSHBUF_SIZE_INC > max
                 then alloc + (len + size - alloc)
                 else ROUNDUP (alloc + (len + size - alloc)) SSHBUF_SIZE_INC)"
  shows "unat size + unat len \<le> unat rlen \<and> unat rlen \<le> unat max \<and> unat alloc \<le> unat rlen"
proof -
  have ls: "unat (len + size) = unat size + unat len"
    using assms(1,2) by (subst unat_plus_no_wrap) simp_all
  define r where "r = ROUNDUP (len + size) SSHBUF_SIZE_INC"
  have up: "n \<le> (n + 255) div 256 * 256" for n :: nat
    using div_mult_mod_eq [of "n + 255" 256] mod_less_divisor [of 256 "n + 255"] by linarith
  have "unat r = (unat (len + size) + 255) div 256 * 256"
    unfolding r_def SSHBUF_SIZE_INC_def using assms(1,2) by (intro unat_ROUNDUP_256) (simp add: ls)
  with up [of "unat (len + size)"] have r: "unat size + unat len \<le> unat r"
    by (simp add: ls)
  have "rlen = (if r > max then len + size else r)"
    using assms(5) by (simp add: r_def)
  with r ls assms(1,3,4) show ?thesis
    by (simp add: word_less_nat_alt word_le_nat_alt split: if_splits)
qed

lemma sshbuf_regrow:
  assumes inv: "sshbuf_inv b" and w: "sshbuf_writable b"
    and p: "p \<noteq> NULL" and n: "unat (sb_size b) \<le> unat n" "unat n \<le> unat (sb_max_size b)"
    and b': "b' = b\<lparr>sb_alloc := n, sb_d := p, sb_cd := p,
                   sb_mem := recallocarray_bytes (sb_mem b) (unat n)\<rparr>"
  shows "sshbuf_inv b'" "sshbuf_contents b' = sshbuf_contents b" "sshbuf_writable b'"
proof -
  note bs = sshbuf_inv_bounds [OF inv]
  show "sshbuf_inv b'" using inv p n b' by (auto simp: sshbuf_inv_iff)
  show "sshbuf_writable b'" using w b' by (simp add: sshbuf_writable_def)
  show "sshbuf_contents b' = sshbuf_contents b"
    using bs n b' by (simp add: sshbuf_contents_def mem_read_recallocarray)
qed

text \<open>What an allocation request does, in one statement: the cases of its result.\<close>

lemma sshbuf_allocate_cases:
  assumes inv: "sshbuf_inv buf" and res: "sshbuf_allocate am buf len = (r, buf')"
  obtains (read_only) "\<not> sshbuf_writable buf" "r = Inl SSH_ERR_BUFFER_READ_ONLY" "buf' = buf"
  | (no_space) "sshbuf_writable buf" "r = Inl SSH_ERR_NO_BUFFER_SPACE" "buf' = buf"
      "unat (sb_max_size buf) < length (sshbuf_contents buf) + unat len"
  | (refused) n where "sshbuf_writable buf" "r = Inl SSH_ERR_ALLOC_FAIL" "am n = NULL"
      "length (sshbuf_contents buf) + unat len \<le> unat (sb_max_size buf)"
      "sshbuf_inv buf'" "sshbuf_contents buf' = sshbuf_contents buf"
      "sb_max_size buf' = sb_max_size buf" "sshbuf_writable buf'"
  | (ok) "sshbuf_writable buf" "r = Inr ()"
      "length (sshbuf_contents buf) + unat len \<le> unat (sb_max_size buf)"
      "sshbuf_inv buf'" "sshbuf_contents buf' = sshbuf_contents buf"
      "sb_max_size buf' = sb_max_size buf" "sshbuf_writable buf'"
      "unat (sb_size buf') + unat len \<le> unat (sb_alloc buf')"
proof -
  define buf1 where "buf1 = sshbuf_maybe_pack buf (sb_size buf + len > sb_max_size buf)"
  note pk = sshbuf_maybe_pack_inv [OF inv, of "sb_size buf + len > sb_max_size buf", folded buf1_def]
  note b1 = sshbuf_inv_bounds [OF pk(1)]
  consider "\<not> sshbuf_writable buf"
    | "sshbuf_writable buf" "unat (sb_max_size buf) < length (sshbuf_contents buf) + unat len"
    | "sshbuf_writable buf" "length (sshbuf_contents buf) + unat len \<le> unat (sb_max_size buf)"
    by linarith
  then show thesis
  proof cases
    case 1
    with res inv show thesis
      by (intro read_only) (simp_all add: sshbuf_allocate_def sshbuf_check_reserve_eq)
  next
    case 2
    with res inv show thesis
      by (intro no_space) (simp_all add: sshbuf_allocate_def sshbuf_check_reserve_eq)
  next
    case 3
    have room: "unat (sb_size buf1) + unat len \<le> unat (sb_max_size buf)"
      unfolding buf1_def by (rule sshbuf_pack_makes_room [OF inv 3])
    define rlen where "rlen =
      (if ROUNDUP (sb_alloc buf1 + (len + sb_size buf1 - sb_alloc buf1)) SSHBUF_SIZE_INC > sb_max_size buf1
       then sb_alloc buf1 + (len + sb_size buf1 - sb_alloc buf1)
       else ROUNDUP (sb_alloc buf1 + (len + sb_size buf1 - sb_alloc buf1)) SSHBUF_SIZE_INC)"
    define buf2 where "buf2 = buf1\<lparr>sb_alloc := rlen, sb_d := am rlen, sb_cd := am rlen,
      sb_mem := recallocarray_bytes (sb_mem buf1) (unat rlen)\<rparr>"
    have eq: "sshbuf_allocate am buf len =
      (if len + sb_size buf1 \<le> sb_alloc buf1 then (Inr (), buf1)
       else if am rlen = NULL then (Inl SSH_ERR_ALLOC_FAIL, buf1)
       else (sshbuf_check_reserve buf2 len, buf2))"
      using 3 inv by (simp add: sshbuf_allocate_def sshbuf_check_reserve_eq Let_def
          buf1_def rlen_def buf2_def)
    have ls: "unat (len + sb_size buf1) = unat (sb_size buf1) + unat len"
      using room b1 pk(3) by (subst unat_plus_no_wrap) simp_all
    consider "len + sb_size buf1 \<le> sb_alloc buf1"
      | "\<not> len + sb_size buf1 \<le> sb_alloc buf1" "am rlen = NULL"
      | "\<not> len + sb_size buf1 \<le> sb_alloc buf1" "am rlen \<noteq> NULL" by blast
    then show thesis
    proof cases
      case 1
      with eq res have "r = Inr ()" "buf' = buf1" by simp_all
      with 1 3 pk ls show thesis by (intro ok) (simp_all add: word_le_nat_alt)
    next
      case 2
      with eq res have "r = Inl SSH_ERR_ALLOC_FAIL" "buf' = buf1" by simp_all
      with 2 3 pk show thesis by (intro refused [of rlen]) simp_all
    next
      case grown: 3
      have rl: "unat (sb_size buf1) + unat len \<le> unat rlen \<and> unat rlen \<le> unat (sb_max_size buf1) \<and>
          unat (sb_alloc buf1) \<le> unat rlen"
        by (rule sshbuf_rlen_bounds [OF _ _ grown(1) _ rlen_def]) (use room b1 pk(3) in simp_all)
      then have sz: "unat (sb_size buf1) \<le> unat rlen" by simp
      have w1: "sshbuf_writable buf1" using pk(5) 3(1) by simp
      note new = sshbuf_regrow [OF pk(1) w1 grown(2) sz conjunct1 [OF conjunct2 [OF rl]] buf2_def]
      have m2: "sb_max_size buf2 = sb_max_size buf" "sb_alloc buf2 = rlen" "sb_size buf2 = sb_size buf1"
        using pk(3) by (simp_all add: buf2_def)
      have "sshbuf_check_reserve buf2 len = Inr ()"
        using new m2 pk(2) 3 by (simp add: sshbuf_check_reserve_eq)
      with eq res grown have "r = Inr ()" "buf' = buf2" by simp_all
      with new m2 pk(2) 3 rl show thesis by (intro ok) simp_all
    qed
  qed
qed

section \<open>Appending and removing\<close>

text \<open>The caller's copy into the region that \<^verbatim>\<open>sshbuf_reserve\<close> handed out.\<close>

definition sshbuf_fill :: "sshbuf \<Rightarrow> size_t \<Rightarrow> byte list \<Rightarrow> sshbuf" where
  "sshbuf_fill buf i bs = buf\<lparr>sb_mem := mem_write (sb_mem buf) (unat i) bs\<rparr>"

lemma sshbuf_reserve_ok:
  assumes inv: "sshbuf_inv buf" and res: "sshbuf_reserve am buf len = (Inr i, buf')"
    and bs: "length bs = unat len"
  shows "sshbuf_inv (sshbuf_fill buf' i bs)"
    and "sshbuf_contents (sshbuf_fill buf' i bs) = sshbuf_contents buf @ bs"
    and "sb_max_size (sshbuf_fill buf' i bs) = sb_max_size buf"
    and "sshbuf_writable (sshbuf_fill buf' i bs)"
    and "length (sshbuf_contents buf) + unat len \<le> unat (sb_max_size buf)"
proof -
  from res obtain b1 where al: "sshbuf_allocate am buf len = (Inr (), b1)"
    and i: "i = sb_size b1" and b': "buf' = b1\<lparr>sb_size := sb_size b1 + len\<rparr>"
    by (auto simp: sshbuf_reserve_def split: prod.splits sum.splits)
  have ok: "sshbuf_inv b1" "sshbuf_contents b1 = sshbuf_contents buf"
    "sb_max_size b1 = sb_max_size buf" "sshbuf_writable b1"
    "unat (sb_size b1) + unat len \<le> unat (sb_alloc b1)"
    "length (sshbuf_contents buf) + unat len \<le> unat (sb_max_size buf)"
    by (cases rule: sshbuf_allocate_cases [OF inv al]; simp)+
  note bd = sshbuf_inv_bounds [OF ok(1)]
  have sz: "unat (sb_size b1 + len) = unat (sb_size b1) + unat len"
    using ok(5) bd by (intro unat_plus_no_wrap) simp
  show "sshbuf_inv (sshbuf_fill buf' i bs)"
    using ok(1,5) bd bs by (auto simp: sshbuf_inv_iff sshbuf_fill_def b' i sz)
  define m where "m = mem_write (sb_mem b1) (unat (sb_size b1)) bs"
  have split: "unat (sb_size b1) + unat len - unat (sb_off b1) =
      (unat (sb_size b1) - unat (sb_off b1)) + unat len" "unat (sb_off b1) +
      (unat (sb_size b1) - unat (sb_off b1)) = unat (sb_size b1)"
    using bd by simp_all
  have "sshbuf_contents (sshbuf_fill buf' i bs) =
      mem_read m (unat (sb_off b1)) (unat (sb_size b1) + unat len - unat (sb_off b1))"
    by (simp add: sshbuf_contents_def sshbuf_fill_def b' i sz m_def)
  also have "\<dots> = mem_read m (unat (sb_off b1)) (unat (sb_size b1) - unat (sb_off b1)) @
      mem_read m (unat (sb_size b1)) (unat len)"
    unfolding split mem_read_append ..
  also have "\<dots> = sshbuf_contents b1 @ bs"
    using ok(5) bd bs by (simp add: sshbuf_contents_def m_def mem_read_write_before)
  finally show "sshbuf_contents (sshbuf_fill buf' i bs) = sshbuf_contents buf @ bs"
    by (simp add: ok(2))
  show "sb_max_size (sshbuf_fill buf' i bs) = sb_max_size buf" "sshbuf_writable (sshbuf_fill buf' i bs)"
    "length (sshbuf_contents buf) + unat len \<le> unat (sb_max_size buf)"
    using ok by (simp_all add: sshbuf_fill_def sshbuf_writable_def b')
qed

lemma sshbuf_reserve_error:
  assumes inv: "sshbuf_inv buf" and res: "sshbuf_reserve am buf len = (Inl r, buf')"
  shows "sshbuf_inv buf'" and "sshbuf_contents buf' = sshbuf_contents buf"
    and "sb_max_size buf' = sb_max_size buf" and "sshbuf_writable buf' = sshbuf_writable buf"
    and "r = (if \<not> sshbuf_writable buf then SSH_ERR_BUFFER_READ_ONLY
              else if unat (sb_max_size buf) < length (sshbuf_contents buf) + unat len
              then SSH_ERR_NO_BUFFER_SPACE else SSH_ERR_ALLOC_FAIL)"
    and "r = SSH_ERR_ALLOC_FAIL \<Longrightarrow> \<exists>n. am n = NULL"
proof -
  from res have al: "sshbuf_allocate am buf len = (Inl r, buf')"
    by (auto simp: sshbuf_reserve_def split: prod.splits sum.splits)
  show "sshbuf_inv buf'" "sshbuf_contents buf' = sshbuf_contents buf"
    "sb_max_size buf' = sb_max_size buf" "sshbuf_writable buf' = sshbuf_writable buf"
    "r = (if \<not> sshbuf_writable buf then SSH_ERR_BUFFER_READ_ONLY
          else if unat (sb_max_size buf) < length (sshbuf_contents buf) + unat len
          then SSH_ERR_NO_BUFFER_SPACE else SSH_ERR_ALLOC_FAIL)"
    using inv by (cases rule: sshbuf_allocate_cases [OF inv al]; simp)+
  show "r = SSH_ERR_ALLOC_FAIL \<Longrightarrow> \<exists>n. am n = NULL"
    by (cases rule: sshbuf_allocate_cases [OF inv al]) auto
qed

lemma sshbuf_consume_eq:
  assumes inv: "sshbuf_inv buf"
  shows "unat len > length (sshbuf_contents buf) \<Longrightarrow>
      sshbuf_consume buf len = (Inl SSH_ERR_MESSAGE_INCOMPLETE, buf)"
    and "unat len \<le> length (sshbuf_contents buf) \<Longrightarrow>
      \<exists>buf'. sshbuf_consume buf len = (Inr (), buf') \<and> sshbuf_inv buf' \<and>
        sshbuf_contents buf' = drop (unat len) (sshbuf_contents buf) \<and>
        sb_mem buf' = sb_mem buf \<and> sb_max_size buf' = sb_max_size buf \<and>
        sshbuf_writable buf' = sshbuf_writable buf"
proof -
  note b = sshbuf_inv_bounds [OF inv]
  show "unat len > length (sshbuf_contents buf) \<Longrightarrow>
      sshbuf_consume buf len = (Inl SSH_ERR_MESSAGE_INCOMPLETE, buf)"
    using inv by (auto simp: sshbuf_consume_def word_less_nat_alt)
next
  note b = sshbuf_inv_bounds [OF inv]
  assume le: "unat len \<le> length (sshbuf_contents buf)"
  then have le': "unat (sb_off buf) + unat len \<le> unat (sb_size buf)"
    using b(1) inv by (simp add: length_contents)
  then have off: "unat (sb_off buf + len) = unat (sb_off buf) + unat len"
    using b by (intro unat_plus_no_wrap) simp
  show "\<exists>buf'. sshbuf_consume buf len = (Inr (), buf') \<and> sshbuf_inv buf' \<and>
        sshbuf_contents buf' = drop (unat len) (sshbuf_contents buf) \<and>
        sb_mem buf' = sb_mem buf \<and> sb_max_size buf' = sb_max_size buf \<and>
        sshbuf_writable buf' = sshbuf_writable buf"
  proof (cases "sb_off buf + len = sb_size buf")
    case True
    with off have "unat (sb_size buf) - unat (sb_off buf) = unat len" by simp
    with True inv le show ?thesis
      by (auto simp: sshbuf_consume_def word_less_nat_alt sshbuf_inv_iff sshbuf_contents_def
          sshbuf_writable_def Let_def)
  next
    case False
    with inv le le' off show ?thesis
      by (auto simp: sshbuf_consume_def word_less_nat_alt sshbuf_inv_iff sshbuf_contents_def
          sshbuf_writable_def mem_read_drop Let_def)
  qed
qed

lemma sshbuf_consume_end_eq:
  assumes inv: "sshbuf_inv buf"
  shows "unat len > length (sshbuf_contents buf) \<Longrightarrow>
      sshbuf_consume_end buf len = (Inl SSH_ERR_MESSAGE_INCOMPLETE, buf)"
    and "unat len \<le> length (sshbuf_contents buf) \<Longrightarrow>
      \<exists>buf'. sshbuf_consume_end buf len = (Inr (), buf') \<and> sshbuf_inv buf' \<and>
        sshbuf_contents buf' = take (length (sshbuf_contents buf) - unat len) (sshbuf_contents buf) \<and>
        sb_mem buf' = sb_mem buf \<and> sb_max_size buf' = sb_max_size buf \<and>
        sshbuf_writable buf' = sshbuf_writable buf"
proof -
  note b = sshbuf_inv_bounds [OF inv]
  show "unat len > length (sshbuf_contents buf) \<Longrightarrow>
      sshbuf_consume_end buf len = (Inl SSH_ERR_MESSAGE_INCOMPLETE, buf)"
    using inv by (auto simp: sshbuf_consume_end_def word_less_nat_alt)
next
  note b = sshbuf_inv_bounds [OF inv]
  assume le: "unat len \<le> length (sshbuf_contents buf)"
  then have le': "unat (sb_off buf) + unat len \<le> unat (sb_size buf)"
    using b(1) inv by (simp add: length_contents)
  then have sz: "unat (sb_size buf - len) = unat (sb_size buf) - unat len"
    by (intro unat_sub) (simp add: word_le_nat_alt)
  have sub: "unat (sb_size buf) - unat len - unat (sb_off buf) =
      unat (sb_size buf) - unat (sb_off buf) - unat len" by simp
  have "take (length (sshbuf_contents buf) - unat len) (sshbuf_contents buf) =
      mem_read (sb_mem buf) (unat (sb_off buf)) (unat (sb_size buf) - unat len - unat (sb_off buf))"
    unfolding length_contents [OF inv] sub by (simp add: sshbuf_contents_def mem_read_take)
  with inv le le' sz show "\<exists>buf'. sshbuf_consume_end buf len = (Inr (), buf') \<and> sshbuf_inv buf' \<and>
        sshbuf_contents buf' = take (length (sshbuf_contents buf) - unat len) (sshbuf_contents buf) \<and>
        sb_mem buf' = sb_mem buf \<and> sb_max_size buf' = sb_max_size buf \<and>
        sshbuf_writable buf' = sshbuf_writable buf"
    by (cases "len = 0")
      (auto simp: sshbuf_consume_end_def word_less_nat_alt sshbuf_inv_iff sshbuf_writable_def
        sshbuf_contents_def [of "buf\<lparr>sb_size := sb_size buf - len\<rparr>"])
qed

section \<open>Creation, reset and limits\<close>

lemma sshbuf_new_ok:
  assumes "sshbuf_new am = Some buf"
  shows "sshbuf_inv buf" "sshbuf_contents buf = []" "sshbuf_writable buf"
    "sb_max_size buf = SSHBUF_SIZE_MAX" "sb_parent buf = None" "sb_refcount buf = 1"
  using assms
  by (auto simp: sshbuf_new_def sshbuf_inv_iff sshbuf_consts sshbuf_contents_def
      sshbuf_writable_def Let_def split: if_splits)

lemma sshbuf_from_ok:
  assumes "sshbuf_from am blob m len = Some buf" "unat len \<le> length m"
  shows "sshbuf_inv buf" "sshbuf_contents buf = take (unat len) m" "\<not> sshbuf_writable buf"
    "sb_parent buf = None" "sb_refcount buf = 1"
  using assms
  by (auto simp: sshbuf_from_def sshbuf_inv_iff sshbuf_consts sshbuf_contents_def
      sshbuf_writable_def mem_read_def word_less_nat_alt split: if_splits)

lemma sshbuf_reset_shared:
  "sshbuf_inv buf \<Longrightarrow> \<not> sshbuf_writable buf \<Longrightarrow>
     sshbuf_inv (sshbuf_reset am buf) \<and> sshbuf_contents (sshbuf_reset am buf) = [] \<and>
     sb_mem (sshbuf_reset am buf) = sb_mem buf"
  by (auto simp: sshbuf_reset_def sshbuf_writable_def sshbuf_inv_iff sshbuf_contents_def)

lemma sshbuf_reset_writable:
  assumes "sshbuf_inv buf" "sshbuf_writable buf" "SSHBUF_SIZE_INIT \<le> sb_max_size buf"
  shows "sshbuf_inv (sshbuf_reset am buf)" "sshbuf_contents (sshbuf_reset am buf) = []"
    "set (sb_mem (sshbuf_reset am buf)) \<subseteq> {0}"
  using assms
  by (auto simp: sshbuf_reset_def sshbuf_writable_def sshbuf_inv_iff sshbuf_contents_def
      sshbuf_consts word_le_nat_alt Let_def)

lemma sshbuf_reset_small_max:
  assumes "sshbuf_inv buf" "sshbuf_writable buf" "sb_max_size buf < SSHBUF_SIZE_INIT"
    and "am SSHBUF_SIZE_INIT \<noteq> NULL"
  shows "sshbuf_check_sanity (sshbuf_reset am buf) = Inl SSH_ERR_INTERNAL_ERROR"
proof -
  have "sb_alloc buf \<noteq> SSHBUF_SIZE_INIT"
    using assms(1,3) by (auto simp: sshbuf_inv_iff word_less_nat_alt)
  with assms show ?thesis
    by (auto simp: sshbuf_reset_def sshbuf_writable_def sshbuf_check_sanity_def Let_def)
qed

lemma sshbuf_set_max_size_shrunk:
  assumes inv: "sshbuf_inv b" and w: "sshbuf_writable b"
    and m: "max_size < sb_alloc b" "max_size > sb_size b"
    and r: "r0 = (if sb_size b < SSHBUF_SIZE_INIT then SSHBUF_SIZE_INIT
                  else ROUNDUP (sb_size b) SSHBUF_SIZE_INC)"
    and rlen: "rlen = (if r0 > max_size then max_size else r0)"
  shows "unat (sb_size b) \<le> unat rlen" "unat rlen \<le> unat max_size" "unat rlen \<le> unat (sb_max_size b)"
proof -
  note bd = sshbuf_inv_bounds [OF inv]
  have up: "n \<le> (n + 255) div 256 * 256" for n :: nat
    using div_mult_mod_eq [of "n + 255" 256] mod_less_divisor [of 256 "n + 255"] by linarith
  have "unat (sb_size b) \<le> unat r0"
    using r bd up [of "unat (sb_size b)"]
    by (auto simp: sshbuf_consts word_less_nat_alt unat_ROUNDUP_256)
  then show "unat (sb_size b) \<le> unat rlen" "unat rlen \<le> unat max_size"
    "unat rlen \<le> unat (sb_max_size b)"
    using m rlen bd by (auto simp: word_less_nat_alt)
qed

lemma sshbuf_set_max_size_ok:
  assumes inv: "sshbuf_inv buf" and res: "sshbuf_set_max_size am buf max_size = (r, buf')"
  shows "sshbuf_inv buf' \<and> sshbuf_contents buf' = sshbuf_contents buf \<and>
    sb_max_size buf' = (if r = Inr () then max_size else sb_max_size buf)"
proof -
  define b1 where "b1 = sshbuf_maybe_pack buf (max_size < sb_size buf)"
  define r0 where "r0 = (if sb_size b1 < SSHBUF_SIZE_INIT then SSHBUF_SIZE_INIT
                         else ROUNDUP (sb_size b1) SSHBUF_SIZE_INC)"
  define rlen where "rlen = (if r0 > max_size then max_size else r0)"
  define b2 where "b2 = b1\<lparr>sb_alloc := rlen, sb_d := am rlen, sb_cd := am rlen,
    sb_mem := recallocarray_bytes (sb_mem b1) (unat rlen)\<rparr>"
  note pk = sshbuf_maybe_pack_inv [OF inv, of "max_size < sb_size buf", folded b1_def]
  have lim: "sshbuf_inv (b\<lparr>sb_max_size := max_size\<rparr>)"
    "sshbuf_contents (b\<lparr>sb_max_size := max_size\<rparr>) = sshbuf_contents b"
    if "sshbuf_inv b" "\<not> max_size > SSHBUF_SIZE_MAX" "\<not> max_size < sb_alloc b" for b
    using that by (auto simp: sshbuf_inv_iff sshbuf_contents_def SSHBUF_SIZE_MAX_def
        word_less_nat_alt)
  have grown: "sshbuf_inv b2" "sshbuf_contents b2 = sshbuf_contents buf"
    "sb_max_size b2 = sb_max_size buf"
    if "sshbuf_writable buf" "max_size < sb_alloc b1" "sb_size b1 < max_size" "am rlen \<noteq> NULL"
    using that pk sshbuf_set_max_size_shrunk [OF pk(1) _ that(2,3) r0_def rlen_def]
      sshbuf_regrow [OF pk(1) _ that(4) _ _ b2_def] by (simp_all add: b2_def)
  have "(r, buf') =
    (if max_size = sb_max_size buf then (Inr (), buf)
     else if \<not> sshbuf_writable buf then (Inl SSH_ERR_BUFFER_READ_ONLY, buf)
     else if max_size > SSHBUF_SIZE_MAX then (Inl SSH_ERR_NO_BUFFER_SPACE, buf)
     else if max_size < sb_alloc b1 \<and> sb_size b1 < max_size then
       if am rlen = NULL then (Inl SSH_ERR_ALLOC_FAIL, b1)
       else if max_size < sb_alloc b2 then (Inl SSH_ERR_NO_BUFFER_SPACE, b2)
       else (Inr (), b2\<lparr>sb_max_size := max_size\<rparr>)
     else if max_size < sb_alloc b1 then (Inl SSH_ERR_NO_BUFFER_SPACE, b1)
     else (Inr (), b1\<lparr>sb_max_size := max_size\<rparr>))"
    using inv by (simp add: res [symmetric] sshbuf_set_max_size_def sshbuf_writable_def Let_def
        b1_def r0_def rlen_def b2_def)
  with inv pk lim grown show ?thesis
    by (simp split: if_splits)
qed

section \<open>Reference counts\<close>

text \<open>
  \<open>own i\<close> is the number of handles on buffer \<open>i\<close> that callers still hold. In a consistent
  store every live buffer is sane, its count is the handles on it plus its live children, and
  its parent is live and older.
\<close>

definition buf_children :: "bufstore \<Rightarrow> nat \<Rightarrow> nat set" where
  "buf_children st i = {j. \<exists>b. store_get st j = Some b \<and> sb_parent b = Some i}"

definition store_ok :: "bufstore \<Rightarrow> (nat \<Rightarrow> nat) \<Rightarrow> bool" where
  "store_ok st own \<longleftrightarrow>
     (\<forall>i. store_get st i = None \<longrightarrow> own i = 0) \<and>
     (\<forall>i b. store_get st i = Some b \<longrightarrow>
        sshbuf_inv b \<and> unat (sb_refcount b) = own i + card (buf_children st i) \<and>
        (\<forall>p. sb_parent b = Some p \<longrightarrow> p < i \<and> store_get st p \<noteq> None))"

lemma store_get_update:
  "store_get (st[i := x]) j = (if j = i \<and> i < length st then x else store_get st j)"
  by (auto simp: store_get_def)

lemma store_get_append:
  "store_get (st @ [x]) j = (if j = length st then x else store_get st j)"
  by (auto simp: store_get_def nth_append)

lemma store_get_Some_less: "store_get st i = Some b \<Longrightarrow> i < length st"
  by (auto simp: store_get_def split: if_splits)

lemma finite_buf_children [simp]: "finite (buf_children st i)"
  by (rule finite_subset [of _ "{..<length st}"]) (auto simp: buf_children_def dest: store_get_Some_less)

lemma buf_children_update_keep:
  "store_get st i = Some b \<Longrightarrow> sb_parent b' = sb_parent b \<Longrightarrow>
     buf_children (st[i := Some b']) k = buf_children st k"
  by (auto simp: buf_children_def store_get_update dest: store_get_Some_less)

lemma buf_children_remove:
  "buf_children (st[i := None]) k = buf_children st k - {i}"
  by (auto simp: buf_children_def store_get_update split: if_splits dest: store_get_Some_less)

lemma store_okD:
  assumes "store_ok st own" "store_get st i = Some b"
  shows "sshbuf_inv b" "unat (sb_refcount b) = own i + card (buf_children st i)"
    "sb_parent b = Some p \<Longrightarrow> p < i" "sb_parent b = Some p \<Longrightarrow> \<exists>c. store_get st p = Some c"
  using assms unfolding store_ok_def by blast+

lemma store_ok_live: "store_ok st own \<Longrightarrow> 0 < own i \<Longrightarrow> \<exists>b. store_get st i = Some b"
  unfolding store_ok_def by (metis option.exhaust less_numeral_extra(3))

lemma length_sshbuf_free [simp]: "length (sshbuf_free st i) = length st"
proof (induction st i rule: sshbuf_free.induct)
  case (1 st i)
  then show ?case
    by (subst sshbuf_free.simps) (simp add: Let_def split: option.splits)
qed

text \<open>Freeing looks only at the buffer and its ancestors.\<close>

lemma sshbuf_free_frame:
  assumes "\<And>k b q. k < i \<Longrightarrow> store_get st k = Some b \<Longrightarrow> sb_parent b = Some q \<Longrightarrow> q < k" "p < i"
  shows "sshbuf_free (st[i := x]) p = (sshbuf_free st p)[i := x]"
  using assms
proof (induction p arbitrary: st rule: less_induct)
  case (less p)
  show ?case
  proof (cases "store_get st p")
    case None
    with less.prems(2) show ?thesis
      by (simp add: sshbuf_free.simps [of _ p] store_get_update)
  next
    case (Some b)
    define st1 where "st1 = st[p := Some (b\<lparr>sb_refcount := sb_refcount b - 1\<rparr>)]"
    have swap: "st[i := x, p := y] = st[p := y, i := x]" for y
      using less.prems(2) by (simp add: list_update_swap)
    have IH: "sshbuf_free (st1[i := x]) q = (sshbuf_free st1 q)[i := x]" if "sb_parent b = Some q" for q
    proof (rule less.IH)
      show "q < p" using less.prems Some that by blast
      then show "q < i" using less.prems(2) by simp
      show "q' < k" if "k < i" "store_get st1 k = Some b'" "sb_parent b' = Some q'" for k b' q'
        using that less.prems(1) Some
        by (auto simp: st1_def store_get_update split: if_splits)
    qed
    have swap': "ys[i := x, p := None] = ys[p := None, i := x]" for ys :: bufstore
      using less.prems(2) by (simp add: list_update_swap)
    show ?thesis
      using less.prems(2) Some IH
      by (simp add: sshbuf_free.simps [of "st[i := x]" p] sshbuf_free.simps [of st p]
          store_get_update Let_def swap swap' split: option.split flip: st1_def)
  qed
qed

lemma unat_refcount_dec:
  "sshbuf_inv b \<Longrightarrow> unat (sb_refcount b - 1) = unat (sb_refcount b) - 1"
  by (subst unat_sub) (auto simp: sshbuf_inv_iff word_le_nat_alt)

lemma store_ok_drop_handle:
  assumes ok: "store_ok st own" and b: "store_get st i = Some b" and own: "0 < own i"
    and many: "1 < unat (sb_refcount b)"
  shows "store_ok (st[i := Some (b\<lparr>sb_refcount := sb_refcount b - 1\<rparr>)]) (own(i := own i - 1))"
    (is "store_ok ?st' ?own'")
proof -
  note D = store_okD [OF ok]
  have il [simp]: "i < length st" using b by (rule store_get_Some_less)
  have inv: "sshbuf_inv (b\<lparr>sb_refcount := sb_refcount b - 1\<rparr>)"
    using D(1) [OF b] many by (auto simp: sshbuf_inv_iff unat_refcount_dec)
  have ch: "buf_children ?st' k = buf_children st k" for k
    using b by (rule buf_children_update_keep) simp
  show ?thesis
    unfolding store_ok_def
  proof (intro conjI allI impI)
    fix j assume "store_get ?st' j = None"
    with b ok show "?own' j = 0"
      by (auto simp: store_get_update store_ok_def split: if_splits)
  next
    fix j c assume j: "store_get ?st' j = Some c"
    show "sshbuf_inv c"
      using j inv D(1) by (auto simp: store_get_update split: if_splits)
    show "unat (sb_refcount c) = ?own' j + card (buf_children ?st' j)"
      using j D(2) [OF b] own many D(1) [OF b] D(2)
      by (auto simp: ch store_get_update unat_refcount_dec split: if_splits)
    fix p assume "sb_parent c = Some p"
    then show "p < j" "store_get ?st' p \<noteq> None"
      using j D(3,4) b by (fastforce simp: store_get_update split: if_splits)+
  qed
qed

text \<open>Removing a buffer nobody refers to leaves its parent with one handle more.\<close>

lemma store_ok_remove:
  assumes ok: "store_ok st own" and b: "store_get st i = Some b" and own: "own i = 1"
    and none: "buf_children st i = {}"
  shows "store_ok (st[i := None])
    (\<lambda>k. if k = i then 0 else if sb_parent b = Some k then own k + 1 else own k)"
    (is "store_ok ?st' ?own'")
proof -
  note D = store_okD [OF ok]
  have card: "?own' j + card (buf_children ?st' j) = own j + card (buf_children st j)" if "j \<noteq> i" for j
  proof (cases "sb_parent b = Some j")
    case True
    then have "i \<in> buf_children st j" using b by (auto simp: buf_children_def)
    with True that show ?thesis
      by (simp add: buf_children_remove card_Diff_singleton Suc_leI card_gt_0_iff)
        (metis Suc_pred card_gt_0_iff empty_iff finite_buf_children)
  next
    case False
    then have "i \<notin> buf_children st j" using b by (auto simp: buf_children_def)
    with False that show ?thesis by (simp add: buf_children_remove)
  qed
  show ?thesis
    unfolding store_ok_def
  proof (intro conjI allI impI)
    fix j assume "store_get ?st' j = None"
    with ok D(4) [OF b, of j] show "?own' j = 0"
      by (auto simp: store_get_update store_ok_def split: if_splits)
  next
    fix j c assume j: "store_get ?st' j = Some c"
    then have j': "j \<noteq> i" "store_get st j = Some c"
      using store_get_Some_less [OF b] by (auto simp: store_get_update split: if_splits)
    show "sshbuf_inv c" using D(1) [OF j'(2)] .
    show "unat (sb_refcount c) = ?own' j + card (buf_children ?st' j)"
      using D(2) [OF j'(2)] card [OF j'(1)] by simp
    fix p assume p: "sb_parent c = Some p"
    then show "p < j" using D(3) [OF j'(2)] by simp
    have "p \<noteq> i" using none p j' by (auto simp: buf_children_def)
    then show "store_get ?st' p \<noteq> None"
      using D(4) [OF j'(2) p] by (auto simp: store_get_update)
  qed
qed

lemma sshbuf_free_ok:
  "store_ok st own \<Longrightarrow> 0 < own i \<Longrightarrow> store_ok (sshbuf_free st i) (own(i := own i - 1))"
proof (induction i arbitrary: st own rule: less_induct)
  case (less i)
  from store_ok_live [OF less.prems] obtain b where b: "store_get st i = Some b" ..
  note D = store_okD [OF less.prems(1) b]
  define st1 where "st1 = st[i := Some (b\<lparr>sb_refcount := sb_refcount b - 1\<rparr>)]"
  have unfold: "sshbuf_free st i = (if sb_refcount b - 1 > 0 then st1
      else (case sb_parent b of None \<Rightarrow> st1[i := None] | Some p \<Rightarrow> (sshbuf_free st1 p)[i := None]))"
    using b D(1) by (simp add: sshbuf_free.simps [of st i] Let_def st1_def split: option.split)
  have pos: "0 < sb_refcount b - 1 \<longleftrightarrow> 1 < unat (sb_refcount b)"
    using unat_refcount_dec [OF D(1)] by (auto simp: word_less_nat_alt)
  show ?case
  proof (cases "1 < unat (sb_refcount b)")
    case True
    with unfold pos store_ok_drop_handle [OF less.prems(1) b less.prems(2)] show ?thesis
      by (simp add: st1_def fun_upd_def)
  next
    case False
    then have own: "own i = 1" and "card (buf_children st i) = 0"
      using D(2) less.prems(2) by linarith+
    then have none: "buf_children st i = {}" by simp
    note rm = store_ok_remove [OF less.prems(1) b own none]
    show ?thesis
    proof (cases "sb_parent b")
      case None
      then have "(\<lambda>k. if k = i then 0 else if sb_parent b = Some k then own k + 1 else own k) =
          own(i := own i - 1)" using own by auto
      with rm unfold pos False None show ?thesis by (simp add: st1_def fun_upd_def)
    next
      case (Some p)
      let ?own = "own(i := 0, p := own p + 1)"
      have p: "p < i" using D(3) Some by simp
      have "(\<lambda>k. if k = i then 0 else if sb_parent b = Some k then own k + 1 else own k) = ?own"
        using Some p by auto
      with rm have ok': "store_ok (st[i := None]) ?own" by simp
      have "?own(p := ?own p - 1) = own(i := own i - 1)" using own p by (intro ext) simp
      with less.IH [OF p ok'] have "store_ok (sshbuf_free (st[i := None]) p) (own(i := own i - 1))"
        by (simp only: fun_upd_same zero_less_Suc Suc_eq_plus1 [symmetric])
      moreover have "sshbuf_free (st1[i := None]) p = (sshbuf_free st1 p)[i := None]"
      proof (rule sshbuf_free_frame [OF _ p])
        fix k c q assume "k < i" "store_get st1 k = Some c" "sb_parent c = Some q"
        then show "q < k"
          using store_okD(3) [OF less.prems(1)] by (auto simp: st1_def store_get_update)
      qed
      ultimately show ?thesis
        using unfold pos False Some by (simp add: st1_def fun_upd_def)
    qed
  qed
qed

text \<open>With no handle left, every buffer has been freed: counts leak nothing.\<close>

lemma store_ok_no_handles:
  assumes "store_ok st (\<lambda>_. 0)"
  shows "store_get st i = None"
proof (rule ccontr)
  assume "store_get st i \<noteq> None"
  then have "finite {j. store_get st j \<noteq> None}" "{j. store_get st j \<noteq> None} \<noteq> {}"
    by (auto intro: finite_subset [of _ "{..<length st}"] dest: store_get_Some_less)
  from Max_in [OF this] obtain b where b: "store_get st (Max {j. store_get st j \<noteq> None}) = Some b"
    (is "store_get st ?m = _") by auto
  have "buf_children st ?m = {}"
  proof (rule ccontr)
    assume "buf_children st ?m \<noteq> {}"
    then obtain j c where j: "store_get st j = Some c" "sb_parent c = Some ?m"
      by (auto simp: buf_children_def)
    then have "?m < j" using store_okD(3) [OF assms] by blast
    moreover have "j \<le> ?m"
      using j \<open>finite {j. store_get st j \<noteq> None}\<close> by (intro Max_ge) auto
    ultimately show False by simp
  qed
  then have "unat (sb_refcount b) = 0" using store_okD(2) [OF assms b] by simp
  moreover have "1 \<le> unat (sb_refcount b)"
    using store_okD(1) [OF assms b] by (simp add: sshbuf_inv_iff)
  ultimately show False by simp
qed

lemma store_ok_new:
  assumes ok: "store_ok st own" and b: "sshbuf_inv b" "sb_parent b = None" "sb_refcount b = 1"
  shows "store_ok (st @ [Some b]) (own(length st := 1))"
proof -
  note D = store_okD [OF ok]
  have fresh: "store_get st (length st) = None" by (simp add: store_get_def)
  have ch: "buf_children (st @ [Some b]) k = buf_children st k" for k
    using b(2) fresh by (auto simp: buf_children_def store_get_append split: if_splits)
  have "buf_children st (length st) = {}"
    using D(4) fresh by (fastforce simp: buf_children_def)
  with ok b ch show ?thesis
    unfolding store_ok_def
    by (auto simp: store_get_append split: if_splits)
qed

text \<open>Linking a parentless buffer to an older one adds one to the count of the parent.\<close>

lemma sshbuf_set_parent_ok:
  assumes ok: "store_ok st own" and c: "store_get st c = Some bc" "sb_parent bc = None"
    and p: "store_get st p = Some bp" "p < c" "unat (sb_refcount bp) < 0x100000"
  shows "\<exists>st'. sshbuf_set_parent st c p = (Inr (), st') \<and> store_ok st' own \<and> length st' = length st \<and>
    store_get st' c = Some (bc\<lparr>sb_parent := Some p\<rparr>)"
proof -
  note D = store_okD [OF ok]
  have l: "c < length st" "p < length st" using c p by (auto dest: store_get_Some_less)
  define bp' where "bp' = bp\<lparr>sb_refcount := sb_refcount bp + 1\<rparr>"
  define st' where "st' = st[c := Some (bc\<lparr>sb_parent := Some p\<rparr>), p := Some bp']"
  have get: "store_get st' j = (if j = p then Some bp' else if j = c then Some (bc\<lparr>sb_parent := Some p\<rparr>)
      else store_get st j)" for j
    using l by (auto simp: st'_def store_get_update)
  have rc: "unat (sb_refcount bp + 1) = unat (sb_refcount bp) + 1"
    using p(3) by (subst unat_plus_no_wrap) simp_all
  have inv: "sshbuf_inv bp'" "sshbuf_inv (bc\<lparr>sb_parent := Some p\<rparr>)"
    using D(1) [OF p(1)] D(1) [OF c(1)] p(3) rc by (auto simp: bp'_def sshbuf_inv_iff)
  have ch: "buf_children st' k = (if k = p then insert c (buf_children st k) else buf_children st k)" for k
    using c p by (auto simp: buf_children_def get bp'_def split: if_splits)
  have new: "c \<notin> buf_children st p" using c by (auto simp: buf_children_def)
  have "store_ok st' own"
    unfolding store_ok_def
  proof (intro conjI allI impI)
    fix j assume "store_get st' j = None"
    with ok show "own j = 0" by (auto simp: get store_ok_def split: if_splits)
  next
    fix j b assume j: "store_get st' j = Some b"
    show "sshbuf_inv b" using j inv D(1) by (auto simp: get split: if_splits)
    show "unat (sb_refcount b) = own j + card (buf_children st' j)"
      using j D(2) p(1) c(1) rc new \<open>p < c\<close> by (auto simp: get ch bp'_def split: if_splits)
    fix q assume "sb_parent b = Some q"
    with j have "q < j \<and> store_get st q \<noteq> None"
      using D(3,4) p(1,2) c by (fastforce simp: get bp'_def split: if_splits)
    then show "q < j" "store_get st' q \<noteq> None" by (auto simp: get)
  qed
  moreover have "sshbuf_set_parent st c p = (Inr (), st')"
    using c p l D(1) [OF p(1)] D(1) [OF c(1)]
    by (simp add: sshbuf_set_parent_def st'_def bp'_def store_get_def Let_def)
  moreover have "length st' = length st" by (simp add: st'_def)
  ultimately show ?thesis using \<open>p < c\<close> by (simp add: get)
qed

text \<open>
  A child buffer starts with one handle, shows the bytes of its parent and refers to it. If the
  child cannot be made the store is as before.
\<close>

lemma sshbuf_fromb_ok:
  assumes ok: "store_ok st own" and b: "store_get st i = Some b"
    and few: "unat (sb_refcount b) < 0x100000"
    and res: "sshbuf_fromb am st i = (r, st')"
  shows "case r of
      None \<Rightarrow> st' = st
    | Some c \<Rightarrow> c = length st \<and> store_ok st' (own(c := 1)) \<and>
        (\<exists>bc. store_get st' c = Some bc \<and> sb_parent bc = Some i \<and> \<not> sshbuf_writable bc \<and>
              sshbuf_contents bc = sshbuf_contents b)"
proof -
  note inv = store_okD(1) [OF ok b]
  have i: "i < length st" using b by (rule store_get_Some_less)
  let ?m = "drop (unat (sb_off b)) (sb_mem b)"
  have len: "unat (sshbuf_len b) \<le> length ?m"
    using inv sshbuf_inv_bounds [OF inv] by (simp add: length_contents)
  show ?thesis
  proof (cases "sshbuf_from am (sshbuf_ptr b) ?m (sshbuf_len b)")
    case None
    with res b inv show ?thesis by (simp add: sshbuf_fromb_def)
  next
    case (Some bc)
    note new = sshbuf_from_ok [OF Some len]
    have c: "store_get (st @ [Some bc]) (length st) = Some bc"
      and p: "store_get (st @ [Some bc]) i = Some b"
      using i b by (simp_all add: store_get_append)
    from sshbuf_set_parent_ok [OF store_ok_new [OF ok new(1,4,5)] c new(4) p i few]
    obtain st2 where st2: "sshbuf_set_parent (st @ [Some bc]) (length st) i = (Inr (), st2)"
      "store_ok st2 (own(length st := 1))"
      "store_get st2 (length st) = Some (bc\<lparr>sb_parent := Some i\<rparr>)" by blast
    have "sshbuf_contents bc = sshbuf_contents b"
      unfolding new(2) unat_sshbuf_len [OF inv] length_contents [OF inv]
      by (simp add: sshbuf_contents_def mem_read_def)
    moreover have "sshbuf_contents (bc\<lparr>sb_parent := Some i\<rparr>) = sshbuf_contents bc"
      "sshbuf_writable (bc\<lparr>sb_parent := Some i\<rparr>) = sshbuf_writable bc"
      by (simp_all add: sshbuf_contents_def sshbuf_writable_def)
    moreover have "r = Some (length st)" "st' = st2"
      using res b inv Some st2(1) by (simp_all add: sshbuf_fromb_def Let_def)
    ultimately show ?thesis using st2 new(3) by simp
  qed
qed

text \<open>
  A buffer with live children is never packed, grown, overwritten or shrunk: the bytes the
  children read stay where they are.
\<close>

lemma sshbuf_shared_mem_stable:
  assumes "sshbuf_inv buf" "\<not> sshbuf_writable buf"
  shows "sb_mem (snd (sshbuf_allocate am buf len)) = sb_mem buf"
    "sb_mem (snd (sshbuf_reserve am buf len)) = sb_mem buf"
    "sb_mem (snd (sshbuf_consume buf len)) = sb_mem buf"
    "sb_mem (snd (sshbuf_consume_end buf len)) = sb_mem buf"
    "sb_mem (snd (sshbuf_set_max_size am buf len)) = sb_mem buf"
    "sb_mem (sshbuf_reset am buf) = sb_mem buf"
proof -
  have ro: "sb_readonly buf \<or> sb_refcount buf > 1"
    using assms(2) by (auto simp: sshbuf_writable_def)
  have al: "sshbuf_allocate am buf len = (Inl SSH_ERR_BUFFER_READ_ONLY, buf)"
    using assms by (simp add: sshbuf_allocate_def sshbuf_check_reserve_eq)
  then show "sb_mem (snd (sshbuf_allocate am buf len)) = sb_mem buf"
    "sb_mem (snd (sshbuf_reserve am buf len)) = sb_mem buf"
    by (simp_all add: sshbuf_reserve_def)
  show "sb_mem (snd (sshbuf_consume buf len)) = sb_mem buf"
    "sb_mem (snd (sshbuf_consume_end buf len)) = sb_mem buf"
    using assms(1) by (simp_all add: sshbuf_consume_def sshbuf_consume_end_def Let_def)
  show "sb_mem (snd (sshbuf_set_max_size am buf len)) = sb_mem buf"
    using assms(1) ro by (simp add: sshbuf_set_max_size_def)
  show "sb_mem (sshbuf_reset am buf) = sb_mem buf"
    using ro by (simp add: sshbuf_reset_def)
qed

end
