(* ===== verification/Sshbuf_GetPut.thy ===== *)
theory Sshbuf_GetPut
  imports Sshbuf
begin

text \<open>
  \<^verbatim>\<open>sshbuf-getput-basic.c\<close>: reading and writing integers, strings, C strings, nested buffers
  and big numbers at the front, at the end and at an offset of a buffer. A pointer into the
  buffer that the C code hands out is the list of the bytes it points to. The lemmas give, for
  every operation, the bytes before and after and the error of every failing branch; the
  encodings are shown to round-trip through the locale \<open>wire_codec\<close>.
\<close>

unbundle bit_operations_syntax

section \<open>Reading from the front\<close>

definition sshbuf_get :: "sshbuf \<Rightarrow> size_t \<Rightarrow> byte list res \<times> sshbuf" where
  "sshbuf_get buf len =
     (case sshbuf_consume buf len of
        (Inl r, b) \<Rightarrow> (Inl r, b)
      | (Inr _, b) \<Rightarrow> (Inr (mem_read (sb_mem buf) (unat (sb_off buf)) (unat len)), b))"

definition sshbuf_get_u64 :: "sshbuf \<Rightarrow> u64 res \<times> sshbuf" where
  "sshbuf_get_u64 buf =
     (case sshbuf_consume buf 8 of
        (Inl r, b) \<Rightarrow> (Inl r, b)
      | (Inr _, b) \<Rightarrow> (Inr (PEEK_U64 (mem_read (sb_mem buf) (unat (sb_off buf)) 8)), b))"

definition sshbuf_get_u32 :: "sshbuf \<Rightarrow> u32 res \<times> sshbuf" where
  "sshbuf_get_u32 buf =
     (case sshbuf_consume buf 4 of
        (Inl r, b) \<Rightarrow> (Inl r, b)
      | (Inr _, b) \<Rightarrow> (Inr (PEEK_U32 (mem_read (sb_mem buf) (unat (sb_off buf)) 4)), b))"

definition sshbuf_get_u16 :: "sshbuf \<Rightarrow> u16 res \<times> sshbuf" where
  "sshbuf_get_u16 buf =
     (case sshbuf_consume buf 2 of
        (Inl r, b) \<Rightarrow> (Inl r, b)
      | (Inr _, b) \<Rightarrow> (Inr (PEEK_U16 (mem_read (sb_mem buf) (unat (sb_off buf)) 2)), b))"

definition sshbuf_get_u8 :: "sshbuf \<Rightarrow> byte res \<times> sshbuf" where
  "sshbuf_get_u8 buf =
     (case sshbuf_consume buf 1 of
        (Inl r, b) \<Rightarrow> (Inl r, b)
      | (Inr _, b) \<Rightarrow> (Inr (mem_read (sb_mem buf) (unat (sb_off buf)) 1 ! 0), b))"

section \<open>Access at an offset\<close>

definition check_offset :: "sshbuf \<Rightarrow> bool \<Rightarrow> size_t \<Rightarrow> size_t \<Rightarrow> unit res" where
  "check_offset buf wr offset len =
     (if sshbuf_ptr buf = NULL then Inl SSH_ERR_INTERNAL_ERROR
      else if offset \<ge> SIZE_MAX - len then Inl SSH_ERR_INVALID_ARGUMENT
      else if offset + len > sshbuf_len buf
      then Inl (if wr then SSH_ERR_NO_BUFFER_SPACE else SSH_ERR_MESSAGE_INCOMPLETE)
      else Inr ())"

text \<open>The pointer both checks hand out is given by its index in the block.\<close>

definition check_roffset :: "sshbuf \<Rightarrow> size_t \<Rightarrow> size_t \<Rightarrow> size_t res" where
  "check_roffset buf offset len =
     (case check_offset buf False offset len of
        Inl r \<Rightarrow> Inl r
      | Inr _ \<Rightarrow> Inr (sb_off buf + offset))"

definition sshbuf_peek_u64 :: "sshbuf \<Rightarrow> size_t \<Rightarrow> u64 res" where
  "sshbuf_peek_u64 buf offset =
     (case check_roffset buf offset 8 of
        Inl r \<Rightarrow> Inl r
      | Inr p \<Rightarrow> Inr (PEEK_U64 (mem_read (sb_mem buf) (unat p) 8)))"

definition sshbuf_peek_u32 :: "sshbuf \<Rightarrow> size_t \<Rightarrow> u32 res" where
  "sshbuf_peek_u32 buf offset =
     (case check_roffset buf offset 4 of
        Inl r \<Rightarrow> Inl r
      | Inr p \<Rightarrow> Inr (PEEK_U32 (mem_read (sb_mem buf) (unat p) 4)))"

definition sshbuf_peek_u16 :: "sshbuf \<Rightarrow> size_t \<Rightarrow> u16 res" where
  "sshbuf_peek_u16 buf offset =
     (case check_roffset buf offset 2 of
        Inl r \<Rightarrow> Inl r
      | Inr p \<Rightarrow> Inr (PEEK_U16 (mem_read (sb_mem buf) (unat p) 2)))"

definition sshbuf_peek_u8 :: "sshbuf \<Rightarrow> size_t \<Rightarrow> byte res" where
  "sshbuf_peek_u8 buf offset =
     (case check_roffset buf offset 1 of
        Inl r \<Rightarrow> Inl r
      | Inr p \<Rightarrow> Inr (mem_read (sb_mem buf) (unat p) 1 ! 0))"

section \<open>Reading strings\<close>

definition sshbuf_peek_string_direct :: "sshbuf \<Rightarrow> byte list res" where
  "sshbuf_peek_string_direct buf =
     (if sshbuf_len buf < 4 then Inl SSH_ERR_MESSAGE_INCOMPLETE
      else
        let len = ucast (PEEK_U32 (mem_read (sb_mem buf) (unat (sb_off buf)) 4)) :: size_t in
        if len > SSHBUF_SIZE_MAX - 4 then Inl SSH_ERR_STRING_TOO_LARGE
        else if sshbuf_len buf - 4 < len then Inl SSH_ERR_MESSAGE_INCOMPLETE
        else Inr (mem_read (sb_mem buf) (unat (sb_off buf) + 4) (unat len)))"

definition sshbuf_get_string_direct :: "sshbuf \<Rightarrow> byte list res \<times> sshbuf" where
  "sshbuf_get_string_direct buf =
     (case sshbuf_peek_string_direct buf of
        Inl r \<Rightarrow> (Inl r, buf)
      | Inr val \<Rightarrow>
          (case sshbuf_consume buf (of_nat (length val) + 4) of
             (Inl _, b) \<Rightarrow> (Inl SSH_ERR_INTERNAL_ERROR, b)
           | (Inr _, b) \<Rightarrow> (Inr val, b)))"

definition sshbuf_get_string :: "allocator \<Rightarrow> sshbuf \<Rightarrow> byte list res \<times> sshbuf" where
  "sshbuf_get_string am buf =
     (case sshbuf_get_string_direct buf of
        (Inl r, b) \<Rightarrow> (Inl r, b)
      | (Inr val, b) \<Rightarrow>
          if am (of_nat (length val) + 1) = NULL then (Inl SSH_ERR_ALLOC_FAIL, b)
          else (Inr val, b))"

text \<open>The index of the first zero byte, as \<^verbatim>\<open>memchr(p, 0, len)\<close> finds it.\<close>

definition memchr0 :: "byte list \<Rightarrow> nat option" where
  "memchr0 p = (if 0 \<in> set p then Some (length (takeWhile (\<lambda>x. x \<noteq> 0) p)) else None)"

definition sshbuf_get_cstring :: "allocator \<Rightarrow> sshbuf \<Rightarrow> byte list res \<times> sshbuf" where
  "sshbuf_get_cstring am buf =
     (case sshbuf_peek_string_direct buf of
        Inl r \<Rightarrow> (Inl r, buf)
      | Inr p \<Rightarrow>
          if (case memchr0 p of None \<Rightarrow> False | Some z \<Rightarrow> z < length p - 1)
          then (Inl SSH_ERR_INVALID_FORMAT, buf)
          else
            (case sshbuf_get_string_direct buf of
               (Inl _, b) \<Rightarrow> (Inl SSH_ERR_INTERNAL_ERROR, b)
             | (Inr _, b) \<Rightarrow>
                 if am (of_nat (length p) + 1) = NULL then (Inl SSH_ERR_ALLOC_FAIL, b)
                 else (Inr p, b)))"

text \<open>\<^verbatim>\<open>sshbuf_get_stringb\<close> works on two different buffers.\<close>

definition sshbuf_get_stringb :: "allocator \<Rightarrow> sshbuf \<Rightarrow> sshbuf \<Rightarrow> unit res \<times> sshbuf \<times> sshbuf" where
  "sshbuf_get_stringb am buf v =
     (case sshbuf_peek_string_direct buf of
        Inl r \<Rightarrow> (Inl r, buf, v)
      | Inr _ \<Rightarrow>
          (case sshbuf_get_u32 buf of
             (Inl r, b1) \<Rightarrow> (Inl r, b1, v)
           | (Inr len, b1) \<Rightarrow>
               (case sshbuf_reserve am v (ucast len) of
                  (Inl r, v1) \<Rightarrow> (Inl r, b1, v1)
                | (Inr p, v1) \<Rightarrow>
                    (case sshbuf_get b1 (ucast len) of
                       (Inl r, b2) \<Rightarrow> (Inl r, b2, v1)
                     | (Inr bs, b2) \<Rightarrow> (Inr (), b2, sshbuf_fill v1 p bs)))))"

section \<open>Appending\<close>

definition sshbuf_put :: "allocator \<Rightarrow> sshbuf \<Rightarrow> byte list \<Rightarrow> unit res \<times> sshbuf" where
  "sshbuf_put am buf v =
     (case sshbuf_reserve am buf (of_nat (length v)) of
        (Inl r, b) \<Rightarrow> (Inl r, b)
      | (Inr p, b) \<Rightarrow> (Inr (), sshbuf_fill b p v))"

text \<open>The bytes at \<^verbatim>\<open>sshbuf_ptr(v)\<close>, \<^verbatim>\<open>sshbuf_len(v)\<close> of them.\<close>

definition sshbuf_bytes :: "sshbuf \<Rightarrow> byte list" where
  "sshbuf_bytes v = mem_read (sb_mem v) (unat (sb_off v)) (unat (sshbuf_len v))"

definition sshbuf_putb :: "allocator \<Rightarrow> sshbuf \<Rightarrow> sshbuf option \<Rightarrow> unit res \<times> sshbuf" where
  "sshbuf_putb am buf v =
     (case v of None \<Rightarrow> (Inr (), buf) | Some v' \<Rightarrow> sshbuf_put am buf (sshbuf_bytes v'))"

text \<open>
  \<open>out\<close> is what \<^verbatim>\<open>vsnprintf\<close> prints for the format and its arguments, \<^const>\<open>None\<close> when it
  fails.
\<close>

definition sshbuf_putfv :: "allocator \<Rightarrow> sshbuf \<Rightarrow> byte list option \<Rightarrow> unit res \<times> sshbuf" where
  "sshbuf_putfv am buf out =
     (case out of
        None \<Rightarrow> (Inl SSH_ERR_INVALID_ARGUMENT, buf)
      | Some s \<Rightarrow>
          if length s = 0 then (Inr (), buf)
          else
            (case sshbuf_reserve am buf (of_nat (length s) + 1) of
               (Inl r, b) \<Rightarrow> (Inl r, b)
             | (Inr p, b) \<Rightarrow> sshbuf_consume_end (sshbuf_fill b p (s @ [0])) 1))"

definition sshbuf_putf :: "allocator \<Rightarrow> sshbuf \<Rightarrow> byte list option \<Rightarrow> unit res \<times> sshbuf" where
  "sshbuf_putf am buf out = sshbuf_putfv am buf out"

definition sshbuf_put_u64 :: "allocator \<Rightarrow> sshbuf \<Rightarrow> u64 \<Rightarrow> unit res \<times> sshbuf" where
  "sshbuf_put_u64 am buf val =
     (case sshbuf_reserve am buf 8 of
        (Inl r, b) \<Rightarrow> (Inl r, b)
      | (Inr p, b) \<Rightarrow> (Inr (), sshbuf_fill b p (POKE_U64 val)))"

definition sshbuf_put_u32 :: "allocator \<Rightarrow> sshbuf \<Rightarrow> u32 \<Rightarrow> unit res \<times> sshbuf" where
  "sshbuf_put_u32 am buf val =
     (case sshbuf_reserve am buf 4 of
        (Inl r, b) \<Rightarrow> (Inl r, b)
      | (Inr p, b) \<Rightarrow> (Inr (), sshbuf_fill b p (POKE_U32 val)))"

definition sshbuf_put_u16 :: "allocator \<Rightarrow> sshbuf \<Rightarrow> u16 \<Rightarrow> unit res \<times> sshbuf" where
  "sshbuf_put_u16 am buf val =
     (case sshbuf_reserve am buf 2 of
        (Inl r, b) \<Rightarrow> (Inl r, b)
      | (Inr p, b) \<Rightarrow> (Inr (), sshbuf_fill b p (POKE_U16 val)))"

definition sshbuf_put_u8 :: "allocator \<Rightarrow> sshbuf \<Rightarrow> byte \<Rightarrow> unit res \<times> sshbuf" where
  "sshbuf_put_u8 am buf val =
     (case sshbuf_reserve am buf 1 of
        (Inl r, b) \<Rightarrow> (Inl r, b)
      | (Inr p, b) \<Rightarrow> (Inr (), sshbuf_fill b p [val]))"

section \<open>Overwriting at an offset\<close>

definition check_woffset :: "sshbuf \<Rightarrow> size_t \<Rightarrow> size_t \<Rightarrow> size_t res" where
  "check_woffset buf offset len =
     (case check_offset buf True offset len of
        Inl r \<Rightarrow> Inl r
      | Inr _ \<Rightarrow> if sshbuf_mutable_ptr buf = NULL then Inl SSH_ERR_BUFFER_READ_ONLY
                else Inr (sb_off buf + offset))"

definition sshbuf_poke_u64 :: "sshbuf \<Rightarrow> size_t \<Rightarrow> u64 \<Rightarrow> unit res \<times> sshbuf" where
  "sshbuf_poke_u64 buf offset val =
     (case check_woffset buf offset 8 of
        Inl r \<Rightarrow> (Inl r, buf)
      | Inr p \<Rightarrow> (Inr (), sshbuf_fill buf p (POKE_U64 val)))"

definition sshbuf_poke_u32 :: "sshbuf \<Rightarrow> size_t \<Rightarrow> u32 \<Rightarrow> unit res \<times> sshbuf" where
  "sshbuf_poke_u32 buf offset val =
     (case check_woffset buf offset 4 of
        Inl r \<Rightarrow> (Inl r, buf)
      | Inr p \<Rightarrow> (Inr (), sshbuf_fill buf p (POKE_U32 val)))"

definition sshbuf_poke_u16 :: "sshbuf \<Rightarrow> size_t \<Rightarrow> u16 \<Rightarrow> unit res \<times> sshbuf" where
  "sshbuf_poke_u16 buf offset val =
     (case check_woffset buf offset 2 of
        Inl r \<Rightarrow> (Inl r, buf)
      | Inr p \<Rightarrow> (Inr (), sshbuf_fill buf p (POKE_U16 val)))"

definition sshbuf_poke_u8 :: "sshbuf \<Rightarrow> size_t \<Rightarrow> byte \<Rightarrow> unit res \<times> sshbuf" where
  "sshbuf_poke_u8 buf offset val =
     (case check_woffset buf offset 1 of
        Inl r \<Rightarrow> (Inl r, buf)
      | Inr p \<Rightarrow> (Inr (), sshbuf_fill buf p [val]))"

definition sshbuf_poke :: "sshbuf \<Rightarrow> size_t \<Rightarrow> byte list \<Rightarrow> unit res \<times> sshbuf" where
  "sshbuf_poke buf offset v =
     (case check_woffset buf offset (of_nat (length v)) of
        Inl r \<Rightarrow> (Inl r, buf)
      | Inr p \<Rightarrow> (Inr (), sshbuf_fill buf p v))"

section \<open>Appending strings and big numbers\<close>

definition sshbuf_put_string :: "allocator \<Rightarrow> sshbuf \<Rightarrow> byte list \<Rightarrow> unit res \<times> sshbuf" where
  "sshbuf_put_string am buf v =
     (let len = of_nat (length v) :: size_t in
      if len > SSHBUF_SIZE_MAX - 4 then (Inl SSH_ERR_NO_BUFFER_SPACE, buf)
      else
        (case sshbuf_reserve am buf (len + 4) of
           (Inl r, b) \<Rightarrow> (Inl r, b)
         | (Inr d, b) \<Rightarrow>
             (Inr (), sshbuf_fill (sshbuf_fill b d (POKE_U32 (ucast len))) (d + 4) v)))"

text \<open>A C string is given by the bytes before its terminating zero, \<^const>\<open>None\<close> for \<^verbatim>\<open>NULL\<close>.\<close>

definition sshbuf_put_cstring :: "allocator \<Rightarrow> sshbuf \<Rightarrow> byte list option \<Rightarrow> unit res \<times> sshbuf" where
  "sshbuf_put_cstring am buf v =
     sshbuf_put_string am buf (case v of None \<Rightarrow> [] | Some s \<Rightarrow> s)"

definition sshbuf_put_stringb :: "allocator \<Rightarrow> sshbuf \<Rightarrow> sshbuf option \<Rightarrow> unit res \<times> sshbuf" where
  "sshbuf_put_stringb am buf v =
     (case v of None \<Rightarrow> sshbuf_put_string am buf []
      | Some v' \<Rightarrow> sshbuf_put_string am buf (sshbuf_bytes v'))"

definition sshbuf_froms :: "allocator \<Rightarrow> bufstore \<Rightarrow> nat \<Rightarrow> nat res \<times> bufstore" where
  "sshbuf_froms am st i =
     (case store_get st i of
        None \<Rightarrow> (Inl SSH_ERR_INVALID_ARGUMENT, st)
      | Some buf \<Rightarrow>
          (case sshbuf_peek_string_direct buf of
             Inl r \<Rightarrow> (Inl r, st)
           | Inr p \<Rightarrow>
               (case sshbuf_from am (sb_cd buf + sb_off buf + 4) p (of_nat (length p)) of
                  None \<Rightarrow> (Inl SSH_ERR_ALLOC_FAIL, st)
                | Some ret \<Rightarrow>
                    let c = length st; st1 = st @ [Some ret] in
                    (case sshbuf_consume buf (of_nat (length p) + 4) of
                       (Inl r, _) \<Rightarrow> (Inl r, sshbuf_free st1 c)
                     | (Inr _, buf1) \<Rightarrow>
                         let st2 = st1[i := Some buf1] in
                         (case sshbuf_set_parent st2 c i of
                            (Inl r, st3) \<Rightarrow> (Inl r, sshbuf_free st3 c)
                          | (Inr _, st3) \<Rightarrow> (Inr c, st3))))))"

definition sshbuf_put_bignum2_bytes :: "allocator \<Rightarrow> sshbuf \<Rightarrow> byte list \<Rightarrow> unit res \<times> sshbuf" where
  "sshbuf_put_bignum2_bytes am buf v =
     (if (of_nat (length v) :: size_t) > SSHBUF_SIZE_MAX - 5
      then (Inl SSH_ERR_NO_BUFFER_SPACE, buf)
      else
        let s = dropWhile (\<lambda>x. x = 0) v;
            len = of_nat (length s) :: size_t;
            prepend = (if length s > 0 \<and> s ! 0 AND 0x80 \<noteq> 0 then 1 else 0 :: size_t)
        in (case sshbuf_reserve am buf (len + 4 + prepend) of
              (Inl r, b) \<Rightarrow> (Inl r, b)
            | (Inr d, b) \<Rightarrow>
                let b1 = sshbuf_fill b d (POKE_U32 (ucast (len + prepend)));
                    b2 = (if prepend \<noteq> 0 then sshbuf_fill b1 (d + 4) [0] else b1)
                in (Inr (), sshbuf_fill b2 (d + 4 + prepend) s)))"

definition sshbuf_get_bignum2_bytes_direct :: "sshbuf \<Rightarrow> byte list res \<times> sshbuf" where
  "sshbuf_get_bignum2_bytes_direct buf =
     (case sshbuf_peek_string_direct buf of
        Inl r \<Rightarrow> (Inl r, buf)
      | Inr d \<Rightarrow>
          let len = of_nat (length d) :: size_t in
          if length d \<noteq> 0 \<and> d ! 0 AND 0x80 \<noteq> 0 then (Inl SSH_ERR_BIGNUM_IS_NEGATIVE, buf)
          else if len > SSHBUF_MAX_BIGNUM + 1 \<or> (len = SSHBUF_MAX_BIGNUM + 1 \<and> d ! 0 \<noteq> 0)
          then (Inl SSH_ERR_BIGNUM_TOO_LARGE, buf)
          else
            (case sshbuf_consume buf (len + 4) of
               (Inl _, b) \<Rightarrow> (Inl SSH_ERR_INTERNAL_ERROR, b)
             | (Inr _, b) \<Rightarrow> (Inr (dropWhile (\<lambda>x. x = 0) d), b)))"

section \<open>Reading: the bytes before and after\<close>

lemma contents_front:
  "n \<le> length (sshbuf_contents buf) \<Longrightarrow>
     mem_read (sb_mem buf) (unat (sb_off buf)) n = take n (sshbuf_contents buf)"
  by (simp add: sshbuf_contents_def mem_read_take)

lemma contents_middle:
  "k + n \<le> length (sshbuf_contents buf) \<Longrightarrow>
     mem_read (sb_mem buf) (unat (sb_off buf) + k) n = take n (drop k (sshbuf_contents buf))"
  unfolding sshbuf_contents_def mem_read_drop by (rule mem_read_take [symmetric]) auto

lemma sshbuf_bytes_eq [simp]: "sshbuf_inv buf \<Longrightarrow> sshbuf_bytes buf = sshbuf_contents buf"
  by (simp add: sshbuf_bytes_def contents_front)

text \<open>A successful read of \<open>n\<close> bytes: the buffer afterwards.\<close>

definition sshbuf_read_to :: "sshbuf \<Rightarrow> nat \<Rightarrow> sshbuf \<Rightarrow> bool" where
  "sshbuf_read_to buf n buf' \<longleftrightarrow>
     sshbuf_inv buf' \<and> sshbuf_contents buf' = drop n (sshbuf_contents buf) \<and>
     sb_mem buf' = sb_mem buf \<and> sb_max_size buf' = sb_max_size buf \<and>
     sshbuf_writable buf' = sshbuf_writable buf"

lemma sshbuf_consume_read_to:
  "sshbuf_inv buf \<Longrightarrow> unat len \<le> length (sshbuf_contents buf) \<Longrightarrow>
     \<exists>buf'. sshbuf_consume buf len = (Inr (), buf') \<and> sshbuf_read_to buf (unat len) buf'"
  unfolding sshbuf_read_to_def by (rule sshbuf_consume_eq(2))

lemma sshbuf_get_eq:
  assumes "sshbuf_inv buf"
  shows "unat len \<le> length (sshbuf_contents buf) \<Longrightarrow>
      \<exists>buf'. sshbuf_get buf len = (Inr (take (unat len) (sshbuf_contents buf)), buf') \<and>
        sshbuf_read_to buf (unat len) buf'"
    and "length (sshbuf_contents buf) < unat len \<Longrightarrow>
      sshbuf_get buf len = (Inl SSH_ERR_MESSAGE_INCOMPLETE, buf)"
  using sshbuf_consume_read_to [OF assms, of len] sshbuf_consume_eq(1) [OF assms, of len]
  by (auto simp: sshbuf_get_def contents_front)

lemma sshbuf_get_int_eq:
  assumes inv: "sshbuf_inv buf"
  shows "sshbuf_get_u64 buf = apfst (map_sum id PEEK_U64) (sshbuf_get buf 8)"
    and "sshbuf_get_u32 buf = apfst (map_sum id PEEK_U32) (sshbuf_get buf 4)"
    and "sshbuf_get_u16 buf = apfst (map_sum id PEEK_U16) (sshbuf_get buf 2)"
    and "sshbuf_get_u8 buf = apfst (map_sum id (\<lambda>bs. bs ! 0)) (sshbuf_get buf 1)"
  by (simp_all add: sshbuf_get_u64_def sshbuf_get_u32_def sshbuf_get_u16_def sshbuf_get_u8_def
      sshbuf_get_def split: prod.split sum.split)

definition STRING_MAX :: nat where "STRING_MAX = 0x7fffffc"

lemma sshbuf_peek_string_direct_eq:
  assumes inv: "sshbuf_inv buf" and c: "c = sshbuf_contents buf"
  shows "sshbuf_peek_string_direct buf =
    (if length c < 4 then Inl SSH_ERR_MESSAGE_INCOMPLETE
     else if unat (PEEK_U32 c) > STRING_MAX then Inl SSH_ERR_STRING_TOO_LARGE
     else if length c < 4 + unat (PEEK_U32 c) then Inl SSH_ERR_MESSAGE_INCOMPLETE
     else Inr (take (unat (PEEK_U32 c)) (drop 4 c)))"
proof (cases "length c < 4")
  case True
  with inv c show ?thesis
    by (simp add: sshbuf_peek_string_direct_def word_less_nat_alt)
next
  case False
  let ?len = "ucast (PEEK_U32 c) :: size_t"
  have ul: "unat ?len = unat (PEEK_U32 c)"
    by (simp add: unat_ucast_up)
  have big: "?len > SSHBUF_SIZE_MAX - 4 \<longleftrightarrow> unat (PEEK_U32 c) > STRING_MAX"
    by (simp add: word_less_nat_alt ul SSHBUF_SIZE_MAX_def STRING_MAX_def)
  have "unat (sshbuf_len buf - 4) = length c - 4"
    using False inv c by (subst unat_sub) (simp_all add: word_le_nat_alt)
  then have short: "sshbuf_len buf - 4 < ?len \<longleftrightarrow> length c < 4 + unat (PEEK_U32 c)"
    using False by (auto simp: word_less_nat_alt ul)
  have "PEEK_U32 (mem_read (sb_mem buf) (unat (sb_off buf)) 4) = PEEK_U32 c"
    using False c contents_front [of 4 buf] by simp
  with False inv big short show ?thesis
    unfolding sshbuf_peek_string_direct_def
    by (simp add: word_less_nat_alt c ul [unfolded c] Let_def contents_middle)
qed

lemma peek_string_length:
  "sshbuf_inv buf \<Longrightarrow> sshbuf_peek_string_direct buf = Inr v \<Longrightarrow>
     length v + 4 \<le> length (sshbuf_contents buf) \<and> length v \<le> STRING_MAX"
  by (auto simp: sshbuf_peek_string_direct_eq [OF _ refl] split: if_splits)

lemma unat_of_nat_string:
  "n \<le> STRING_MAX \<Longrightarrow> unat (of_nat n + 4 :: size_t) = n + 4"
  by (subst unat_plus_no_wrap) (simp_all add: unat_of_nat_small STRING_MAX_def)

lemma sshbuf_get_string_direct_eq:
  assumes inv: "sshbuf_inv buf"
  shows "sshbuf_peek_string_direct buf = Inl r \<Longrightarrow> sshbuf_get_string_direct buf = (Inl r, buf)"
    and "sshbuf_peek_string_direct buf = Inr v \<Longrightarrow>
      \<exists>buf'. sshbuf_get_string_direct buf = (Inr v, buf') \<and> sshbuf_read_to buf (length v + 4) buf'"
proof -
  show "sshbuf_peek_string_direct buf = Inl r \<Longrightarrow> sshbuf_get_string_direct buf = (Inl r, buf)"
    by (simp add: sshbuf_get_string_direct_def)
next
  assume v: "sshbuf_peek_string_direct buf = Inr v"
  note l = peek_string_length [OF inv v]
  with sshbuf_consume_read_to [OF inv, of "of_nat (length v) + 4"] v
  show "\<exists>buf'. sshbuf_get_string_direct buf = (Inr v, buf') \<and> sshbuf_read_to buf (length v + 4) buf'"
    by (auto simp: sshbuf_get_string_direct_def unat_of_nat_string)
qed

section \<open>Writing: the bytes before and after\<close>

lemma sshbuf_put_ok:
  assumes "sshbuf_inv buf" "sshbuf_put am buf v = (Inr u, buf')" "length v < 2 ^ 64"
  shows "sshbuf_inv buf'" "sshbuf_contents buf' = sshbuf_contents buf @ v"
    "sb_max_size buf' = sb_max_size buf" "sshbuf_writable buf'"
    "length (sshbuf_contents buf) + length v \<le> unat (sb_max_size buf)"
proof -
  from assms(2) obtain p b where r: "sshbuf_reserve am buf (of_nat (length v)) = (Inr p, b)"
    and b: "buf' = sshbuf_fill b p v"
    by (auto simp: sshbuf_put_def split: prod.splits sum.splits)
  have l: "unat (of_nat (length v) :: size_t) = length v"
    using assms(3) by (intro unat_of_nat_small) simp
  show "sshbuf_inv buf'" "sshbuf_contents buf' = sshbuf_contents buf @ v"
    "sb_max_size buf' = sb_max_size buf" "sshbuf_writable buf'"
    "length (sshbuf_contents buf) + length v \<le> unat (sb_max_size buf)"
    using sshbuf_reserve_ok [OF assms(1) r, of v] l b by simp_all
qed

lemma sshbuf_put_error:
  assumes "sshbuf_inv buf" "sshbuf_put am buf v = (Inl r, buf')"
  shows "sshbuf_inv buf'" "sshbuf_contents buf' = sshbuf_contents buf"
    "sb_max_size buf' = sb_max_size buf" "sshbuf_writable buf' = sshbuf_writable buf"
proof -
  from assms(2) have "sshbuf_reserve am buf (of_nat (length v)) = (Inl r, buf')"
    by (auto simp: sshbuf_put_def split: prod.splits sum.splits)
  from sshbuf_reserve_error [OF assms(1) this] show "sshbuf_inv buf'"
    "sshbuf_contents buf' = sshbuf_contents buf" "sb_max_size buf' = sb_max_size buf"
    "sshbuf_writable buf' = sshbuf_writable buf" by simp_all
qed

text \<open>With room below the limit and a willing allocator an append succeeds.\<close>

lemma sshbuf_put_succeeds:
  assumes "sshbuf_inv buf" "sshbuf_writable buf" "\<And>n. am n \<noteq> NULL"
    and "length (sshbuf_contents buf) + length v \<le> unat (sb_max_size buf)"
  shows "\<exists>buf'. sshbuf_put am buf v = (Inr (), buf')"
proof (rule ccontr)
  assume no: "\<not> ?thesis"
  have "length v < 2 ^ 64"
    using assms(4) sshbuf_inv_bounds(4) [OF assms(1)] by simp
  then have l: "unat (of_nat (length v) :: size_t) = length v"
    by (intro unat_of_nat_small) simp
  from no obtain r b where r: "sshbuf_reserve am buf (of_nat (length v)) = (Inl r, b)"
    by (cases "sshbuf_reserve am buf (of_nat (length v))")
      (auto simp: sshbuf_put_def split: prod.splits sum.splits)
  from sshbuf_reserve_error(5,6) [OF assms(1) r] assms l show False
    by (simp split: if_splits)
qed

lemma sshbuf_put_int_eq [buf_simps]:
  "sshbuf_put_u64 am buf v8 = sshbuf_put am buf (POKE_U64 v8)"
  "sshbuf_put_u32 am buf v4 = sshbuf_put am buf (POKE_U32 v4)"
  "sshbuf_put_u16 am buf v2 = sshbuf_put am buf (POKE_U16 v2)"
  "sshbuf_put_u8 am buf v1 = sshbuf_put am buf [v1]"
  by (simp_all add: sshbuf_put_u64_def sshbuf_put_u32_def sshbuf_put_u16_def sshbuf_put_u8_def
      sshbuf_put_def)

text \<open>The wire form of a string: its length and its bytes.\<close>

definition enc_string :: "byte list \<Rightarrow> byte list" where
  "enc_string v = POKE_U32 (of_nat (length v)) @ v"

lemma length_enc_string [simp]: "length (enc_string v) = length v + 4"
  by (simp add: enc_string_def)

lemma sshbuf_fill_fill:
  "unat i + length xs + length ys \<le> length (sb_mem b) \<Longrightarrow> length (sb_mem b) < 2 ^ 64 \<Longrightarrow>
     sshbuf_fill (sshbuf_fill b i xs) (i + of_nat (length xs)) ys = sshbuf_fill b i (xs @ ys)"
proof -
  assume le: "unat i + length xs + length ys \<le> length (sb_mem b)" "length (sb_mem b) < 2 ^ 64"
  then have "unat (i + of_nat (length xs)) = unat i + length xs"
    by (subst unat_plus_no_wrap) (simp_all add: unat_of_nat_small)
  with le show ?thesis by (simp add: sshbuf_fill_def mem_write_append)
qed

text \<open>The region handed out by a reservation lies in the block.\<close>

lemma sshbuf_reserve_region:
  assumes "sshbuf_inv buf" "sshbuf_reserve am buf len = (Inr i, b)"
  shows "unat i + unat len \<le> length (sb_mem b)" "length (sb_mem b) < 2 ^ 64"
proof -
  from assms(2) obtain b1 where al: "sshbuf_allocate am buf len = (Inr (), b1)"
    and i: "i = sb_size b1" "b = b1\<lparr>sb_size := sb_size b1 + len\<rparr>"
    by (auto simp: sshbuf_reserve_def split: prod.splits sum.splits)
  have "sshbuf_inv b1 \<and> unat (sb_size b1) + unat len \<le> unat (sb_alloc b1)"
    by (cases rule: sshbuf_allocate_cases [OF assms(1) al]; simp)
  then show "unat i + unat len \<le> length (sb_mem b)" "length (sb_mem b) < 2 ^ 64"
    using sshbuf_inv_bounds [of b1] i by auto
qed

lemma sshbuf_put_string_eq:
  assumes inv: "sshbuf_inv buf" and l: "length v < 2 ^ 64"
  shows "sshbuf_put_string am buf v =
    (if length v > STRING_MAX then (Inl SSH_ERR_NO_BUFFER_SPACE, buf)
     else sshbuf_put am buf (enc_string v))"
proof (cases "length v > STRING_MAX")
  case True
  with l show ?thesis
    by (simp add: sshbuf_put_string_def STRING_MAX_def SSHBUF_SIZE_MAX_def word_less_nat_alt
        unat_of_nat_small)
next
  case False
  let ?len = "of_nat (length v) :: size_t"
  have "\<not> ?len > SSHBUF_SIZE_MAX - 4"
    using False l by (simp add: STRING_MAX_def SSHBUF_SIZE_MAX_def word_less_nat_alt unat_of_nat_small)
  moreover have "ucast ?len = (of_nat (length v) :: u32)" by (simp add: ucast_of_nat_down)
  moreover have "sshbuf_fill (sshbuf_fill b d (POKE_U32 (of_nat (length v)))) (d + 4) v =
      sshbuf_fill b d (enc_string v)" if "sshbuf_reserve am buf (?len + 4) = (Inr d, b)" for d b
    using sshbuf_reserve_region [OF inv that] False
      sshbuf_fill_fill [of d "POKE_U32 (of_nat (length v))" v b]
    by (simp add: unat_of_nat_string enc_string_def)
  ultimately show ?thesis
    using False by (auto simp: sshbuf_put_string_def sshbuf_put_def add.commute Let_def
        split: prod.split sum.split)
qed

text \<open>A string at the front is read back, and nothing else is touched.\<close>

lemma peek_string_enc:
  assumes inv: "sshbuf_inv buf" and c: "sshbuf_contents buf = enc_string v @ rest"
    and l: "length v \<le> STRING_MAX"
  shows "sshbuf_peek_string_direct buf = Inr v"
proof -
  have "PEEK_U32 (sshbuf_contents buf) = of_nat (length v)"
    by (simp add: c enc_string_def)
  moreover have "unat (of_nat (length v) :: u32) = length v"
    using l by (intro unat_of_nat_small) (simp add: STRING_MAX_def)
  ultimately show ?thesis
    using inv l by (simp add: sshbuf_peek_string_direct_eq [OF _ refl] c) (simp add: enc_string_def)
qed

lemma get_string_direct_enc:
  assumes inv: "sshbuf_inv buf" and c: "sshbuf_contents buf = enc_string v @ rest"
    and l: "length v \<le> STRING_MAX"
  shows "\<exists>buf'. sshbuf_get_string_direct buf = (Inr v, buf') \<and> sshbuf_inv buf' \<and>
    sshbuf_contents buf' = rest"
  using sshbuf_get_string_direct_eq(2) [OF inv peek_string_enc [OF assms]] c
  by (auto simp: sshbuf_read_to_def)

section \<open>Big numbers\<close>

text \<open>
  The wire form of a non-negative number given by its big-endian bytes: no leading zeros, and
  one zero byte in front where the top bit would read as a sign.
\<close>

definition mpint :: "byte list \<Rightarrow> byte list" where
  "mpint v = (let s = dropWhile (\<lambda>x. x = 0) v in
     if length s > 0 \<and> s ! 0 AND 0x80 \<noteq> 0 then 0 # s else s)"

lemma length_mpint: "length (mpint v) \<le> Suc (length v)"
  using length_dropWhile_le [of "\<lambda>x. x = 0" v] by (simp add: mpint_def Let_def)

lemma mpint_head: "mpint v \<noteq> [] \<Longrightarrow> mpint v ! 0 AND 0x80 = 0"
  by (auto simp: mpint_def Let_def split: if_splits)

lemma dropWhile_mpint [simp]: "dropWhile (\<lambda>x. x = 0) (mpint v) = dropWhile (\<lambda>x. x = 0) v"
  by (simp add: mpint_def Let_def dropWhile_idem)

lemma sshbuf_put_bignum2_bytes_eq:
  assumes inv: "sshbuf_inv buf" and l: "length v < 2 ^ 64"
  shows "sshbuf_put_bignum2_bytes am buf v =
    (if length v > STRING_MAX - 1 then (Inl SSH_ERR_NO_BUFFER_SPACE, buf)
     else sshbuf_put am buf (enc_string (mpint v)))"
proof (cases "length v > STRING_MAX - 1")
  case True
  with l show ?thesis
    by (simp add: sshbuf_put_bignum2_bytes_def STRING_MAX_def SSHBUF_SIZE_MAX_def word_less_nat_alt
        unat_of_nat_small)
next
  case False
  define s where "s = dropWhile (\<lambda>x. x = 0) v"
  define msb where "msb \<longleftrightarrow> length s > 0 \<and> s ! 0 AND 0x80 \<noteq> 0"
  define pre where "pre = (if msb then 1 else 0 :: size_t)"
  have m: "mpint v = (if msb then 0 # s else s)"
    by (simp add: mpint_def s_def msb_def Let_def)
  have le: "length (mpint v) \<le> STRING_MAX"
    using False length_mpint [of v] by (simp add: STRING_MAX_def)
  have small: "\<not> (of_nat (length v) :: size_t) > SSHBUF_SIZE_MAX - 5"
    using False l by (simp add: STRING_MAX_def SSHBUF_SIZE_MAX_def word_less_nat_alt unat_of_nat_small)
  have pre: "of_nat (length s) + pre = (of_nat (length (mpint v)) :: size_t)"
    by (simp add: m pre_def)
  then have len: "of_nat (length s) + 4 + pre = (of_nat (length (enc_string (mpint v))) :: size_t)"
    by (simp add: algebra_simps)
  have up: "ucast (of_nat (length s) + pre) = (of_nat (length (mpint v)) :: u32)"
    unfolding pre by (simp add: ucast_of_nat_down)
  have fill: "sshbuf_fill (if pre \<noteq> 0 then sshbuf_fill (sshbuf_fill b d x) (d + 4) [0]
        else sshbuf_fill b d x) (d + 4 + pre) s = sshbuf_fill b d (x @ mpint v)"
    if res: "sshbuf_reserve am buf (of_nat (length (enc_string (mpint v)))) = (Inr d, b)" and x: "length x = 4"
    for d b and x :: "byte list"
  proof -
    have "unat (of_nat (length (enc_string (mpint v))) :: size_t) = length (mpint v) + 4"
      using le by (subst unat_of_nat_small) (simp_all add: STRING_MAX_def)
    then have r: "unat d + (length (mpint v) + 4) \<le> length (sb_mem b)" "length (sb_mem b) < 2 ^ 64"
      using sshbuf_reserve_region [OF inv res] by simp_all
    show ?thesis
      using r x sshbuf_fill_fill [of d x "mpint v" b] sshbuf_fill_fill [of d x "[0]" b]
        sshbuf_fill_fill [of d "x @ [0]" s b]
      by (auto simp: m pre_def add.commute add.left_commute)
  qed
  show ?thesis
    using False small fill
    unfolding sshbuf_put_bignum2_bytes_def sshbuf_put_def Let_def s_def [symmetric]
      msb_def [symmetric] pre_def [symmetric] len up
    by (auto simp: enc_string_def split: prod.split sum.split)
qed

lemma get_bignum2_enc:
  assumes inv: "sshbuf_inv buf" and c: "sshbuf_contents buf = enc_string (mpint v) @ rest"
    and l: "length (dropWhile (\<lambda>x. x = 0) v) \<le> 2048"
  shows "\<exists>buf'. sshbuf_get_bignum2_bytes_direct buf = (Inr (dropWhile (\<lambda>x. x = 0) v), buf') \<and>
    sshbuf_inv buf' \<and> sshbuf_contents buf' = rest"
proof -
  have m: "length (mpint v) \<le> 2049" "length (mpint v) = 2049 \<Longrightarrow> mpint v ! 0 = 0"
    using l by (auto simp: mpint_def Let_def split: if_splits)
  then have "length (mpint v) \<le> STRING_MAX" by (simp add: STRING_MAX_def)
  from peek_string_enc [OF inv c this]
  have pk: "sshbuf_peek_string_direct buf = Inr (mpint v)" .
  let ?len = "of_nat (length (mpint v)) :: size_t"
  have ul: "unat ?len = length (mpint v)" using m by (intro unat_of_nat_small) simp
  then have ok: "\<not> (?len > SSHBUF_MAX_BIGNUM + 1 \<or> (?len = SSHBUF_MAX_BIGNUM + 1 \<and> mpint v ! 0 \<noteq> 0))"
    using m by (auto simp: SSHBUF_MAX_BIGNUM_def word_less_nat_alt word_unat_eq_iff)
  have "unat (?len + 4) = length (mpint v) + 4"
    using m ul by (subst unat_plus_no_wrap) simp_all
  with sshbuf_consume_read_to [OF inv, of "?len + 4"] c obtain buf' where
    "sshbuf_consume buf (?len + 4) = (Inr (), buf')" "sshbuf_inv buf'" "sshbuf_contents buf' = rest"
    by (auto simp: sshbuf_read_to_def)
  moreover have "\<not> (length (mpint v) \<noteq> 0 \<and> mpint v ! 0 AND 0x80 \<noteq> 0)"
    using mpint_head [of v] by auto
  ultimately show ?thesis
    using ok by (simp only: sshbuf_get_bignum2_bytes_direct_def Let_def pk sum.case if_False
        prod.case dropWhile_mpint simp_thms ex_simps) simp
qed

section \<open>C strings\<close>

definition nul_only_last :: "byte list \<Rightarrow> bool" where
  "nul_only_last p \<longleftrightarrow> 0 \<notin> set (butlast p)"

lemma memchr0_early:
  "(case memchr0 p of None \<Rightarrow> False | Some z \<Rightarrow> z < length p - 1) \<longleftrightarrow> \<not> nul_only_last p"
proof (cases p rule: rev_cases)
  case Nil
  then show ?thesis by (simp add: memchr0_def nul_only_last_def)
next
  case (snoc q x)
  have "length (takeWhile (\<lambda>x. x \<noteq> 0) (q @ [x])) < length q \<longleftrightarrow> 0 \<in> set q"
  proof (cases "0 \<in> set q")
    case True
    then obtain a b where q: "q = a @ 0 # b" "0 \<notin> set a" by (metis split_list_first)
    then have "takeWhile (\<lambda>x. x \<noteq> 0) (q @ [x]) = a"
      by (auto simp: takeWhile_tail takeWhile_eq_all_conv)
    with q show ?thesis by simp
  next
    case False
    then have "takeWhile (\<lambda>x. x \<noteq> 0) (q @ [x]) = q @ takeWhile (\<lambda>x. x \<noteq> 0) [x]"
      by (intro takeWhile_append2) auto
    with False show ?thesis by simp
  qed
  with snoc show ?thesis
    by (auto simp: memchr0_def nul_only_last_def)
qed

lemma sshbuf_get_cstring_eq:
  assumes inv: "sshbuf_inv buf"
  shows "sshbuf_peek_string_direct buf = Inl r \<Longrightarrow> sshbuf_get_cstring am buf = (Inl r, buf)"
    and "sshbuf_peek_string_direct buf = Inr v \<Longrightarrow> \<not> nul_only_last v \<Longrightarrow>
      sshbuf_get_cstring am buf = (Inl SSH_ERR_INVALID_FORMAT, buf)"
    and "sshbuf_peek_string_direct buf = Inr v \<Longrightarrow> nul_only_last v \<Longrightarrow>
      \<exists>buf'. sshbuf_get_cstring am buf =
          (if am (of_nat (length v) + 1) = NULL then Inl SSH_ERR_ALLOC_FAIL else Inr v, buf') \<and>
        sshbuf_read_to buf (length v + 4) buf'"
  using sshbuf_get_string_direct_eq(2) [OF inv]
  by (fastforce simp: sshbuf_get_cstring_def memchr0_early)+

section \<open>Offsets\<close>

text \<open>
  The bounds test of the peek and poke operations accepts exactly the offsets whose field lies
  in the buffer; a sum that would wrap around is refused as an argument error.
\<close>

lemma check_offset_eq:
  assumes inv: "sshbuf_inv buf" and p: "sshbuf_ptr buf \<noteq> NULL"
  shows "check_offset buf wr offset len =
    (if unat offset + unat len \<ge> 2 ^ 64 - 1 then Inl SSH_ERR_INVALID_ARGUMENT
     else if unat offset + unat len > length (sshbuf_contents buf)
     then Inl (if wr then SSH_ERR_NO_BUFFER_SPACE else SSH_ERR_MESSAGE_INCOMPLETE)
     else Inr ())"
proof -
  have "unat (SIZE_MAX - len) = 2 ^ 64 - 1 - unat len"
    using unat_less_2p [of len] by (subst unat_sub) (simp_all add: SIZE_MAX_def word_le_nat_alt)
  then have big: "offset \<ge> SIZE_MAX - len \<longleftrightarrow> unat offset + unat len \<ge> 2 ^ 64 - 1"
    using unat_less_2p [of len] by (auto simp: word_le_nat_alt)
  have "unat (offset + len) = unat offset + unat len" if "\<not> offset \<ge> SIZE_MAX - len"
    using that big by (intro unat_plus_no_wrap) simp
  with p inv big show ?thesis
    by (auto simp: check_offset_def word_less_nat_alt)
qed

lemma check_roffset_eq:
  assumes inv: "sshbuf_inv buf" and r: "check_roffset buf offset len = Inr i"
  shows "unat offset + unat len \<le> length (sshbuf_contents buf)"
    and "mem_read (sb_mem buf) (unat i) (unat len) =
      take (unat len) (drop (unat offset) (sshbuf_contents buf))"
proof -
  from r have p: "sshbuf_ptr buf \<noteq> NULL"
    and ok: "check_offset buf False offset len = Inr ()" and i: "i = sb_off buf + offset"
    by (auto simp: check_roffset_def check_offset_def split: if_splits)
  show le: "unat offset + unat len \<le> length (sshbuf_contents buf)"
    using ok by (simp add: check_offset_eq [OF inv p] split: if_splits)
  then have "unat i = unat (sb_off buf) + unat offset"
    unfolding i using sshbuf_inv_bounds [OF inv]
    by (intro unat_plus_no_wrap) (simp add: length_contents [OF inv])
  with le show "mem_read (sb_mem buf) (unat i) (unat len) =
      take (unat len) (drop (unat offset) (sshbuf_contents buf))"
    by (simp add: contents_middle)
qed

text \<open>A poke replaces exactly the bytes at the offset and nothing else.\<close>

lemma sshbuf_poke_ok:
  assumes inv: "sshbuf_inv buf" and l: "length v < 2 ^ 64"
    and r: "sshbuf_poke buf offset v = (Inr u, buf')"
  shows "sshbuf_inv buf'"
    and "sshbuf_contents buf' = take (unat offset) (sshbuf_contents buf) @ v @
      drop (unat offset + length v) (sshbuf_contents buf)"
    and "sshbuf_writable buf"
    and "unat offset + length v \<le> length (sshbuf_contents buf)"
proof -
  have ul: "unat (of_nat (length v) :: size_t) = length v"
    using l by (intro unat_of_nat_small) simp
  from r obtain i where w: "check_woffset buf offset (of_nat (length v)) = Inr i"
    and b': "buf' = sshbuf_fill buf i v"
    by (auto simp: sshbuf_poke_def split: sum.splits)
  then have p: "sshbuf_ptr buf \<noteq> NULL"
    and ok: "check_offset buf True offset (of_nat (length v)) = Inr ()"
    and i: "i = sb_off buf + offset" and mp: "sshbuf_mutable_ptr buf \<noteq> NULL"
    by (auto simp: check_woffset_def check_offset_def split: if_splits)
  from mp inv show "sshbuf_writable buf"
    by (auto simp: sshbuf_mutable_ptr_def sshbuf_writable_def split: if_splits)
  show le: "unat offset + length v \<le> length (sshbuf_contents buf)"
    using ok by (simp add: check_offset_eq [OF inv p] ul split: if_splits)
  note bd = sshbuf_inv_bounds [OF inv]
  have sz: "unat (sb_off buf) + unat offset + length v \<le> unat (sb_size buf)"
    using le bd by (simp add: length_contents [OF inv])
  have ui: "unat i = unat (sb_off buf) + unat offset"
    unfolding i using sz bd by (intro unat_plus_no_wrap) simp
  show "sshbuf_inv buf'"
    using inv sz bd by (simp add: sshbuf_inv_iff b' sshbuf_fill_def ui)
  have "sshbuf_contents buf' =
      mem_read (mem_write (sb_mem buf) (unat (sb_off buf) + unat offset) v) (unat (sb_off buf))
        (unat offset + (length v + (unat (sb_size buf) - unat (sb_off buf) - unat offset - length v)))"
    using sz by (simp add: sshbuf_contents_def b' sshbuf_fill_def ui)
  also have "\<dots> = mem_read (sb_mem buf) (unat (sb_off buf)) (unat offset) @ v @
      mem_read (sb_mem buf) (unat (sb_off buf) + unat offset + length v)
        (unat (sb_size buf) - unat (sb_off buf) - unat offset - length v)"
    unfolding mem_read_append using sz bd
    by (simp add: mem_read_write_before mem_read_write_after)
  also have "mem_read (sb_mem buf) (unat (sb_off buf)) (unat offset) =
      take (unat offset) (sshbuf_contents buf)"
    using le by (simp add: contents_front)
  also have "mem_read (sb_mem buf) (unat (sb_off buf) + unat offset + length v)
        (unat (sb_size buf) - unat (sb_off buf) - unat offset - length v) =
      drop (unat offset + length v) (sshbuf_contents buf)"
    by (simp add: sshbuf_contents_def mem_read_drop add.assoc)
  finally show "sshbuf_contents buf' = take (unat offset) (sshbuf_contents buf) @ v @
      drop (unat offset + length v) (sshbuf_contents buf)" .
qed

lemma sshbuf_poke_int_eq:
  "sshbuf_poke_u64 buf offset v8 = sshbuf_poke buf offset (POKE_U64 v8)"
  "sshbuf_poke_u32 buf offset v4 = sshbuf_poke buf offset (POKE_U32 v4)"
  "sshbuf_poke_u16 buf offset v2 = sshbuf_poke buf offset (POKE_U16 v2)"
  "sshbuf_poke_u8 buf offset v1 = sshbuf_poke buf offset [v1]"
  by (simp_all add: sshbuf_poke_u64_def sshbuf_poke_u32_def sshbuf_poke_u16_def
      sshbuf_poke_u8_def sshbuf_poke_def)

section \<open>The contract of a wire buffer\<close>

text \<open>Writing a list of items and reading a list of items, stopping at the first error.\<close>

fun put_all :: "('b \<Rightarrow> 'v \<Rightarrow> unit res \<times> 'b) \<Rightarrow> 'b \<Rightarrow> 'v list \<Rightarrow> unit res \<times> 'b" where
  "put_all put b [] = (Inr (), b)"
| "put_all put b (v # vs) =
     (case put b v of (Inl r, b1) \<Rightarrow> (Inl r, b1) | (Inr _, b1) \<Rightarrow> put_all put b1 vs)"

fun get_all :: "('b \<Rightarrow> 'k \<Rightarrow> 'v res \<times> 'b) \<Rightarrow> 'b \<Rightarrow> 'k list \<Rightarrow> 'v list res \<times> 'b" where
  "get_all get b [] = (Inr [], b)"
| "get_all get b (k # ks) =
     (case get b k of
        (Inl r, b1) \<Rightarrow> (Inl r, b1)
      | (Inr v, b1) \<Rightarrow>
          (case get_all get b1 ks of
             (Inl r, b2) \<Rightarrow> (Inl r, b2)
           | (Inr vs, b2) \<Rightarrow> (Inr (v # vs), b2)))"

text \<open>
  What a client of a buffer relies on: a write that succeeds appends the wire form of the
  item, one that fails leaves the bytes alone, and a read of an item's kind at the front gives
  the item back and removes exactly its wire form.
\<close>

locale wire_codec =
  fixes inv :: "'b \<Rightarrow> bool"
    and bytes :: "'b \<Rightarrow> byte list"
    and put :: "'b \<Rightarrow> 'v \<Rightarrow> unit res \<times> 'b"
    and get :: "'b \<Rightarrow> 'k \<Rightarrow> 'v res \<times> 'b"
    and kind :: "'v \<Rightarrow> 'k"
    and enc :: "'v \<Rightarrow> byte list"
    and valid :: "'v \<Rightarrow> bool"
  assumes put_ok: "inv b \<Longrightarrow> valid v \<Longrightarrow> put b v = (Inr u, b') \<Longrightarrow> inv b' \<and> bytes b' = bytes b @ enc v"
    and put_err: "inv b \<Longrightarrow> valid v \<Longrightarrow> put b v = (Inl r, b') \<Longrightarrow> inv b' \<and> bytes b' = bytes b"
    and get_ok: "inv b \<Longrightarrow> valid v \<Longrightarrow> bytes b = enc v @ rest \<Longrightarrow>
      \<exists>b'. get b (kind v) = (Inr v, b') \<and> inv b' \<and> bytes b' = rest"
begin

lemma put_all_ok:
  "inv b \<Longrightarrow> list_all valid vs \<Longrightarrow> put_all put b vs = (Inr u, b') \<Longrightarrow>
     inv b' \<and> bytes b' = bytes b @ concat (map enc vs)"
proof (induction vs arbitrary: b)
  case (Cons v vs)
  then obtain b1 where "put b v = (Inr (), b1)" "put_all put b1 vs = (Inr u, b')"
    by (auto split: prod.splits sum.splits)
  with Cons put_ok [of b v] show ?case by auto
qed simp

text \<open>A write that fails part way leaves the wire forms of the items before the failing one.\<close>

lemma put_all_err:
  "inv b \<Longrightarrow> list_all valid vs \<Longrightarrow> put_all put b vs = (Inl r, b') \<Longrightarrow>
     inv b' \<and> (\<exists>k < length vs. bytes b' = bytes b @ concat (map enc (take k vs)))"
proof (induction vs arbitrary: b)
  case (Cons v vs)
  show ?case
  proof (cases "put b v")
    case (Pair r1 b1)
    show ?thesis
    proof (cases r1)
      case (Inl e)
      with Pair Cons.prems put_err [of b v e b1] show ?thesis by auto
    next
      case (Inr u)
      with Pair Cons.prems put_ok [of b v u b1] Cons.IH [of b1] obtain k where
        "inv b'" "k < length vs" "bytes b' = bytes b @ concat (map enc (take (Suc k) (v # vs)))"
        by auto
      then show ?thesis by (intro conjI exI [of _ "Suc k"]) simp_all
    qed
  qed
qed simp

lemma get_all_ok:
  "inv b \<Longrightarrow> list_all valid vs \<Longrightarrow> bytes b = concat (map enc vs) @ rest \<Longrightarrow>
     \<exists>b'. get_all get b (map kind vs) = (Inr vs, b') \<and> inv b' \<and> bytes b' = rest"
proof (induction vs arbitrary: b)
  case (Cons v vs)
  then have "bytes b = enc v @ (concat (map enc vs) @ rest)" by simp
  with Cons.prems get_ok [of b v] obtain b1 where
    "get b (kind v) = (Inr v, b1)" "inv b1" "bytes b1 = concat (map enc vs) @ rest" by auto
  with Cons show ?case by fastforce
qed simp

text \<open>What was written is what is read, in the same order, and earlier bytes come out first.\<close>

lemma round_trip:
  assumes "inv b" "list_all valid vs" "put_all put b vs = (Inr u, b')" "bytes b = []"
  shows "\<exists>b''. get_all get b' (map kind vs) = (Inr vs, b'') \<and> inv b'' \<and> bytes b'' = []"
  using put_all_ok [OF assms(1-3)] get_all_ok [of b' vs "[]"] assms(2,4) by simp

end

text \<open>Raw bytes: the kind of a chunk is its length.\<close>

interpretation raw: wire_codec sshbuf_inv sshbuf_contents "sshbuf_put am" sshbuf_get
  "\<lambda>v. of_nat (length v)" "\<lambda>v. v" "\<lambda>v. length v < 2 ^ 64" for am
proof
  fix b v rest assume b: "sshbuf_inv b" "length v < 2 ^ 64" "sshbuf_contents b = v @ rest"
  have "unat (of_nat (length v) :: size_t) = length v"
    using b(2) by (intro unat_of_nat_small) simp
  with sshbuf_get_eq(1) [OF b(1), of "of_nat (length v)"] b(3)
  show "\<exists>b'. sshbuf_get b (of_nat (length v)) = (Inr v, b') \<and> sshbuf_inv b' \<and> sshbuf_contents b' = rest"
    by (auto simp: sshbuf_read_to_def)
qed (auto dest: sshbuf_put_ok sshbuf_put_error)

text \<open>Typed fields of a message, each written and read by its own operation.\<close>

datatype wire_field = F8 byte | F16 u16 | F32 u32 | F64 u64 | FString "byte list" | FMpint "byte list"

datatype wire_kind = K8 | K16 | K32 | K64 | KString | KMpint

fun field_kind :: "wire_field \<Rightarrow> wire_kind" where
  "field_kind (F8 _) = K8"
| "field_kind (F16 _) = K16"
| "field_kind (F32 _) = K32"
| "field_kind (F64 _) = K64"
| "field_kind (FString _) = KString"
| "field_kind (FMpint _) = KMpint"

fun put_field :: "allocator \<Rightarrow> sshbuf \<Rightarrow> wire_field \<Rightarrow> unit res \<times> sshbuf" where
  "put_field am b (F8 v) = sshbuf_put_u8 am b v"
| "put_field am b (F16 v) = sshbuf_put_u16 am b v"
| "put_field am b (F32 v) = sshbuf_put_u32 am b v"
| "put_field am b (F64 v) = sshbuf_put_u64 am b v"
| "put_field am b (FString v) = sshbuf_put_string am b v"
| "put_field am b (FMpint v) = sshbuf_put_bignum2_bytes am b v"

fun get_field :: "sshbuf \<Rightarrow> wire_kind \<Rightarrow> wire_field res \<times> sshbuf" where
  "get_field b K8 = apfst (map_sum id F8) (sshbuf_get_u8 b)"
| "get_field b K16 = apfst (map_sum id F16) (sshbuf_get_u16 b)"
| "get_field b K32 = apfst (map_sum id F32) (sshbuf_get_u32 b)"
| "get_field b K64 = apfst (map_sum id F64) (sshbuf_get_u64 b)"
| "get_field b KString = apfst (map_sum id FString) (sshbuf_get_string_direct b)"
| "get_field b KMpint = apfst (map_sum id FMpint) (sshbuf_get_bignum2_bytes_direct b)"

text \<open>A number field is canonical: no leading zero byte, and at most 16384 bits.\<close>

fun field_valid :: "wire_field \<Rightarrow> bool" where
  "field_valid (FString v) = (length v < 2 ^ 64)"
| "field_valid (FMpint v) = (length v \<le> 2048 \<and> dropWhile (\<lambda>x. x = 0) v = v)"
| "field_valid _ = True"

fun enc_field :: "wire_field \<Rightarrow> byte list" where
  "enc_field (F8 v) = [v]"
| "enc_field (F16 v) = POKE_U16 v"
| "enc_field (F32 v) = POKE_U32 v"
| "enc_field (F64 v) = POKE_U64 v"
| "enc_field (FString v) = enc_string v"
| "enc_field (FMpint v) = enc_string (mpint v)"

lemma put_field_eq:
  assumes "sshbuf_inv b" "field_valid f"
  shows "put_field am b f =
    (if length (enc_field f) > STRING_MAX + 4 then (Inl SSH_ERR_NO_BUFFER_SPACE, b)
     else sshbuf_put am b (enc_field f))"
proof (cases f)
  case (FMpint v)
  with assms length_mpint [of v] show ?thesis
    by (simp add: sshbuf_put_bignum2_bytes_eq STRING_MAX_def)
qed (use assms in \<open>simp_all add: sshbuf_put_int_eq sshbuf_put_string_eq STRING_MAX_def\<close>)

lemma get_raw_front:
  assumes "sshbuf_inv b" "sshbuf_contents b = v @ rest" "unat n = length v"
  shows "\<exists>b'. sshbuf_get b n = (Inr v, b') \<and> sshbuf_inv b' \<and> sshbuf_contents b' = rest"
  using sshbuf_get_eq(1) [OF assms(1), of n] assms(2,3) by (auto simp: sshbuf_read_to_def)

lemma get_field_front:
  assumes inv: "sshbuf_inv b" and f: "field_valid f" and c: "sshbuf_contents b = enc_field f @ rest"
  shows "\<exists>b'. get_field b (field_kind f) = (Inr f, b') \<and> sshbuf_inv b' \<and> sshbuf_contents b' = rest"
proof -
  have max: "length (sshbuf_contents b) \<le> STRING_MAX + 4"
    using length_contents_le_max [OF inv] sshbuf_inv_bounds(4) [OF inv] by (simp add: STRING_MAX_def)
  show ?thesis
  proof (cases f)
    case (F8 v)
    with get_raw_front [OF inv, of "[v]" rest 1] c show ?thesis
      by (auto simp: sshbuf_get_int_eq [OF inv])
  next
    case (F16 v)
    with get_raw_front [OF inv, of "POKE_U16 v" rest 2] c show ?thesis
      by (auto simp: sshbuf_get_int_eq [OF inv])
  next
    case (F32 v)
    with get_raw_front [OF inv, of "POKE_U32 v" rest 4] c show ?thesis
      by (auto simp: sshbuf_get_int_eq [OF inv])
  next
    case (F64 v)
    with get_raw_front [OF inv, of "POKE_U64 v" rest 8] c show ?thesis
      by (auto simp: sshbuf_get_int_eq [OF inv])
  next
    case (FString v)
    with get_string_direct_enc [OF inv, of v rest] c max show ?thesis by auto
  next
    case (FMpint v)
    with get_bignum2_enc [OF inv, of v rest] c f show ?thesis by auto
  qed
qed

interpretation fld: wire_codec sshbuf_inv sshbuf_contents "put_field am" get_field
  field_kind enc_field field_valid for am
proof
  fix b f u b' assume b: "sshbuf_inv b" "field_valid f" "put_field am b f = (Inr u, b')"
  then have "sshbuf_put am b (enc_field f) = (Inr u, b')" "length (enc_field f) \<le> STRING_MAX + 4"
    by (simp_all add: put_field_eq split: if_splits)
  with b(1) show "sshbuf_inv b' \<and> sshbuf_contents b' = sshbuf_contents b @ enc_field f"
    using sshbuf_put_ok [of b am "enc_field f" u b'] by (simp add: STRING_MAX_def)
next
  fix b f r b' assume b: "sshbuf_inv b" "field_valid f" "put_field am b f = (Inl r, b')"
  then show "sshbuf_inv b' \<and> sshbuf_contents b' = sshbuf_contents b"
    by (auto simp: put_field_eq dest: sshbuf_put_error split: if_splits)
qed (rule get_field_front)

section \<open>Nested strings and formatted text\<close>

lemma sshbuf_get_stringb_ok:
  assumes inv: "sshbuf_inv buf" "sshbuf_inv v"
    and c: "sshbuf_contents buf = enc_string s @ rest" and l: "length s \<le> STRING_MAX"
    and res: "sshbuf_get_stringb am buf v = (r, buf', v')"
  shows "sshbuf_inv buf' \<and> sshbuf_inv v' \<and>
    (case r of
       Inr _ \<Rightarrow> sshbuf_contents buf' = rest \<and> sshbuf_contents v' = sshbuf_contents v @ s
     | Inl _ \<Rightarrow> sshbuf_contents buf' = s @ rest \<and> sshbuf_contents v' = sshbuf_contents v)"
proof -
  note pk = peek_string_enc [OF inv(1) c l]
  from get_raw_front [OF inv(1), of "POKE_U32 (of_nat (length s))" "s @ rest" 4] c
  obtain b1 where b1: "sshbuf_get_u32 buf = (Inr (of_nat (length s)), b1)" "sshbuf_inv b1"
    "sshbuf_contents b1 = s @ rest"
    by (auto simp: enc_string_def sshbuf_get_int_eq [OF inv(1)])
  have n: "unat (ucast (of_nat (length s) :: u32) :: size_t) = length s"
    using l by (simp add: unat_ucast_up unat_of_nat_small STRING_MAX_def)
  show ?thesis
  proof (cases "sshbuf_reserve am v (ucast (of_nat (length s) :: u32))")
    case (Pair q v1)
    show ?thesis
    proof (cases q)
      case (Inl e)
      with res pk b1 Pair sshbuf_reserve_error [OF inv(2)] show ?thesis
        by (auto simp: sshbuf_get_stringb_def)
    next
      case (Inr i)
      from get_raw_front [OF b1(2,3) n] obtain b2 where
        "sshbuf_get b1 (ucast (of_nat (length s) :: u32)) = (Inr s, b2)" "sshbuf_inv b2"
        "sshbuf_contents b2 = rest" by blast
      with res pk b1 Pair Inr sshbuf_reserve_ok(1,2) [OF inv(2) Pair [unfolded Inr], of s] n
      show ?thesis by (auto simp: sshbuf_get_stringb_def)
    qed
  qed
qed

lemma sshbuf_putfv_ok:
  assumes inv: "sshbuf_inv buf" and l: "length s < 2 ^ 64 - 1"
    and res: "sshbuf_putfv am buf (Some s) = (r, buf')"
  shows "sshbuf_inv buf' \<and>
    sshbuf_contents buf' = (case r of Inr _ \<Rightarrow> sshbuf_contents buf @ s | Inl _ \<Rightarrow> sshbuf_contents buf)"
proof (cases "s = []")
  case True
  with res inv show ?thesis by (auto simp: sshbuf_putfv_def)
next
  case False
  have n: "unat (of_nat (length s) + 1 :: size_t) = Suc (length s)"
    using l by (subst unat_plus_no_wrap) (simp_all add: unat_of_nat_small)
  show ?thesis
  proof (cases "sshbuf_reserve am buf (of_nat (length s) + 1)")
    case (Pair q b)
    show ?thesis
    proof (cases q)
      case (Inl e)
      with res False Pair sshbuf_reserve_error [OF inv] show ?thesis
        by (auto simp: sshbuf_putfv_def)
    next
      case (Inr i)
      note ok = sshbuf_reserve_ok [OF inv Pair [unfolded Inr], of "s @ [0]"]
      have "\<exists>b'. sshbuf_consume_end (sshbuf_fill b i (s @ [0])) 1 = (Inr (), b') \<and> sshbuf_inv b' \<and>
          sshbuf_contents b' = sshbuf_contents buf @ s"
        using sshbuf_consume_end_eq(2) [of "sshbuf_fill b i (s @ [0])" 1] ok n by auto
      with res False Pair Inr show ?thesis by (auto simp: sshbuf_putfv_def)
    qed
  qed
qed

end
