(* ===== verification/Sshbuf_Refs.thy ===== *)
theory Sshbuf_Refs
  imports Sshbuf_GetPut
begin

text \<open>
  Programs over many buffers: callers create buffers, write, read and reset them, derive read-only
  children from them and free their handles, in any order. The runs are a step relation on the
  store together with the number of handles the callers hold; every reachable store is
  consistent in the sense of \<^const>\<open>store_ok\<close>. Two things are excluded from the runs, since the code
  does not survive them: resetting a writable buffer whose limit is below the initial size of
  256 bytes, after which it fails the sanity test, and deriving a child from a buffer that already has
  the largest number of references that the test admits.
\<close>

section \<open>Operations that stay inside one buffer\<close>

lemma sshbuf_maybe_pack_links [simp]:
  "sb_parent (sshbuf_maybe_pack buf force) = sb_parent buf"
  "sb_refcount (sshbuf_maybe_pack buf force) = sb_refcount buf"
  by (simp_all add: sshbuf_maybe_pack_def)

lemma sshbuf_reserve_links:
  "sshbuf_reserve am buf len = (r, buf') \<Longrightarrow>
     sb_parent buf' = sb_parent buf \<and> sb_refcount buf' = sb_refcount buf"
  by (auto simp: sshbuf_reserve_def sshbuf_allocate_def Let_def
      split: sum.splits if_splits prod.splits)

lemma sshbuf_put_links:
  "sshbuf_put am buf v = (r, buf') \<Longrightarrow>
     sb_parent buf' = sb_parent buf \<and> sb_refcount buf' = sb_refcount buf"
  by (auto simp: sshbuf_put_def sshbuf_fill_def split: sum.splits prod.splits
      dest: sshbuf_reserve_links)

lemma sshbuf_consume_links:
  "sshbuf_consume buf len = (r, buf') \<Longrightarrow>
     sb_parent buf' = sb_parent buf \<and> sb_refcount buf' = sb_refcount buf"
  by (auto simp: sshbuf_consume_def Let_def split: sum.splits if_splits)

lemma sshbuf_consume_end_links:
  "sshbuf_consume_end buf len = (r, buf') \<Longrightarrow>
     sb_parent buf' = sb_parent buf \<and> sb_refcount buf' = sb_refcount buf"
  by (auto simp: sshbuf_consume_end_def split: sum.splits if_splits)

lemma sshbuf_set_max_size_links:
  "sshbuf_set_max_size am buf len = (r, buf') \<Longrightarrow>
     sb_parent buf' = sb_parent buf \<and> sb_refcount buf' = sb_refcount buf"
  by (auto simp: sshbuf_set_max_size_def Let_def split: sum.splits if_splits)

lemma store_ok_modify:
  assumes ok: "store_ok st own" and b: "store_get st i = Some b"
    and b': "sshbuf_inv b'" "sb_parent b' = sb_parent b" "sb_refcount b' = sb_refcount b"
  shows "store_ok (st[i := Some b']) own"
proof -
  have ch: "buf_children (st[i := Some b']) k = buf_children st k" for k
    using b b'(2) by (rule buf_children_update_keep)
  have [simp]: "i < length st" using b by (rule store_get_Some_less)
  show ?thesis
    using ok b b' unfolding store_ok_def ch by (auto simp: store_get_update)
qed

lemma sshbuf_put_inv:
  "sshbuf_inv b \<Longrightarrow> length v < 2 ^ 64 \<Longrightarrow> sshbuf_put am b v = (r, b') \<Longrightarrow> sshbuf_inv b'"
  by (cases r) (auto dest: sshbuf_put_ok sshbuf_put_error)

lemma sshbuf_consume_inv: "sshbuf_inv b \<Longrightarrow> sshbuf_consume b len = (r, b') \<Longrightarrow> sshbuf_inv b'"
  using sshbuf_consume_eq [of b len] by (cases "unat len \<le> length (sshbuf_contents b)") auto

lemma sshbuf_consume_end_inv: "sshbuf_inv b \<Longrightarrow> sshbuf_consume_end b len = (r, b') \<Longrightarrow> sshbuf_inv b'"
  using sshbuf_consume_end_eq [of b len] by (cases "unat len \<le> length (sshbuf_contents b)") auto

lemma sshbuf_reset_links:
  "sb_parent (sshbuf_reset am b) = sb_parent b" "sb_refcount (sshbuf_reset am b) = sb_refcount b"
  by (simp_all add: sshbuf_reset_def Let_def split: sum.split)

text \<open>A buffer that keeps the sanity test when it is reset.\<close>

definition reset_safe :: "sshbuf \<Rightarrow> bool" where
  "reset_safe b \<longleftrightarrow> (sshbuf_writable b \<longrightarrow> SSHBUF_SIZE_INIT \<le> sb_max_size b)"

lemma sshbuf_reset_inv: "sshbuf_inv b \<Longrightarrow> reset_safe b \<Longrightarrow> sshbuf_inv (sshbuf_reset am b)"
  using sshbuf_reset_writable(1) [of b am] sshbuf_reset_shared [of b am] by (auto simp: reset_safe_def)

lemma sshbuf_reserve_inv:
  assumes "sshbuf_inv b" "sshbuf_reserve am b len = (r, b')"
  shows "sshbuf_inv b'"
proof (cases r)
  case (Inl e)
  then show ?thesis using sshbuf_reserve_error(1) [OF assms(1)] assms(2) by blast
next
  case (Inr i)
  then obtain b1 where al: "sshbuf_allocate am b len = (Inr (), b1)" and b': "b' = b1\<lparr>sb_size := sb_size b1 + len\<rparr>"
    using assms(2) by (auto simp: sshbuf_reserve_def split: prod.splits sum.splits)
  have ok: "sshbuf_inv b1" "unat (sb_size b1) + unat len \<le> unat (sb_alloc b1)"
    by (cases rule: sshbuf_allocate_cases [OF assms(1) al]; simp)+
  note bd = sshbuf_inv_bounds [OF ok(1)]
  have "unat (sb_size b1 + len) = unat (sb_size b1) + unat len"
    using ok(2) bd by (intro unat_plus_no_wrap) simp
  then show ?thesis using ok bd by (auto simp: sshbuf_inv_iff b')
qed

section \<open>Children made from a string\<close>

lemma sshbuf_froms_ok:
  assumes ok: "store_ok st own" and b: "store_get st i = Some b"
    and few: "unat (sb_refcount b) < 0x100000"
    and res: "sshbuf_froms am st i = (r, st')"
  shows "case r of
      Inl _ \<Rightarrow> st' = st
    | Inr c \<Rightarrow> c = length st \<and> store_ok st' (own(c := 1)) \<and>
        (\<exists>bc v. store_get st' c = Some bc \<and> sb_parent bc = Some i \<and> \<not> sshbuf_writable bc \<and>
              sshbuf_peek_string_direct b = Inr v \<and> sshbuf_contents bc = v)"
proof -
  note inv = store_okD(1) [OF ok b]
  have i: "i < length st" using b by (rule store_get_Some_less)
  show ?thesis
  proof (cases "sshbuf_peek_string_direct b")
    case (Inl e)
    with res b show ?thesis by (auto simp: sshbuf_froms_def)
  next
    case (Inr v)
    note vl = peek_string_length [OF inv Inr]
    have nv: "unat (of_nat (length v) :: size_t) = length v"
      using vl by (intro unat_of_nat_small) (simp add: STRING_MAX_def)
    show ?thesis
    proof (cases "sshbuf_from am (sb_cd b + sb_off b + 4) v (of_nat (length v))")
      case None
      with res b Inr show ?thesis by (auto simp: sshbuf_froms_def)
    next
      case (Some bc)
      have "unat (of_nat (length v) :: size_t) \<le> length v" by (simp add: nv)
      note new = sshbuf_from_ok [OF Some this]
      have "unat (of_nat (length v) + 4 :: size_t) = length v + 4"
        using vl by (simp add: unat_of_nat_string)
      with sshbuf_consume_read_to [OF inv, of "of_nat (length v) + 4"] vl
      obtain b1 where b1: "sshbuf_consume b (of_nat (length v) + 4) = (Inr (), b1)" "sshbuf_inv b1"
        by (auto simp: sshbuf_read_to_def)
      note b1l = sshbuf_consume_links [OF b1(1)]
      let ?st2 = "(st @ [Some bc])[i := Some b1]"
      have ok2: "store_ok ?st2 (own(length st := 1))"
        by (rule store_ok_modify [OF store_ok_new [OF ok new(1,4,5)] _ b1(2)])
          (use i b b1l in \<open>simp_all add: store_get_append\<close>)
      have c: "store_get ?st2 (length st) = Some bc" and p: "store_get ?st2 i = Some b1"
        using i by (simp_all add: store_get_update store_get_append)
      have few1: "unat (sb_refcount b1) < 0x100000" using few b1l by simp
      from sshbuf_set_parent_ok [OF ok2 c new(4) p i few1] obtain st3 where
        st3: "sshbuf_set_parent ?st2 (length st) i = (Inr (), st3)" "store_ok st3 (own(length st := 1))"
        "store_get st3 (length st) = Some (bc\<lparr>sb_parent := Some i\<rparr>)" by blast
      have "sshbuf_contents (bc\<lparr>sb_parent := Some i\<rparr>) = v"
        "\<not> sshbuf_writable (bc\<lparr>sb_parent := Some i\<rparr>)"
        using new(2,3) nv by (simp_all add: sshbuf_contents_def sshbuf_writable_def)
      moreover have "r = Inr (length st)" "st' = st3"
        using res b Inr Some b1 st3(1) by (simp_all add: sshbuf_froms_def Let_def)
      ultimately show ?thesis using st3 Inr by simp
    qed
  qed
qed

section \<open>Runs\<close>

inductive buf_run :: "bufstore \<Rightarrow> (nat \<Rightarrow> nat) \<Rightarrow> bool" where
  start: "buf_run [] (\<lambda>_. 0)"
| new: "buf_run st own \<Longrightarrow> sshbuf_new am = Some b \<Longrightarrow> buf_run (st @ [Some b]) (own(length st := 1))"
| from_blob: "buf_run st own \<Longrightarrow> sshbuf_from am blob m len = Some b \<Longrightarrow> unat len \<le> length m \<Longrightarrow>
    buf_run (st @ [Some b]) (own(length st := 1))"
| put: "buf_run st own \<Longrightarrow> store_get st i = Some b \<Longrightarrow> length v < 2 ^ 64 \<Longrightarrow>
    sshbuf_put am b v = (r, b') \<Longrightarrow> buf_run (st[i := Some b']) own"
| reserve: "buf_run st own \<Longrightarrow> store_get st i = Some b \<Longrightarrow>
    sshbuf_reserve am b len = (r, b') \<Longrightarrow> buf_run (st[i := Some b']) own"
| reset: "buf_run st own \<Longrightarrow> store_get st i = Some b \<Longrightarrow> reset_safe b \<Longrightarrow>
    buf_run (st[i := Some (sshbuf_reset am b)]) own"
| consume: "buf_run st own \<Longrightarrow> store_get st i = Some b \<Longrightarrow>
    sshbuf_consume b len = (r, b') \<Longrightarrow> buf_run (st[i := Some b']) own"
| consume_end: "buf_run st own \<Longrightarrow> store_get st i = Some b \<Longrightarrow>
    sshbuf_consume_end b len = (r, b') \<Longrightarrow> buf_run (st[i := Some b']) own"
| set_max: "buf_run st own \<Longrightarrow> store_get st i = Some b \<Longrightarrow>
    sshbuf_set_max_size am b len = (r, b') \<Longrightarrow> buf_run (st[i := Some b']) own"
| fromb: "buf_run st own \<Longrightarrow> store_get st i = Some b \<Longrightarrow> unat (sb_refcount b) < 0x100000 \<Longrightarrow>
    sshbuf_fromb am st i = (Some c, st') \<Longrightarrow> buf_run st' (own(c := 1))"
| froms: "buf_run st own \<Longrightarrow> store_get st i = Some b \<Longrightarrow> unat (sb_refcount b) < 0x100000 \<Longrightarrow>
    sshbuf_froms am st i = (Inr c, st') \<Longrightarrow> buf_run st' (own(c := 1))"
| fromb_fails: "buf_run st own \<Longrightarrow> store_get st i = Some b \<Longrightarrow> unat (sb_refcount b) < 0x100000 \<Longrightarrow>
    sshbuf_fromb am st i = (None, st') \<Longrightarrow> buf_run st' own"
| froms_fails: "buf_run st own \<Longrightarrow> store_get st i = Some b \<Longrightarrow> unat (sb_refcount b) < 0x100000 \<Longrightarrow>
    sshbuf_froms am st i = (Inl e, st') \<Longrightarrow> buf_run st' own"
| free: "buf_run st own \<Longrightarrow> 0 < own i \<Longrightarrow> buf_run (sshbuf_free st i) (own(i := own i - 1))"

lemma store_ok_Nil: "store_ok [] (\<lambda>_. 0)"
  by (simp add: store_ok_def store_get_def)

lemma buf_run_ok: "buf_run st own \<Longrightarrow> store_ok st own"
proof (induction rule: buf_run.induct)
  case start
  show ?case by (rule store_ok_Nil)
next
  case (new st own am b)
  then show ?case using sshbuf_new_ok [of am b] by (intro store_ok_new) auto
next
  case (from_blob st own am blob m len b)
  then show ?case using sshbuf_from_ok [of am blob m len b] by (intro store_ok_new) auto
next
  case (put st own i b v am r b')
  then show ?case
    using sshbuf_put_links [of am b v r b'] sshbuf_put_inv [of b v am r b']
      store_okD(1) [of st own i b]
    by (intro store_ok_modify [of st own i b]) auto
next
  case (reserve st own i b am len r b')
  then show ?case
    using sshbuf_reserve_links [of am b len r b'] sshbuf_reserve_inv [of b am len r b']
      store_okD(1) [of st own i b]
    by (intro store_ok_modify [of st own i b]) auto
next
  case (reset st own i b am)
  then show ?case
    using sshbuf_reset_links [of am b] sshbuf_reset_inv [of b am] store_okD(1) [of st own i b]
    by (intro store_ok_modify [of st own i b]) auto
next
  case (consume st own i b len r b')
  then show ?case
    using sshbuf_consume_links [of b len r b'] sshbuf_consume_inv [of b len r b']
      store_okD(1) [of st own i b]
    by (intro store_ok_modify [of st own i b]) auto
next
  case (consume_end st own i b len r b')
  then show ?case
    using sshbuf_consume_end_links [of b len r b'] sshbuf_consume_end_inv [of b len r b']
      store_okD(1) [of st own i b]
    by (intro store_ok_modify [of st own i b]) auto
next
  case (set_max st own i b am len r b')
  then show ?case
    using sshbuf_set_max_size_links [of am b len r b'] sshbuf_set_max_size_ok [of b am len r b']
      store_okD(1) [of st own i b]
    by (intro store_ok_modify [of st own i b]) auto
next
  case (fromb st own i b am c st')
  from sshbuf_fromb_ok [OF fromb.IH fromb.hyps(2-4)] show ?case unfolding option.case by blast
next
  case (froms st own i b am c st')
  from sshbuf_froms_ok [OF froms.IH froms.hyps(2-4)] show ?case unfolding sum.case by blast
next
  case (fromb_fails st own i b am st')
  from sshbuf_fromb_ok [OF fromb_fails.IH fromb_fails.hyps(2-4)] fromb_fails.IH show ?case by simp
next
  case (froms_fails st own i b am e st')
  from sshbuf_froms_ok [OF froms_fails.IH froms_fails.hyps(2-4)] froms_fails.IH show ?case by simp
next
  case (free st own i)
  then show ?case by (intro sshbuf_free_ok)
qed

section \<open>Properties\<close>


text \<open>
  C14: once every handle has been given back, every buffer has been freed: parents kept alive by
  their children are freed with the last child, and none leaks.
\<close>

theorem sshbuf_run_no_leak: "buf_run st (\<lambda>_. 0) \<Longrightarrow> store_get st i = None"
  by (rule store_ok_no_handles [OF buf_run_ok])

subsection \<open>Witnesses\<close>

definition ex_am :: allocator where "ex_am = (\<lambda>_. 4096)"

definition ex_buf :: sshbuf where
  "ex_buf = \<lparr>sb_d = 4096, sb_cd = 4096, sb_off = 0, sb_size = 0, sb_max_size = 0x8000000,
     sb_alloc = 256, sb_readonly = False, sb_refcount = 1, sb_parent = None,
     sb_mem = replicate 256 0\<rparr>"

definition ex_child :: sshbuf where
  "ex_child = \<lparr>sb_d = 0, sb_cd = 4096, sb_off = 0, sb_size = 0, sb_max_size = 0,
     sb_alloc = 0, sb_readonly = True, sb_refcount = 1, sb_parent = Some 0, sb_mem = []\<rparr>"

lemma ex_new: "sshbuf_new ex_am = Some ex_buf"
  by (simp add: sshbuf_new_def ex_am_def ex_buf_def sshbuf_consts)

lemma ex_run_new: "buf_run [Some ex_buf] (\<lambda>k. if k = 0 then 1 else 0)"
proof -
  have "(\<lambda>k. if k = 0 then 1 else 0) = (\<lambda>_. 0)(length ([] :: bufstore) := 1 :: nat)" by auto
  with buf_run.new [OF buf_run.start ex_new] show ?thesis by simp
qed

lemma ex_fromb:
  "sshbuf_fromb ex_am [Some ex_buf] 0 = (Some 1, [Some (ex_buf\<lparr>sb_refcount := 2\<rparr>), Some ex_child])"
  by (simp add: sshbuf_fromb_def store_get_def sshbuf_check_sanity_def ex_buf_def sshbuf_consts
      sshbuf_ptr_def sshbuf_len_def sshbuf_from_def ex_am_def sshbuf_set_parent_def ex_child_def)

text \<open>The owner of the parent gives its handle back while the child is in use.\<close>

definition ex_shared :: bufstore where
  "ex_shared = [Some ex_buf, Some ex_child]"

lemma ex_free_parent:
  "sshbuf_free [Some (ex_buf\<lparr>sb_refcount := 2\<rparr>), Some ex_child] 0 = ex_shared"
  by (simp add: sshbuf_free.simps store_get_def sshbuf_check_sanity_def ex_buf_def sshbuf_consts
      ex_shared_def)

lemma ex_run_shared: "buf_run ex_shared (\<lambda>k. if k = 1 then 1 else 0)"
proof -
  let ?own = "(\<lambda>k. if k = 0 then 1 else 0)(1 := 1) :: nat \<Rightarrow> nat"
  have "buf_run [Some (ex_buf\<lparr>sb_refcount := 2\<rparr>), Some ex_child] ?own"
  proof (rule buf_run.fromb [OF ex_run_new _ _ ex_fromb])
    show "store_get [Some ex_buf] 0 = Some ex_buf" by (simp add: store_get_def)
    show "unat (sb_refcount ex_buf) < 0x100000" by (simp add: ex_buf_def)
  qed
  from buf_run.free [OF this, of 0] have "buf_run ex_shared (?own(0 := 0))"
    by (simp add: ex_free_parent)
  moreover have "?own(0 := 0) = (\<lambda>k. if k = 1 then 1 else 0)" by auto
  ultimately show ?thesis by simp
qed


lemma ex_free_child: "sshbuf_free ex_shared 1 = [None, None]"
  by (simp add: sshbuf_free.simps store_get_def sshbuf_check_sanity_def ex_buf_def sshbuf_consts
      ex_shared_def ex_child_def)

theorem sshbuf_run_no_leak_witness:
  "buf_run (sshbuf_free ex_shared 1) (\<lambda>_. 0) \<and> store_get (sshbuf_free ex_shared 1) 0 = None"
proof -
  have "(\<lambda>k :: nat. if k = 1 then 1 else 0 :: nat)(1 := 0) = (\<lambda>_. 0)" by auto
  with buf_run.free [OF ex_run_shared, of 1]
  have r: "buf_run (sshbuf_free ex_shared 1) (\<lambda>_. 0)" by simp
  from r sshbuf_run_no_leak [OF r, of 0] show ?thesis by blast
qed

subsection \<open>One buffer\<close>

text \<open>
  C20: appending implements a bounded byte queue. A success appends exactly the given bytes to a
  writable buffer and stays within its maximum size; a failure leaves the bytes as they were
  and its code tells the reason: read-only or shared, no room below the maximum, or refused by
  the allocator. The structure stays sane in all cases.
\<close>

theorem sshbuf_put_spec:
  assumes "sshbuf_inv b" "length v < 2 ^ 64" "sshbuf_put am b v = (r, b')"
  shows "sshbuf_inv b' \<and>
    (case r of
       Inr _ \<Rightarrow> sshbuf_contents b' = sshbuf_contents b @ v \<and> sshbuf_writable b \<and>
         length (sshbuf_contents b') \<le> unat (sb_max_size b)
     | Inl e \<Rightarrow> sshbuf_contents b' = sshbuf_contents b \<and>
         e = (if \<not> sshbuf_writable b then SSH_ERR_BUFFER_READ_ONLY
              else if unat (sb_max_size b) < length (sshbuf_contents b) + length v
              then SSH_ERR_NO_BUFFER_SPACE else SSH_ERR_ALLOC_FAIL))"
proof (cases r)
  case (Inl e)
  with assms(3) have "sshbuf_reserve am b (of_nat (length v)) = (Inl e, b')"
    by (auto simp: sshbuf_put_def split: prod.splits sum.splits)
  with sshbuf_reserve_error [OF assms(1) this] assms(2) Inl show ?thesis
    by (simp add: unat_of_nat_small)
next
  case (Inr u)
  have "sshbuf_writable b"
    using assms Inr
    by (auto simp: sshbuf_put_def sshbuf_reserve_def sshbuf_allocate_def sshbuf_check_reserve_eq
        split: prod.splits sum.splits if_splits)
  with sshbuf_put_ok [OF assms(1) _ assms(2)] assms(3) Inr show ?thesis by simp
qed

lemma ex_buf_inv: "sshbuf_inv ex_buf" "sshbuf_contents ex_buf = []" "sshbuf_writable ex_buf"
  using sshbuf_new_ok [OF ex_new] by simp_all

theorem sshbuf_put_spec_witness:
  "sshbuf_contents (snd (sshbuf_put ex_am ex_buf [1, 2, 3])) = [1, 2, 3]"
proof -
  have ok: "fst (sshbuf_put ex_am ex_buf [1, 2, 3]) = Inr ()"
    by (simp add: sshbuf_put_def sshbuf_reserve_def sshbuf_allocate_def sshbuf_check_reserve_def
        sshbuf_check_sanity_def ex_buf_def sshbuf_consts sshbuf_maybe_pack_def)
  have "length [1, 2, 3 :: byte] < 2 ^ 64" by simp
  from sshbuf_put_spec [OF ex_buf_inv(1) this prod.collapse [symmetric], of ex_am] ok ex_buf_inv(2)
  show ?thesis by simp
qed

text \<open>
  C21: reading is exact. A request for at most the bytes held returns exactly the first ones and
  leaves the rest; a longer request fails with the buffer untouched, whatever its size.
\<close>

theorem sshbuf_get_spec:
  assumes "sshbuf_inv b"
  shows "if unat len \<le> length (sshbuf_contents b)
    then \<exists>b'. sshbuf_get b len = (Inr (take (unat len) (sshbuf_contents b)), b') \<and> sshbuf_inv b' \<and>
      sshbuf_contents b' = drop (unat len) (sshbuf_contents b)
    else sshbuf_get b len = (Inl SSH_ERR_MESSAGE_INCOMPLETE, b)"
  using sshbuf_get_eq [OF assms, of len] by (auto simp: sshbuf_read_to_def)

theorem sshbuf_get_spec_witness:
  "sshbuf_get ex_buf 5 = (Inl SSH_ERR_MESSAGE_INCOMPLETE, ex_buf)"
  using sshbuf_get_spec [OF ex_buf_inv(1), of 5] ex_buf_inv(2) by simp

text \<open>
  C19: every message of integers, strings and canonical big numbers that has been written into
  an empty buffer is read back unchanged, field by field, and nothing is left over.
\<close>

theorem sshbuf_fields_round_trip:
  assumes "sshbuf_inv b" "sshbuf_contents b = []" "list_all field_valid fs"
    and "put_all (put_field am) b fs = (Inr u, b')"
  shows "\<exists>b''. get_all get_field b' (map field_kind fs) = (Inr fs, b'') \<and> sshbuf_contents b'' = []"
  using fld.round_trip [OF assms(1,3,4,2)] by blast

lemma put_all_succeeds:
  assumes "sshbuf_inv b" "sshbuf_writable b" "\<And>n. am n \<noteq> NULL" "list_all field_valid fs"
    and "length (sshbuf_contents b) + length (concat (map enc_field fs)) \<le> unat (sb_max_size b)"
  shows "\<exists>b'. put_all (put_field am) b fs = (Inr (), b')"
  using assms(1,2,4,5)
proof (induction fs arbitrary: b)
  case (Cons f fs)
  have max: "unat (sb_max_size b) \<le> STRING_MAX + 4"
    using sshbuf_inv_bounds(4) [OF Cons.prems(1)] by (simp add: STRING_MAX_def)
  with Cons.prems have "put_field am b f = sshbuf_put am b (enc_field f)"
    by (simp add: put_field_eq)
  moreover obtain b1 where b1: "sshbuf_put am b (enc_field f) = (Inr (), b1)"
    using sshbuf_put_succeeds [of b am "enc_field f"] Cons.prems assms(3) by auto
  moreover have "length (enc_field f) < 2 ^ 64"
    using Cons.prems(4) max by (simp add: STRING_MAX_def)
  ultimately show ?case
    using Cons sshbuf_put_ok [OF Cons.prems(1) b1] by simp
qed simp

definition ex_fields :: "wire_field list" where
  "ex_fields = [F8 20, F32 77, FString [104, 105], FMpint [200, 1], F64 9]"

theorem sshbuf_fields_round_trip_witness:
  "\<exists>b''. get_all get_field (snd (put_all (put_field ex_am) ex_buf ex_fields))
      [K8, K32, KString, KMpint, K64] = (Inr ex_fields, b'') \<and> sshbuf_contents b'' = []"
proof -
  have v: "list_all field_valid ex_fields" by (simp add: ex_fields_def)
  have "length (concat (map enc_field ex_fields)) \<le> 0x8000000"
    by (simp add: ex_fields_def mpint_def)
  then obtain b' where b': "put_all (put_field ex_am) ex_buf ex_fields = (Inr (), b')"
    using put_all_succeeds [of ex_buf ex_am ex_fields] ex_buf_inv v
    by (auto simp: ex_am_def ex_buf_def)
  from sshbuf_fields_round_trip [OF ex_buf_inv(1,2) v b'] b' show ?thesis
    by (simp add: ex_fields_def)
qed

text \<open>The number that big-endian bytes stand for.\<close>

definition be_value :: "byte list \<Rightarrow> nat" where
  "be_value bs = foldl (\<lambda>a b. a * 256 + unat b) 0 bs"

lemma be_value_dropWhile: "be_value (dropWhile (\<lambda>x. x = 0) v) = be_value v"
  by (induction v) (simp_all add: be_value_def)

text \<open>
  a big number written from any big-endian bytes (leading zeros included, top bit set or
  not) is never read back as negative: the reader gets the same number, without leading zeros,
  for every number of at most 16384 bits.
\<close>

theorem sshbuf_bignum_round_trip:
  assumes "sshbuf_inv b" "sshbuf_contents b = []" "length v < 2 ^ 64"
    and "length (dropWhile (\<lambda>x. x = 0) v) \<le> 2048"
    and "sshbuf_put_bignum2_bytes am b v = (Inr u, b')"
  shows "\<exists>s b''. sshbuf_get_bignum2_bytes_direct b' = (Inr s, b'') \<and> be_value s = be_value v \<and>
    (s = [] \<or> hd s \<noteq> 0) \<and> sshbuf_contents b'' = []"
proof -
  let ?s = "dropWhile (\<lambda>x. x = 0) v"
  have put: "sshbuf_put am b (enc_string (mpint v)) = (Inr u, b')" and v: "length v \<le> STRING_MAX - 1"
    using assms by (simp_all add: sshbuf_put_bignum2_bytes_eq split: if_splits)
  have "length (enc_string (mpint v)) < 2 ^ 64"
    using v length_mpint [of v] by (simp add: STRING_MAX_def)
  with sshbuf_put_ok [OF assms(1) put] assms(2)
  have "sshbuf_inv b'" "sshbuf_contents b' = enc_string (mpint v) @ []" by simp_all
  from get_bignum2_enc [OF this assms(4)] obtain b'' where
    "sshbuf_get_bignum2_bytes_direct b' = (Inr ?s, b'')" "sshbuf_contents b'' = []" by blast
  moreover have "?s = [] \<or> hd ?s \<noteq> 0"
    using hd_dropWhile [of "\<lambda>x. x = 0" v] by auto
  ultimately show ?thesis using be_value_dropWhile by blast
qed

theorem sshbuf_bignum_round_trip_witness:
  "\<exists>s b''. sshbuf_get_bignum2_bytes_direct (snd (sshbuf_put_bignum2_bytes ex_am ex_buf [0, 0, 255, 1]))
      = (Inr s, b'') \<and> be_value s = 65281"
proof -
  have "\<exists>b'. sshbuf_put ex_am ex_buf (enc_string (mpint [0, 0, 255, 1])) = (Inr (), b')"
    using sshbuf_put_succeeds [of ex_buf ex_am "enc_string (mpint [0, 0, 255, 1])"] ex_buf_inv
    by (simp add: ex_am_def ex_buf_def mpint_def)
  then obtain b' where b': "sshbuf_put_bignum2_bytes ex_am ex_buf [0, 0, 255, 1] = (Inr (), b')"
    using ex_buf_inv(1) by (auto simp: sshbuf_put_bignum2_bytes_eq STRING_MAX_def)
  show ?thesis
    using sshbuf_bignum_round_trip [OF ex_buf_inv(1,2) _ _ b'] b' by (auto simp: be_value_def)
qed

text \<open>
  a C string taken from a buffer is the whole string field: a zero byte can only be its last
  byte, so the terminated copy that C code compares and prints is not a prefix of a longer
  field chosen by the peer.
\<close>

theorem sshbuf_get_cstring_spec:
  assumes "sshbuf_inv b" "sshbuf_get_cstring am b = (Inr s, b')"
  shows "0 \<notin> set (butlast s) \<and> sshbuf_contents b = enc_string s @ sshbuf_contents b' \<and> sshbuf_inv b'"
proof -
  obtain v where v: "sshbuf_peek_string_direct b = Inr v" "nul_only_last v"
  proof (cases "sshbuf_peek_string_direct b")
    case (Inl e)
    with sshbuf_get_cstring_eq(1) [OF assms(1) Inl, of am] assms(2) show ?thesis by simp
  next
    case (Inr v)
    with sshbuf_get_cstring_eq(2) [OF assms(1) Inr, of am] assms(2) that show ?thesis by auto
  qed
  with sshbuf_get_cstring_eq(3) [OF assms(1) v, of am] assms(2)
  have s: "s = v" and to: "sshbuf_read_to b (length v + 4) b'" by (auto split: if_splits)
  let ?c = "sshbuf_contents b"
  have l: "4 \<le> length ?c" and ln: "unat (PEEK_U32 ?c) = length v" and d: "v = take (length v) (drop 4 ?c)"
    using v(1) sshbuf_peek_string_direct_eq [OF assms(1) refl] by (auto split: if_splits)
  have "POKE_U32 (of_nat (length v)) = take 4 ?c"
    using POKE_PEEK_U32 [of "take 4 ?c"] l by (simp flip: ln)
  moreover have "?c = take 4 ?c @ take (length v) (drop 4 ?c) @ drop (length v + 4) ?c"
    by (metis append_take_drop_id drop_drop)
  ultimately have "?c = enc_string s @ sshbuf_contents b'"
    using d to s by (simp add: enc_string_def sshbuf_read_to_def)
  with v(2) s to show ?thesis by (simp add: nul_only_last_def sshbuf_read_to_def)
qed

definition ex_cstr :: sshbuf where
  "ex_cstr = \<lparr>sb_d = 0, sb_cd = 4096, sb_off = 0, sb_size = 6, sb_max_size = 6,
     sb_alloc = 6, sb_readonly = True, sb_refcount = 1, sb_parent = None, sb_mem = [0, 0, 0, 2, 104, 105]\<rparr>"

lemma ex_cstr_get: "\<exists>b. sshbuf_get_cstring ex_am ex_cstr = (Inr [104, 105], b) \<and> sshbuf_contents b = []"
proof -
  have inv: "sshbuf_inv ex_cstr" by (simp add: ex_cstr_def sshbuf_inv_iff)
  have c: "sshbuf_contents ex_cstr = enc_string [104, 105] @ []"
    by (simp add: ex_cstr_def sshbuf_contents_def enc_string_def POKE_U32_def mem_read_def)
  have "sshbuf_peek_string_direct ex_cstr = Inr [104, 105]"
    using peek_string_enc [OF inv c] by (simp add: STRING_MAX_def)
  from sshbuf_get_cstring_eq(3) [OF inv this, of ex_am] c show ?thesis
    by (auto simp: nul_only_last_def ex_am_def sshbuf_read_to_def)
qed

theorem sshbuf_get_cstring_spec_witness:
  "\<exists>b. sshbuf_contents ex_cstr = enc_string [104, 105] @ sshbuf_contents b \<and> sshbuf_inv b"
proof -
  have "sshbuf_inv ex_cstr" by (simp add: ex_cstr_def sshbuf_inv_iff)
  with ex_cstr_get sshbuf_get_cstring_spec [of ex_cstr ex_am "[104, 105]"] show ?thesis by blast
qed

text \<open>
  writing at an offset replaces the bytes there and no others, in a buffer that may be
  written, and only if the whole value lies inside the bytes already held.
\<close>

theorem sshbuf_poke_spec:
  assumes "sshbuf_inv b" "length v < 2 ^ 64" "sshbuf_poke b offset v = (Inr u, b')"
  shows "sshbuf_inv b' \<and> sshbuf_writable b \<and> unat offset + length v \<le> length (sshbuf_contents b) \<and>
    sshbuf_contents b' = take (unat offset) (sshbuf_contents b) @ v @
      drop (unat offset + length v) (sshbuf_contents b)"
  using sshbuf_poke_ok [OF assms] by simp

definition ex_poke :: sshbuf where
  "ex_poke = \<lparr>sb_d = 4096, sb_cd = 4096, sb_off = 1, sb_size = 4, sb_max_size = 256,
     sb_alloc = 4, sb_readonly = False, sb_refcount = 1, sb_parent = None, sb_mem = [1, 2, 3, 4]\<rparr>"

theorem sshbuf_poke_spec_witness:
  "fst (sshbuf_poke ex_poke 1 [9]) = Inr () \<and> sshbuf_contents (snd (sshbuf_poke ex_poke 1 [9])) = [2, 9, 4]"
proof -
  have inv: "sshbuf_inv ex_poke" by (simp add: ex_poke_def sshbuf_inv_iff)
  have "fst (sshbuf_poke ex_poke 1 [9]) = Inr ()"
    by (simp add: sshbuf_poke_def check_woffset_def check_offset_def ex_poke_def sshbuf_ptr_def
        sshbuf_check_sanity_def sshbuf_mutable_ptr_def sshbuf_len_def SIZE_MAX_def sshbuf_consts
        sshbuf_inv_iff word_le_nat_alt)
  with sshbuf_poke_spec [OF inv, of "[9]" 1 "()" "snd (sshbuf_poke ex_poke 1 [9])"] show ?thesis
    by (simp add: prod_eq_iff sshbuf_contents_def mem_read_def ex_poke_def)
qed

text \<open>
  C34: resetting a writable buffer empties it and leaves no byte of the old contents in its
  memory, and the result passes the sanity test exactly if the buffer's size limit is at least
  the initial allocation of 256 bytes or the allocator refuses; below that limit the reset
  reallocates past the limit and the very next operation aborts the process.
\<close>

theorem sshbuf_reset_spec:
  assumes "sshbuf_inv b" "sshbuf_writable b" "am SSHBUF_SIZE_INIT \<noteq> NULL"
  shows "if SSHBUF_SIZE_INIT \<le> sb_max_size b
    then sshbuf_inv (sshbuf_reset am b) \<and> sshbuf_contents (sshbuf_reset am b) = [] \<and>
      set (sb_mem (sshbuf_reset am b)) \<subseteq> {0}
    else sshbuf_check_sanity (sshbuf_reset am b) = Inl SSH_ERR_INTERNAL_ERROR"
  using sshbuf_reset_writable [OF assms(1,2)] sshbuf_reset_small_max [OF assms(1,2), of am] assms(3)
  by (auto simp: not_le)

theorem sshbuf_reset_spec_witness:
  "sshbuf_check_sanity (sshbuf_reset ex_am (ex_poke\<lparr>sb_max_size := 16\<rparr>)) = Inl SSH_ERR_INTERNAL_ERROR \<and>
   sshbuf_contents (sshbuf_reset ex_am ex_poke) = []"
proof -
  have "sshbuf_inv (ex_poke\<lparr>sb_max_size := 16\<rparr>)" "sshbuf_writable (ex_poke\<lparr>sb_max_size := 16\<rparr>)"
    "sshbuf_inv ex_poke" "sshbuf_writable ex_poke" "ex_am SSHBUF_SIZE_INIT \<noteq> NULL"
    by (simp_all add: ex_poke_def sshbuf_inv_iff sshbuf_writable_def ex_am_def)
  then show ?thesis
    using sshbuf_reset_spec [of "ex_poke\<lparr>sb_max_size := 16\<rparr>" ex_am] sshbuf_reset_spec [of ex_poke ex_am]
    by (simp add: ex_poke_def sshbuf_consts)
qed

text \<open>
  changing the size limit never changes the bytes held and never breaks the structure,
  whatever the outcome; the limit itself changes exactly if the call succeeds.
\<close>

theorem sshbuf_set_max_size_spec:
  assumes "sshbuf_inv b" "sshbuf_set_max_size am b n = (r, b')"
  shows "sshbuf_inv b' \<and> sshbuf_contents b' = sshbuf_contents b \<and>
    sb_max_size b' = (if r = Inr () then n else sb_max_size b)"
  using sshbuf_set_max_size_ok [OF assms] .

theorem sshbuf_set_max_size_spec_witness:
  "sshbuf_contents (snd (sshbuf_set_max_size ex_am ex_poke 64)) = [2, 3, 4]"
proof -
  have "sshbuf_inv ex_poke" by (simp add: ex_poke_def sshbuf_inv_iff)
  from sshbuf_set_max_size_spec [OF this prod.collapse [symmetric], of ex_am 64] show ?thesis
    by (simp add: ex_poke_def sshbuf_contents_def mem_read_def)
qed

end
