(* ===== verification/Base64_Codec.thy ===== *)
theory Base64_Codec
  imports Cstrings
begin

text \<open>
  \<^verbatim>\<open>openbsd-compat/base64.c\<close>: encoding bytes as text and reading text back. The reader is the
  state machine of the source, over an output block of fixed size and with its 32-bit index; both
  callers pass a block. The lemmas relate the two functions to a plain encoder and show that the
  reader accepts nothing but encodings.
\<close>

unbundle bit_operations_syntax

definition Base64 :: string where
  "Base64 = ''ABCDEFGHIJKLMNOPQRSTUVWXYZabcdefghijklmnopqrstuvwxyz0123456789+/''"

definition Pad64 :: char where
  "Pad64 = CHR ''=''"

definition b64_char :: "byte \<Rightarrow> char" where
  "b64_char v = Base64 ! unat v"

text \<open>The array \<^verbatim>\<open>output\<close> for the three bytes of \<^verbatim>\<open>input\<close>.\<close>

definition b64_output :: "byte \<Rightarrow> byte \<Rightarrow> byte \<Rightarrow> byte list" where
  "b64_output i0 i1 i2 =
     [drop_bit 2 i0, push_bit 4 (i0 AND 0x03) + drop_bit 4 i1,
      push_bit 2 (i1 AND 0x0f) + drop_bit 6 i2, i2 AND 0x3f]"

text \<open>The value is the text written, \<^const>\<open>None\<close> when the function returns -1.\<close>

fun b64_ntop :: "byte list \<Rightarrow> string \<Rightarrow> nat \<Rightarrow> string option" where
  "b64_ntop (i0 # i1 # i2 # src) target targsize =
     (if length target + 4 > targsize then None
      else b64_ntop src (target @ map b64_char (b64_output i0 i1 i2)) targsize)"
| "b64_ntop [] target targsize = (if length target \<ge> targsize then None else Some target)"
| "b64_ntop [i0] target targsize =
     (if length target + 4 > targsize then None
      else let t = target @ map b64_char (take 2 (b64_output i0 0 0)) @ [Pad64, Pad64]
           in if length t \<ge> targsize then None else Some t)"
| "b64_ntop [i0, i1] target targsize =
     (if length target + 4 > targsize then None
      else let t = target @ map b64_char (take 3 (b64_output i0 i1 0)) @ [Pad64]
           in if length t \<ge> targsize then None else Some t)"

text \<open>
  The reading loop: the state, the index, the block, and where it stopped (after a pad character,
  or \<^const>\<open>None\<close> at the end of the string). The whole value is \<^const>\<open>None\<close> when the function
  returns -1.
\<close>

fun b64_pton_loop :: "string \<Rightarrow> nat \<Rightarrow> u32 \<Rightarrow> byte list \<Rightarrow> (nat \<times> u32 \<times> byte list \<times> string option) option" where
  "b64_pton_loop [] state tarindex target = Some (state, tarindex, target, None)"
| "b64_pton_loop (ch # src) state tarindex target =
     (if isspace ch then b64_pton_loop src state tarindex target
      else if ch = Pad64 then Some (state, tarindex, target, Some src)
      else
        (case strchr Base64 ch of
           None \<Rightarrow> None
         | Some (before, _) \<Rightarrow>
             let pos = of_nat (length before); i = unat tarindex; j = unat (tarindex + 1) in
             if state = 0 then
               if i \<ge> length target then None
               else b64_pton_loop src 1 tarindex (target[i := push_bit 2 pos])
             else if state = 1 then
               if j \<ge> length target then None
               else b64_pton_loop src 2 (tarindex + 1)
                 (target[i := target ! i OR drop_bit 4 pos, j := push_bit 4 (pos AND 0x0f)])
             else if state = 2 then
               if j \<ge> length target then None
               else b64_pton_loop src 3 (tarindex + 1)
                 (target[i := target ! i OR drop_bit 2 pos, j := push_bit 6 (pos AND 0x03)])
             else
               if i \<ge> length target then None
               else b64_pton_loop src 0 (tarindex + 1) (target[i := target ! i OR pos])))"

text \<open>What follows the loop: the pad characters and the bits left over.\<close>

definition b64_pton_end :: "nat \<times> u32 \<times> byte list \<times> string option \<Rightarrow> (int \<times> byte list) option" where
  "b64_pton_end r =
     (case r of
        (state, tarindex, target, None) \<Rightarrow> if state \<noteq> 0 then None else Some (sint tarindex, target)
      | (state, tarindex, target, Some src) \<Rightarrow>
          if state = 0 \<or> state = 1 then None
          else
            let src1 = dropWhile isspace src in
            if state = 2 \<and> (src1 = [] \<or> hd src1 \<noteq> Pad64) then None
            else
              let src2 = (if state = 2 then tl src1 else src) in
              if \<not> list_all isspace src2 then None
              else if target ! unat tarindex \<noteq> 0 then None
              else Some (sint tarindex, target))"

definition b64_pton :: "string \<Rightarrow> byte list \<Rightarrow> (int \<times> byte list) option" where
  "b64_pton src target = Option.bind (b64_pton_loop src 0 0 target) b64_pton_end"

section \<open>The plain encoder\<close>

fun b64_enc :: "byte list \<Rightarrow> string" where
  "b64_enc (a # b # c # src) = map b64_char (b64_output a b c) @ b64_enc src"
| "b64_enc [] = []"
| "b64_enc [a] = map b64_char (take 2 (b64_output a 0 0)) @ [Pad64, Pad64]"
| "b64_enc [a, b] = map b64_char (take 3 (b64_output a b 0)) @ [Pad64]"

lemma length_b64_enc: "length (b64_enc src) = (length src + 2) div 3 * 4"
proof (induction src rule: b64_enc.induct)
  case (1 a b c src)
  have "(length src + 5) div 3 = Suc ((length src + 2) div 3)" by presburger
  with 1 show ?case by (simp add: b64_output_def add.commute)
qed (simp_all add: b64_output_def)

lemma b64_ntop_enc:
  "b64_ntop src target targsize =
     (if length target + length (b64_enc src) < targsize then Some (target @ b64_enc src) else None)"
  by (induction src target targsize rule: b64_ntop.induct) (auto simp: b64_output_def)

section \<open>Characters and values\<close>

lemma length_Base64 [simp]: "length Base64 = 64"
  by (simp add: Base64_def)

lemma distinct_Base64: "distinct Base64"
  by (simp add: Base64_def)

lemma Base64_clean: "c \<in> set Base64 \<Longrightarrow> \<not> isspace c \<and> c \<noteq> Pad64"
  by (auto simp: Base64_def isspace_def Pad64_def)

definition b64_val :: "char \<Rightarrow> byte option" where
  "b64_val c = map_option (\<lambda>(before, _). of_nat (length before)) (strchr Base64 c)"

lemma b64_val_iff: "b64_val c = Some v \<longleftrightarrow> unat v < 64 \<and> c = b64_char v"
proof
  assume "b64_val c = Some v"
  then obtain a b where s: "Base64 = a @ c # b" and v: "v = of_nat (length a)"
    by (auto simp: b64_val_def strchr_Some)
  have "length a < 64" using arg_cong [OF s, of length] by simp
  with v have "unat v = length a" by (simp add: unat_of_nat_small)
  moreover have "Base64 ! length a = c" by (subst s) simp
  ultimately show "unat v < 64 \<and> c = b64_char v" using \<open>length a < 64\<close> by (simp add: b64_char_def)
next
  assume v: "unat v < 64 \<and> c = b64_char v"
  let ?a = "take (unat v) Base64" and ?b = "drop (Suc (unat v)) Base64"
  have s: "Base64 = ?a @ c # ?b" using v id_take_nth_drop [of "unat v" Base64] by (simp add: b64_char_def)
  with distinct_Base64 have "c \<notin> set ?a" by (metis IntI distinct_append empty_iff list.set_intros(1))
  with s have "strchr Base64 c = Some (?a, ?b)" by (simp add: strchr_Some)
  then show "b64_val c = Some v" using v by (simp add: b64_val_def)
qed

lemma b64_val_clean: "b64_val c = Some v \<Longrightarrow> \<not> isspace c \<and> c \<noteq> Pad64"
  using Base64_clean [of c] by (simp add: b64_val_iff b64_char_def)

lemma b64_char_val [simp]: "unat v < 64 \<Longrightarrow> b64_val (b64_char v) = Some v"
  by (simp add: b64_val_iff)

text \<open>Six-bit groups and bytes determine each other.\<close>

lemma byte_eqI:
  fixes a b :: "8 word"
  assumes "bit a 0 = bit b 0" "bit a 1 = bit b 1" "bit a 2 = bit b 2" "bit a 3 = bit b 3"
    "bit a 4 = bit b 4" "bit a 5 = bit b 5" "bit a 6 = bit b 6" "bit a 7 = bit b 7"
  shows "a = b"
proof (rule bit_word_eqI)
  fix n assume "n < LENGTH(8)"
  then have "n \<in> {0, 1, 2, 3, 4, 5, 6, 7}" by auto
  with assms show "bit a n = bit b n" by auto
qed

lemma six_bit_sums:
  fixes a b :: byte
  shows "push_bit 4 (a AND 0x03) + drop_bit 4 b = push_bit 4 (a AND 0x03) OR drop_bit 4 b"
    and "push_bit 2 (a AND 0x0f) + drop_bit 6 b = push_bit 2 (a AND 0x0f) OR drop_bit 6 b"
  by (rule disjunctive_add, auto simp: bit_simps)+

lemma six_bits: "unat (v :: byte) < 64 \<longleftrightarrow> \<not> bit v 6 \<and> \<not> bit v 7"
proof -
  have "unat v < 64 \<longleftrightarrow> unat (drop_bit 6 v) = 0"
    by (simp add: unat_drop_bit_eq drop_bit_eq_div [where ?'a = nat] div_eq_0_iff)
  also have "\<dots> \<longleftrightarrow> drop_bit 6 v = 0" by (simp add: unat_eq_zero)
  also have "\<dots> \<longleftrightarrow> \<not> bit v 6 \<and> \<not> bit v 7"
  proof
    assume "drop_bit 6 v = 0"
    then have "\<not> bit (drop_bit 6 v) 0 \<and> \<not> bit (drop_bit 6 v) 1" by simp
    then show "\<not> bit v 6 \<and> \<not> bit v 7" by (simp add: bit_drop_bit_eq)
  next
    assume "\<not> bit v 6 \<and> \<not> bit v 7"
    then show "drop_bit 6 v = 0" by (intro byte_eqI) (simp_all add: bit_simps)
  qed
  finally show ?thesis .
qed

lemma b64_output_small: "list_all (\<lambda>v. unat v < 64) (b64_output a b c)"
  unfolding b64_output_def six_bit_sums by (simp add: six_bits bit_simps)

lemma b64_split:
  assumes "b64_output a b c = [v0, v1, v2, v3]"
  shows "push_bit 2 v0 OR drop_bit 4 v1 = a"
    and "push_bit 4 (v1 AND 0x0f) OR drop_bit 2 v2 = b"
    and "push_bit 6 (v2 AND 0x03) OR v3 = c"
proof -
  from assms have v: "v0 = drop_bit 2 a" "v1 = push_bit 4 (a AND 0x03) OR drop_bit 4 b"
      "v2 = push_bit 2 (b AND 0x0f) OR drop_bit 6 c" "v3 = c AND 0x3f"
    unfolding b64_output_def six_bit_sums by simp_all
  show "push_bit 2 v0 OR drop_bit 4 v1 = a"
    unfolding v by (rule byte_eqI) (simp_all add: bit_simps)
  show "push_bit 4 (v1 AND 0x0f) OR drop_bit 2 v2 = b"
    unfolding v by (rule byte_eqI) (simp_all add: bit_simps)
  show "push_bit 6 (v2 AND 0x03) OR v3 = c"
    unfolding v by (rule byte_eqI) (simp_all add: bit_simps)
qed

lemma b64_join:
  assumes "unat v0 < 64" "unat v1 < 64" "unat v2 < 64" "unat v3 < 64"
  shows "b64_output (push_bit 2 v0 OR drop_bit 4 v1) (push_bit 4 (v1 AND 0x0f) OR drop_bit 2 v2)
    (push_bit 6 (v2 AND 0x03) OR v3) = [v0, v1, v2, v3]"
  unfolding b64_output_def six_bit_sums
  using assms [unfolded six_bits] by (auto intro!: byte_eqI simp: bit_simps)

section \<open>Reading what was written\<close>

abbreviation b64_run :: "string \<Rightarrow> nat \<Rightarrow> u32 \<Rightarrow> byte list \<Rightarrow> (int \<times> byte list) option" where
  "b64_run src st ti tg \<equiv> Option.bind (b64_pton_loop src st ti tg) b64_pton_end"

lemma b64_loop_step:
  assumes "b64_val ch = Some v" "length tg < 2 ^ 31" "unat ti < length tg"
  shows "b64_pton_loop (ch # src) 0 ti tg = b64_pton_loop src 1 ti (tg[unat ti := push_bit 2 v])"
    and "Suc (unat ti) < length tg \<Longrightarrow> b64_pton_loop (ch # src) (Suc 0) ti tg =
      b64_pton_loop src 2 (ti + 1)
        (tg[unat ti := tg ! unat ti OR drop_bit 4 v, Suc (unat ti) := push_bit 4 (v AND 0x0f)])"
    and "Suc (unat ti) < length tg \<Longrightarrow> b64_pton_loop (ch # src) 2 ti tg =
      b64_pton_loop src 3 (ti + 1)
        (tg[unat ti := tg ! unat ti OR drop_bit 2 v, Suc (unat ti) := push_bit 6 (v AND 0x03)])"
    and "b64_pton_loop (ch # src) 3 ti tg = b64_pton_loop src 0 (ti + 1) (tg[unat ti := tg ! unat ti OR v])"
proof -
  from assms(1) obtain a b where s: "strchr Base64 ch = Some (a, b)" "of_nat (length a) = v"
    by (auto simp: b64_val_def)
  have j: "unat (ti + 1) = Suc (unat ti)" using assms(2,3) by (simp add: unat_plus_no_wrap)
  note c = b64_val_clean [OF assms(1)]
  show "b64_pton_loop (ch # src) 0 ti tg = b64_pton_loop src 1 ti (tg[unat ti := push_bit 2 v])"
    using assms(3) s c by simp
  show "b64_pton_loop (ch # src) (Suc 0) ti tg = b64_pton_loop src 2 (ti + 1)
      (tg[unat ti := tg ! unat ti OR drop_bit 4 v, Suc (unat ti) := push_bit 4 (v AND 0x0f)])"
    if "Suc (unat ti) < length tg" using that s c j by (simp add: Let_def)
  show "b64_pton_loop (ch # src) 2 ti tg = b64_pton_loop src 3 (ti + 1)
      (tg[unat ti := tg ! unat ti OR drop_bit 2 v, Suc (unat ti) := push_bit 6 (v AND 0x03)])"
    if "Suc (unat ti) < length tg" using that s c j by (simp add: Let_def)
  show "b64_pton_loop (ch # src) 3 ti tg = b64_pton_loop src 0 (ti + 1) (tg[unat ti := tg ! unat ti OR v])"
    using assms(3) s c j by (simp add: Let_def)
qed

lemma b64_loop_stop:
  "b64_val ch = None \<Longrightarrow> \<not> isspace ch \<Longrightarrow> ch \<noteq> Pad64 \<Longrightarrow> b64_pton_loop (ch # src) st ti tg = None"
  "b64_pton_loop (Pad64 # src) st ti tg = Some (st, ti, tg, Some src)"
  by (auto simp: b64_val_def isspace_def Pad64_def)

declare b64_pton_loop.simps(2) [simp del]

text \<open>The bytes that a text without blanks stands for.\<close>

fun b64_dec :: "string \<Rightarrow> byte list option" where
  "b64_dec [] = Some []"
| "b64_dec (c0 # c1 # c2 # c3 # s) =
     (case (b64_val c0, b64_val c1) of
        (Some v0, Some v1) \<Rightarrow>
          let a = push_bit 2 v0 OR drop_bit 4 v1 in
          if c2 = Pad64 then
            if c3 = Pad64 \<and> s = [] \<and> v1 AND 0x0f = 0 then Some [a] else None
          else
            (case b64_val c2 of
               None \<Rightarrow> None
             | Some v2 \<Rightarrow>
                 let b = push_bit 4 (v1 AND 0x0f) OR drop_bit 2 v2 in
                 if c3 = Pad64 then if s = [] \<and> v2 AND 0x03 = 0 then Some [a, b] else None
                 else
                   (case b64_val c3 of
                      None \<Rightarrow> None
                    | Some v3 \<Rightarrow> map_option (\<lambda>d. a # b # (push_bit 6 (v2 AND 0x03) OR v3) # d) (b64_dec s)))
      | _ \<Rightarrow> None)"
| "b64_dec _ = None"

lemma b64_output_ex: "\<exists>v0 v1 v2 v3. b64_output a b c = [v0, v1, v2, v3] \<and>
    unat v0 < 64 \<and> unat v1 < 64 \<and> unat v2 < 64 \<and> unat v3 < 64"
  using b64_output_small [of a b c] by (simp add: b64_output_def)

lemma b64_low_bits: "push_bit 4 (v AND 0x0f) OR x = 0 \<Longrightarrow> v AND 0x0f = (0 :: byte)"
    "push_bit 6 (v AND 0x03) OR x = 0 \<Longrightarrow> v AND 0x03 = (0 :: byte)"
proof -
  assume z: "push_bit 4 (v AND 0x0f) OR x = 0"
  have "\<not> bit (push_bit 4 (v AND 0x0f) OR x) n" for n by (simp only: z bit_0_eq bot_apply simp_thms bot_bool_def)
  from this [of 4] this [of 5] this [of 6] this [of 7] show "v AND 0x0f = 0"
    by (intro byte_eqI) (simp_all add: bit_simps)
next
  assume z: "push_bit 6 (v AND 0x03) OR x = 0"
  have "\<not> bit (push_bit 6 (v AND 0x03) OR x) n" for n by (simp only: z bit_0_eq bot_apply simp_thms bot_bool_def)
  from this [of 6] this [of 7] show "v AND 0x03 = 0"
    by (intro byte_eqI) (simp_all add: bit_simps)
qed

lemma b64_dec_enc: "b64_dec (b64_enc d) = Some d"
proof (induction d rule: b64_enc.induct)
  case (1 a b c src)
  obtain v0 v1 v2 v3 where v: "b64_output a b c = [v0, v1, v2, v3]"
    "unat v0 < 64" "unat v1 < 64" "unat v2 < 64" "unat v3 < 64" using b64_output_ex by blast
  with 1 b64_split [OF v(1)] show ?case by (simp add: b64_val_clean [OF b64_char_val] del: push_bit_and)
next
  case (3 a)
  obtain v0 v1 v2 v3 where v: "b64_output a 0 0 = [v0, v1, v2, v3]"
    "unat v0 < 64" "unat v1 < 64" "unat v2 < 64" "unat v3 < 64" using b64_output_ex by blast
  with b64_split [OF v(1)] show ?case by (simp add: b64_low_bits del: push_bit_and)
next
  case (4 a b)
  obtain v0 v1 v2 v3 where v: "b64_output a b 0 = [v0, v1, v2, v3]"
    "unat v0 < 64" "unat v1 < 64" "unat v2 < 64" "unat v3 < 64" using b64_output_ex by blast
  with b64_split [OF v(1)] show ?case by (simp add: b64_low_bits b64_val_clean [OF b64_char_val] del: push_bit_and)
qed simp

lemma b64_enc_dec: "b64_dec s = Some d \<Longrightarrow> b64_enc d = s"
proof (induction s arbitrary: d rule: b64_dec.induct)
  case (2 c0 c1 c2 c3 s)
  then obtain v0 v1 where v: "b64_val c0 = Some v0" "b64_val c1 = Some v1"
    by (auto split: option.splits)
  show ?case
  proof (cases "c2 = Pad64")
    case True
    with 2(2) v b64_join [of v0 v1 0 0] show ?thesis
      by (auto simp: b64_val_iff simp del: push_bit_and split: if_splits)
  next
    case c2: False
    with 2(2) v obtain v2 where v2: "b64_val c2 = Some v2" by (auto simp: Let_def split: option.splits)
    show ?thesis
    proof (cases "c3 = Pad64")
      case True
      with 2(2) v v2 c2 b64_join [of v0 v1 v2 0] show ?thesis
        by (auto simp: b64_val_iff simp del: push_bit_and split: if_splits)
    next
      case False
      with 2(2) v v2 c2 obtain v3 where v3: "b64_val c3 = Some v3" by (auto simp: Let_def split: option.splits)
      with 2 v v2 c2 False b64_join [of v0 v1 v2 v3] show ?thesis
        by (auto simp: b64_val_iff simp del: push_bit_and)
    qed
  qed
qed simp_all

lemma sint_small: "unat (w :: u32) < 2 ^ 31 \<Longrightarrow> sint w = int (unat w)"
proof -
  assume "unat w < 2 ^ 31"
  then have u: "uint w < 2 ^ 31" by (metis of_nat_less_numeral_power_cancel_iff uint_nat)
  have "sint w = signed_take_bit 31 (uint w)" by (simp add: sint_uint)
  also have "\<dots> = uint w" using u by (intro signed_take_bit_int_eq_self) (simp_all add: order_trans [of _ 0])
  finally show ?thesis by (simp only: uint_nat)
qed

lemma b64_loop_group:
  assumes "length dn = unat ti" "length dn + 3 + length r < 2 ^ 31"
  shows "b64_val c0 = Some v0 \<Longrightarrow> b64_val c1 = Some v1 \<Longrightarrow>
      b64_pton_loop (c0 # c1 # src) 0 ti (dn @ x # y # z # r) =
      b64_pton_loop src 2 (ti + 1) (dn @ (push_bit 2 v0 OR drop_bit 4 v1) # push_bit 4 (v1 AND 0x0f) # z # r)"
    and "b64_val c2 = Some v2 \<Longrightarrow> b64_pton_loop (c2 # src) 2 (ti + 1) (dn @ a # w # z # r) =
      b64_pton_loop src 3 (ti + 2) (dn @ a # (w OR drop_bit 2 v2) # push_bit 6 (v2 AND 0x03) # r)"
    and "b64_val c3 = Some v3 \<Longrightarrow> b64_pton_loop (c3 # src) 3 (ti + 2) (dn @ a # b # w # r) =
      b64_pton_loop src 0 (ti + 3) (dn @ a # b # (w OR v3) # r)"
proof -
  have u: "unat (ti + 1) = Suc (unat ti)" "unat (ti + 2) = Suc (Suc (unat ti))"
    using assms by (simp_all add: unat_plus_no_wrap)
  have ti: "ti + 1 + 1 = ti + 2" "ti + 2 + 1 = ti + 3" by simp_all
  note l = assms(1) [symmetric]
  show "b64_pton_loop (c0 # c1 # src) 0 ti (dn @ x # y # z # r) =
      b64_pton_loop src 2 (ti + 1) (dn @ (push_bit 2 v0 OR drop_bit 4 v1) # push_bit 4 (v1 AND 0x0f) # z # r)"
    if "b64_val c0 = Some v0" "b64_val c1 = Some v1"
    using assms that
    by (simp add: b64_loop_step l list_update_append nth_append del: push_bit_and)
  show "b64_pton_loop (c2 # src) 2 (ti + 1) (dn @ a # w # z # r) =
      b64_pton_loop src 3 (ti + 2) (dn @ a # (w OR drop_bit 2 v2) # push_bit 6 (v2 AND 0x03) # r)"
    if "b64_val c2 = Some v2"
    using assms that b64_loop_step(3) [OF that, of "dn @ a # w # z # r" "ti + 1" src]
    by (simp add: u ti l list_update_append nth_append del: push_bit_and)
  show "b64_pton_loop (c3 # src) 3 (ti + 2) (dn @ a # b # w # r) =
      b64_pton_loop src 0 (ti + 3) (dn @ a # b # (w OR v3) # r)"
    if "b64_val c3 = Some v3"
    using assms that b64_loop_step(4) [OF that, of "dn @ a # b # w # r" "ti + 2" src]
    by (simp add: u ti l list_update_append nth_append del: push_bit_and)
qed

lemma b64_loop_no_val:
  "b64_val c = None \<Longrightarrow> \<not> isspace c \<Longrightarrow> b64_run (c # src) st ti tg =
     (if c = Pad64 then b64_pton_end (st, ti, tg, Some src) else None)"
  using b64_loop_stop by simp

text \<open>How a text without blanks can end at a character without a value.\<close>

lemma b64_no_blanks:
  assumes "\<forall>c\<in>set src. \<not> isspace c"
  shows "dropWhile isspace src = src" "list_all isspace src \<longleftrightarrow> src = []"
  using assms by (cases src; simp)+

lemma b64_loop_stops:
  assumes "b64_val c = None" "\<not> isspace c" "\<forall>c\<in>set src. \<not> isspace c"
  shows "b64_run (c # src) 0 ti tg = None"
    and "b64_run (c # src) (Suc 0) ti tg = None"
    and "b64_run (c # src) 2 ti tg =
      (if c = Pad64 \<and> src = [Pad64] \<and> tg ! unat ti = 0 then Some (sint ti, tg) else None)"
    and "b64_run (c # src) 3 ti tg =
      (if c = Pad64 \<and> src = [] \<and> tg ! unat ti = 0 then Some (sint ti, tg) else None)"
proof -
  note e = b64_loop_no_val [OF assms(1,2)] b64_pton_end_def Let_def
  have t: "list_all isspace (tl src) \<longleftrightarrow> tl src = []" using assms(3) by (intro b64_no_blanks) (cases src; simp)
  show "b64_run (c # src) 2 ti tg =
      (if c = Pad64 \<and> src = [Pad64] \<and> tg ! unat ti = 0 then Some (sint ti, tg) else None)"
    using b64_no_blanks [OF assms(3)] t by (cases src) (auto simp: e)
qed (use b64_no_blanks [OF assms(3)] in
      \<open>auto simp: b64_loop_no_val [OF assms(1,2)] b64_pton_end_def\<close>)

lemma b64_run_head:
  assumes "\<not> isspace c1" "\<forall>c\<in>set src. \<not> isspace c" "unat ti < length tg" "length tg < 2 ^ 31"
  shows "b64_val c0 = Some v0 \<Longrightarrow> b64_val c1 = None \<Longrightarrow> b64_run (c0 # c1 # src) 0 ti tg = None"
    and "\<not> isspace c0 \<Longrightarrow> b64_run [c0] 0 ti tg = None"
proof -
  show "b64_run (c0 # c1 # src) 0 ti tg = None" if "b64_val c0 = Some v0" "b64_val c1 = None"
    using b64_loop_step(1) [OF that(1) assms(4,3)] b64_loop_stops(2) [OF that(2) assms(1,2)]
    by simp
  show "b64_run [c0] 0 ti tg = None" if "\<not> isspace c0"
  proof (cases "b64_val c0")
    case None
    then show ?thesis using b64_loop_stops(1) [of c0 "[]"] that by simp
  next
    case (Some v)
    then show ?thesis using b64_loop_step(1) [OF Some assms(4,3), of "[]"] by (simp add: b64_pton_end_def)
  qed
qed

lemma b64_low_zero:
  "push_bit 4 (v AND 0x0f) = (0 :: byte) \<longleftrightarrow> v AND 0x0f = 0" "push_bit 6 (v AND 0x03) = (0 :: byte) \<longleftrightarrow> v AND 0x03 = 0"
  using b64_low_bits [of v 0] by (auto simp del: push_bit_and)

text \<open>From the start of a group, the state machine computes it, and leaves what it had written.\<close>

definition b64_reads :: "byte list \<Rightarrow> (int \<times> byte list) option \<Rightarrow> byte list option \<Rightarrow> bool" where
  "b64_reads dn r d \<longleftrightarrow>
     (case d of
        None \<Rightarrow> r = None
      | Some d \<Rightarrow> \<exists>tt. r = Some (int (length dn + length d), dn @ d @ tt))"

lemma b64_run_pads:
  assumes "length dn = unat ti" "length dn + 3 + length t < 2 ^ 31" "\<forall>c\<in>set (c0 # c1 # c2 # c3 # s). \<not> isspace c"
    and v: "b64_val c0 = Some v0" "b64_val c1 = Some v1"
  shows "b64_val c2 = None \<Longrightarrow>
      b64_reads dn (b64_run (c0 # c1 # c2 # c3 # s) 0 ti (dn @ x # y # z # t)) (b64_dec (c0 # c1 # c2 # c3 # s))"
    and "b64_val c2 = Some v2 \<Longrightarrow> b64_val c3 = None \<Longrightarrow>
      b64_reads dn (b64_run (c0 # c1 # c2 # c3 # s) 0 ti (dn @ x # y # z # t)) (b64_dec (c0 # c1 # c2 # c3 # s))"
proof -
  have u: "unat (ti + 1) = unat ti + 1" "unat (ti + 2) = unat ti + 2" using assms(1,2) by (simp_all add: unat_plus_no_wrap)
  have si: "sint (ti + 1) = 1 + int (unat ti)" "sint (ti + 2) = 2 + int (unat ti)" using u assms(1,2) by (simp_all add: sint_small)
  define a where "a = push_bit 2 v0 OR drop_bit 4 v1"
  note L2 = b64_loop_group(1) [OF assms(1,2) v, of "c2 # c3 # s" x y z, folded a_def]
  note n = assms(1) [symmetric]
  show "b64_reads dn (b64_run (c0 # c1 # c2 # c3 # s) 0 ti (dn @ x # y # z # t)) (b64_dec (c0 # c1 # c2 # c3 # s))"
    if c2: "b64_val c2 = None"
  proof -
    have dec: "b64_dec (c0 # c1 # c2 # c3 # s) =
        (if c2 = Pad64 \<and> c3 # s = [Pad64] \<and> v1 AND 0x0f = 0 then Some [a] else None)"
      using v c2 by (auto simp: a_def Let_def)
    show ?thesis unfolding dec L2 using assms(3) c2 v
      by (subst b64_loop_stops(3)) (auto simp: b64_reads_def nth_append u si n b64_low_zero simp del: push_bit_and)
  qed
  show "b64_reads dn (b64_run (c0 # c1 # c2 # c3 # s) 0 ti (dn @ x # y # z # t)) (b64_dec (c0 # c1 # c2 # c3 # s))"
    if c2: "b64_val c2 = Some v2" and c3: "b64_val c3 = None"
  proof -
    define b where "b = push_bit 4 (v1 AND 0x0f) OR drop_bit 2 v2"
    note L3 = b64_loop_group(2) [OF assms(1,2) c2, of "c3 # s" a "push_bit 4 (v1 AND 0x0f)" z, folded b_def]
    have dec: "b64_dec (c0 # c1 # c2 # c3 # s) =
        (if c3 = Pad64 \<and> s = [] \<and> v2 AND 0x03 = 0 then Some [a, b] else None)"
      using v c2 c3 b64_val_clean [OF c2] by (auto simp: a_def b_def Let_def)
    show ?thesis unfolding dec L2 L3 using assms(3) c3 v
      by (subst b64_loop_stops(4)) (auto simp: b64_reads_def nth_append u si n b64_low_zero simp del: push_bit_and)
  qed
qed

lemma b64_groups [case_names short group]:
  fixes s :: string
  assumes "\<And>s. length s < 4 \<Longrightarrow> P s" "\<And>c0 c1 c2 c3 s. P s \<Longrightarrow> P (c0 # c1 # c2 # c3 # s)"
  shows "P s"
proof (induction s rule: length_induct)
  case (1 s)
  then show ?case by (cases s rule: b64_dec.cases) (simp_all add: assms)
qed

lemma b64_run_short:
  assumes "length s < 4" "\<forall>c\<in>set s. \<not> isspace c" "length dn = unat ti" "length s \<le> length tt"
    "length dn + length tt < 2 ^ 31"
  shows "b64_reads dn (b64_run s 0 ti (dn @ tt)) (b64_dec s)"
proof -
  consider (none) "s = []" | (one) c0 where "s = [c0]" | (two) c0 c1 where "s = [c0, c1]"
    | (three) c0 c1 c2 where "s = [c0, c1, c2]"
    using assms(1) by (cases s rule: b64_dec.cases) simp_all
  then show ?thesis
  proof cases
    case none
    with assms show ?thesis by (simp add: b64_reads_def b64_pton_end_def sint_small)
  next
    case one
    with assms b64_run_head(2) [of c0 "[]" ti "dn @ tt" c0]
    show ?thesis by (cases tt) (simp_all add: b64_reads_def)
  next
    case two
    then obtain x y t where t: "tt = x # y # t" using assms(4) by (cases tt; cases "tl tt") auto
    have "b64_run [c0, c1] 0 ti (dn @ tt) = None" if "b64_val c0 = Some v0" "b64_val c1 = Some v1" for v0 v1
      using b64_loop_step(1) [OF that(1)] b64_loop_step(2) [OF that(2)] assms two t by (simp add: b64_pton_end_def)
    with two assms b64_run_head(1) [of c1 "[]" ti "dn @ tt" c0] b64_loop_stops(1) [of c0 "[c1]" ti "dn @ tt"]
    show ?thesis
      by (cases tt; cases "b64_val c0"; cases "b64_val c1") (simp_all add: b64_reads_def)
  next
    case three
    obtain x y z t where t: "tt = x # y # z # t" using three assms(4) by (cases tt; cases "tl tt"; cases "tl (tl tt)") auto
    have b: "length dn = unat ti" "length dn + 3 + length t < 2 ^ 31" using assms t by simp_all
    have "b64_run [c0, c1, c2] 0 ti (dn @ tt) = None" if "b64_val c0 = Some v0" "b64_val c1 = Some v1" for v0 v1
      using b64_loop_group(1) [OF b that, of "[c2]" x y z] b64_loop_group(2) [OF b, of c2 _ "[]"] t
        b64_loop_stops(3) [of c2 "[]"] three assms by (cases "b64_val c2") (simp_all add: b64_pton_end_def)
    with three assms b64_run_head(1) [of c1 "[c2]" ti "dn @ tt" c0] b64_loop_stops(1) [of c0 "[c1, c2]" ti "dn @ tt"]
    show ?thesis
      by (cases tt; cases "b64_val c0"; cases "b64_val c1") (simp_all add: b64_reads_def)
  qed
qed

lemma b64_loop_dec:
  assumes "\<forall>c\<in>set s. \<not> isspace c" "length dn = unat ti" "length s \<le> length tt" "length dn + length tt < 2 ^ 31"
  shows "b64_reads dn (b64_run s 0 ti (dn @ tt)) (b64_dec s)"
  using assms
proof (induction s arbitrary: dn ti tt rule: b64_groups)
  case (short s)
  then show ?case by (intro b64_run_short)
next
  case (group c0 c1 c2 c3 s)
  obtain x y z t where t: "tt = x # y # z # t" "length s < length t"
    using group(4) by (cases tt; cases "tl tt"; cases "tl (tl tt)") auto
  have bounds: "length dn = unat ti" "length dn + 3 + length t < 2 ^ 31" using group(3,5) t by simp_all
  have u: "unat (ti + 3) = unat ti + 3" using bounds by (simp add: unat_plus_no_wrap)
  note ns = group(2) and IH = group(1)
  consider (head) "b64_val c0 = None \<or> b64_val c1 = None"
    | (third) v0 v1 where "b64_val c0 = Some v0" "b64_val c1 = Some v1" "b64_val c2 = None"
    | (fourth) v0 v1 v2 where "b64_val c0 = Some v0" "b64_val c1 = Some v1" "b64_val c2 = Some v2" "b64_val c3 = None"
    | (full) v0 v1 v2 v3 where "b64_val c0 = Some v0" "b64_val c1 = Some v1" "b64_val c2 = Some v2" "b64_val c3 = Some v3"
    by force
  then show ?case
  proof cases
    case head
    with ns bounds t b64_run_head(1) [of c1 "c2 # c3 # s" ti "dn @ tt" c0]
      b64_loop_stops(1) [of c0 "c1 # c2 # c3 # s" ti "dn @ tt"]
    show ?thesis by (cases "b64_val c0") (simp_all add: b64_reads_def)
  next
    case third
    then show ?thesis unfolding t by (intro b64_run_pads(1) [OF bounds ns])
  next
    case fourth
    then show ?thesis unfolding t by (intro b64_run_pads(2) [OF bounds ns])
  next
    case full
    let ?g = "[push_bit 2 v0 OR drop_bit 4 v1, push_bit 4 (v1 AND 0x0f) OR drop_bit 2 v2, push_bit 6 (v2 AND 0x03) OR v3]"
    have L: "b64_pton_loop (c0 # c1 # c2 # c3 # s) 0 ti (dn @ tt) = b64_pton_loop s 0 (ti + 3) ((dn @ ?g) @ t)"
      using b64_loop_group [OF bounds] full t by (simp del: push_bit_and)
    have dec: "b64_dec (c0 # c1 # c2 # c3 # s) = map_option (\<lambda>d. ?g @ d) (b64_dec s)"
      using full b64_val_clean [OF full(3)] b64_val_clean [OF full(4)]
      by (simp add: Let_def del: push_bit_and)
    have "b64_reads (dn @ ?g) (b64_run s 0 (ti + 3) ((dn @ ?g) @ t)) (b64_dec s)"
      using ns bounds u t by (intro IH) simp_all
    then show ?thesis unfolding L dec b64_reads_def by (cases "b64_dec s") (simp_all del: push_bit_and)
  qed
qed

section \<open>Blanks\<close>

definition b64_strip :: "string \<Rightarrow> string" where
  "b64_strip s = filter (\<lambda>c. \<not> isspace c) s"

lemma b64_loop_strip:
  "b64_pton_loop (b64_strip s) st ti tg =
     map_option (\<lambda>(st, ti, tg, r). (st, ti, tg, map_option b64_strip r)) (b64_pton_loop s st ti tg)"
proof (induction s arbitrary: st ti tg)
  case (Cons c s)
  then show ?case
    by (auto simp: b64_strip_def b64_pton_loop.simps(2) Let_def split: option.split prod.split)
qed (simp add: b64_strip_def)

lemma dropWhile_strip:
  "dropWhile isspace s = [] \<longleftrightarrow> b64_strip s = []"
  "dropWhile isspace s = c # r \<Longrightarrow> b64_strip s = c # b64_strip r"
  by (induction s) (auto simp: b64_strip_def split: if_splits)

lemma b64_end_strip: "b64_pton_end (st, ti, tg, Some (b64_strip r)) = b64_pton_end (st, ti, tg, Some r)"
proof -
  have idem: "dropWhile isspace (b64_strip r) = b64_strip r"
    by (induction r) (simp_all add: b64_strip_def)
  have blank: "list_all isspace (b64_strip x) \<longleftrightarrow> list_all isspace x" for x
    by (induction x) (simp_all add: b64_strip_def)
  have "(dropWhile isspace r = [] \<longleftrightarrow> b64_strip r = []) \<and> hd (dropWhile isspace r) = hd (b64_strip r) \<and>
    (list_all isspace (tl (dropWhile isspace r)) \<longleftrightarrow> list_all isspace (tl (b64_strip r)))"
  proof (cases "dropWhile isspace r")
    case Nil
    then show ?thesis using dropWhile_strip(1) [of r] by (simp del: dropWhile_eq_Nil_conv)
  next
    case (Cons c q)
    then show ?thesis using dropWhile_strip(2) [OF Cons] blank by simp
  qed
  then show ?thesis
    by (simp only: b64_pton_end_def prod.case option.case Let_def idem if_distrib [of "list_all isspace"] blank cong: if_cong)
qed

lemma b64_pton_strip: "b64_pton (b64_strip s) tg = b64_pton s tg"
proof -
  have "b64_pton_end (st, ti, t, map_option b64_strip r) = b64_pton_end (st, ti, t, r)" for st ti t r
    by (cases r) (simp_all add: b64_end_strip)
  then show ?thesis by (simp add: b64_pton_def b64_loop_strip bind_map_option case_prod_unfold o_def)
qed

lemma b64_pton_iff:
  assumes "length s \<le> length tg" "length tg < 2 ^ 31"
  shows "(\<exists>tg'. b64_pton s tg = Some (int (length d), tg') \<and> take (length d) tg' = d) \<longleftrightarrow>
    b64_ntop d [] (length s + 1) = Some (b64_strip s)"
proof -
  let ?s = "b64_strip s"
  have len: "length ?s \<le> length s" by (simp add: b64_strip_def)
  have "b64_reads [] (b64_pton ?s tg) (b64_dec ?s)"
    unfolding b64_pton_def using b64_loop_dec [of ?s "[]" 0 tg] assms order_trans [OF len assms(1)]
    by (simp add: b64_strip_def)
  then have "(\<exists>tg'. b64_pton s tg = Some (int (length d), tg') \<and> take (length d) tg' = d) \<longleftrightarrow> b64_dec ?s = Some d"
    by (cases "b64_dec ?s") (auto simp: b64_reads_def b64_pton_strip)
  also have "\<dots> \<longleftrightarrow> b64_enc d = ?s" using b64_dec_enc b64_enc_dec by metis
  also have "\<dots> \<longleftrightarrow> b64_ntop d [] (length s + 1) = Some ?s"
    using len by (auto simp: b64_ntop_enc)
  finally show ?thesis .
qed

section \<open>Properties\<close>

text \<open>
  C29: the base64 reader accepts exactly the encodings. Given a block at least as long as the
  text, it returns the length of \<open>d\<close> and has written \<open>d\<close> if and only if the text, with its
  blanks left out, is the encoding of \<open>d\<close>: no byte sequence has a second spelling, and the
  unused bits of the last group cannot carry anything.
\<close>

theorem b64_pton_spec:
  assumes "length s \<le> length tg" "length tg < 2 ^ 31"
  shows "(\<exists>tg'. b64_pton s tg = Some (int (length d), tg') \<and> take (length d) tg' = d) \<longleftrightarrow>
    b64_ntop d [] (length s + 1) = Some (b64_strip s)"
  by (rule b64_pton_iff [OF assms])

theorem b64_pton_spec_witness:
  "\<exists>tg'. b64_pton ''TQ = ='' [9, 9, 9, 9, 9, 9] = Some (1, tg') \<and> take 1 tg' = [77]"
proof -
  have e: "b64_ntop [77] [] (length ''TQ = ='' + 1) = Some (b64_strip ''TQ = ='')"
    by (simp add: b64_output_def b64_char_def Base64_def Pad64_def b64_strip_def isspace_def)
  show ?thesis using b64_pton_spec [THEN iffD2, OF _ _ e, of "[9, 9, 9, 9, 9, 9]"] by simp
qed

end
