(* ===== verification/Sshbuf_Misc.thy ===== *)
theory Sshbuf_Misc
  imports Sshbuf_Refs Base64_Codec
begin

text \<open>
  \<^verbatim>\<open>sshbuf-misc.c\<close>: a buffer as hexadecimal and base64 text and back, as a C string, comparing
  and searching it, and filling it from a descriptor. A block that \<^verbatim>\<open>malloc\<close> returns has unknown
  contents; where a function reads such a block before it is all written, the contents are an
  argument. The debug dumps of the file only print.
\<close>

section \<open>Characters and bytes\<close>

definition chr_byte :: "char \<Rightarrow> byte" where
  "chr_byte c = of_nat (of_char c)"

definition byte_chr :: "byte \<Rightarrow> char" where
  "byte_chr b = char_of (unat b)"

lemma byte_chr_chr_byte [simp]: "byte_chr (chr_byte c) = c"
proof -
  have "(of_char c :: nat) < 256" by (rule nat_of_char_less_256)
  then have "unat (of_nat (of_char c) :: byte) = of_char c" by (simp add: unat_of_nat_small)
  then show ?thesis by (simp add: byte_chr_def chr_byte_def)
qed

lemma chr_byte_byte_chr [simp]: "chr_byte (byte_chr b) = b"
proof -
  have "unat b < 256" using unat_less_2p [of b] by simp
  then have "(of_char (char_of (unat b)) :: nat) = unat b" by simp
  then show ?thesis by (simp add: byte_chr_def chr_byte_def)
qed

section \<open>Hexadecimal\<close>

definition hex_char :: "byte \<Rightarrow> char" where
  "hex_char v = ''0123456789abcdef'' ! unat v"

definition sshbuf_dtob16 :: "allocator \<Rightarrow> sshbuf \<Rightarrow> string option" where
  "sshbuf_dtob16 am buf =
     (let len = sshbuf_len buf in
      if len = 0 then (if am 1 = NULL then None else Some [])
      else if SIZE_MAX div 2 \<le> len \<or> am (len * 2 + 1) = NULL then None
      else Some (concat (map (\<lambda>p. [hex_char (drop_bit 4 p AND 0x0f), hex_char (p AND 0x0f)]) (sshbuf_bytes buf))))"

section \<open>Base64\<close>

text \<open>The loop that writes the text with a line break after every 70 characters.\<close>

fun put_wrapped :: "allocator \<Rightarrow> sshbuf \<Rightarrow> nat \<Rightarrow> string \<Rightarrow> unit res \<times> sshbuf" where
  "put_wrapped am b64 i [] =
     (if (i - 1) mod 70 \<noteq> 69 then sshbuf_put_u8 am b64 10 else (Inr (), b64))"
| "put_wrapped am b64 i (c # s) =
     (case sshbuf_put_u8 am b64 (chr_byte c) of
        (Inl r, b) \<Rightarrow> (Inl r, b)
      | (Inr _, b) \<Rightarrow>
          (case (if i mod 70 = 69 then sshbuf_put_u8 am b 10 else (Inr (), b)) of
             (Inl r, b1) \<Rightarrow> (Inl r, b1)
           | (Inr _, b1) \<Rightarrow> put_wrapped am b1 (Suc i) s))"

definition sshbuf_dtob64 :: "allocator \<Rightarrow> sshbuf \<Rightarrow> sshbuf \<Rightarrow> bool \<Rightarrow> unit res \<times> sshbuf" where
  "sshbuf_dtob64 am d b64 wrap =
     (if sshbuf_len d \<ge> SIZE_MAX div 2 then (Inl SSH_ERR_INVALID_ARGUMENT, b64)
      else if sshbuf_len d = 0 then (Inr (), b64)
      else
        let slen = ((sshbuf_len d + 2) div 3) * 4 + 1 in
        if am slen = NULL then (Inl SSH_ERR_ALLOC_FAIL, b64)
        else
          (case b64_ntop (sshbuf_bytes d) [] (unat slen) of
             None \<Rightarrow> (Inl SSH_ERR_INTERNAL_ERROR, b64)
           | Some s \<Rightarrow>
               if wrap then put_wrapped am b64 0 s else sshbuf_put am b64 (map chr_byte s)))"

text \<open>\<open>blk\<close> is the block of \<^verbatim>\<open>strlen(b64)\<close> bytes that the decoder writes to.\<close>

definition sshbuf_b64tod :: "allocator \<Rightarrow> byte list \<Rightarrow> sshbuf \<Rightarrow> string \<Rightarrow> unit res \<times> sshbuf" where
  "sshbuf_b64tod am blk buf b64 =
     (if b64 = [] then (Inr (), buf)
      else if am (of_nat (length b64)) = NULL then (Inl SSH_ERR_ALLOC_FAIL, buf)
      else
        (case b64_pton b64 (take (length b64) blk) of
           None \<Rightarrow> (Inl SSH_ERR_INVALID_FORMAT, buf)
         | Some (nlen, p) \<Rightarrow>
             if nlen < 0 then (Inl SSH_ERR_INVALID_FORMAT, buf)
             else sshbuf_put am buf (take (nat nlen) p)))"

definition sshbuf_dup_string :: "allocator \<Rightarrow> sshbuf \<Rightarrow> string option" where
  "sshbuf_dup_string am buf =
     (if sshbuf_ptr buf = NULL then None
      else
        let s = sshbuf_bytes buf; l = length s in
        case (if l > 0 then memchr0 s else None) of
          Some p \<Rightarrow>
            if p \<noteq> l - 1 then None
            else if am (of_nat l) = NULL then None
            else Some (map byte_chr (take (l - 1) s))
        | None \<Rightarrow> if am (of_nat l + 1) = NULL then None else Some (map byte_chr s))"

definition sshbuf_dtob64_string :: "allocator \<Rightarrow> sshbuf \<Rightarrow> bool \<Rightarrow> string option" where
  "sshbuf_dtob64_string am buf wrap =
     (case sshbuf_new am of
        None \<Rightarrow> None
      | Some tmp \<Rightarrow>
          (case sshbuf_dtob64 am buf tmp wrap of
             (Inl _, _) \<Rightarrow> None
           | (Inr _, tmp1) \<Rightarrow> sshbuf_dup_string am tmp1))"

text \<open>The loop that removes the pad characters from the end; one turn per byte is enough.\<close>

fun drop_padding :: "nat \<Rightarrow> sshbuf \<Rightarrow> unit res \<times> sshbuf" where
  "drop_padding 0 b = (Inl SSH_ERR_INTERNAL_ERROR, b)"
| "drop_padding (Suc n) b =
     (if sshbuf_len b \<le> 1 \<or> sshbuf_ptr b = NULL then (Inl SSH_ERR_INTERNAL_ERROR, b)
      else if last (sshbuf_bytes b) \<noteq> chr_byte CHR ''='' then (Inr (), b)
      else
        (case sshbuf_consume_end b 1 of
           (Inl r, b1) \<Rightarrow> (Inl r, b1)
         | (Inr _, b1) \<Rightarrow> drop_padding n b1))"

definition url_char :: "byte \<Rightarrow> byte" where
  "url_char p = (if p = chr_byte CHR ''+'' then chr_byte CHR ''-''
                 else if p = chr_byte CHR ''/'' then chr_byte CHR ''_'' else p)"

definition sshbuf_dtourlb64 :: "allocator \<Rightarrow> sshbuf \<Rightarrow> sshbuf \<Rightarrow> bool \<Rightarrow> unit res \<times> sshbuf" where
  "sshbuf_dtourlb64 am d b64 wrap =
     (case sshbuf_new am of
        None \<Rightarrow> (Inl SSH_ERR_ALLOC_FAIL, b64)
      | Some b \<Rightarrow>
          (case sshbuf_dtob64 am d b wrap of
             (Inl r, _) \<Rightarrow> (Inl r, b64)
           | (Inr _, b1) \<Rightarrow>
               (case drop_padding (unat (sshbuf_len b1) + 1) b1 of
                  (Inl r, _) \<Rightarrow> (Inl r, b64)
                | (Inr _, b2) \<Rightarrow>
                    if sshbuf_mutable_ptr b2 = NULL then (Inl SSH_ERR_INTERNAL_ERROR, b64)
                    else sshbuf_put am b64 (map url_char (sshbuf_bytes b2)))))"

section \<open>Comparing and searching\<close>

definition sshbuf_cmp :: "sshbuf \<Rightarrow> size_t \<Rightarrow> byte list \<Rightarrow> unit res" where
  "sshbuf_cmp b offset s =
     (let len = of_nat (length s) in
      if sshbuf_ptr b = NULL then Inl SSH_ERR_INTERNAL_ERROR
      else if offset > SSHBUF_SIZE_MAX \<or> len > SSHBUF_SIZE_MAX \<or> len = 0 then Inl SSH_ERR_INVALID_ARGUMENT
      else if offset + len > sshbuf_len b then Inl SSH_ERR_MESSAGE_INCOMPLETE
      else if mem_read (sb_mem b) (unat (sb_off b + offset)) (length s) \<noteq> s then Inl SSH_ERR_INVALID_FORMAT
      else Inr ())"

fun memmem :: "byte list \<Rightarrow> byte list \<Rightarrow> nat option" where
  "memmem h n =
     (if length h < length n then None
      else if take (length n) h = n then Some 0
      else case h of [] \<Rightarrow> None | _ # h' \<Rightarrow> map_option Suc (memmem h' n))"

definition sshbuf_find :: "sshbuf \<Rightarrow> size_t \<Rightarrow> byte list \<Rightarrow> size_t res" where
  "sshbuf_find b start_offset s =
     (let len = of_nat (length s) in
      if sshbuf_ptr b = NULL then Inl SSH_ERR_INTERNAL_ERROR
      else if start_offset > SSHBUF_SIZE_MAX \<or> len > SSHBUF_SIZE_MAX \<or> len = 0 then Inl SSH_ERR_INVALID_ARGUMENT
      else if start_offset > sshbuf_len b \<or> start_offset + len > sshbuf_len b then Inl SSH_ERR_MESSAGE_INCOMPLETE
      else
        (case memmem (drop (unat start_offset) (sshbuf_bytes b)) s of
           None \<Rightarrow> Inl SSH_ERR_INVALID_FORMAT
         | Some i \<Rightarrow> Inr (start_offset + of_nat i)))"

section \<open>Reading from a descriptor\<close>

text \<open>What \<^verbatim>\<open>read\<close> did, and the values of \<^verbatim>\<open>errno\<close> that the callers tell apart.\<close>

datatype errno = EINTR | EAGAIN | EPIPE | EOTHER

datatype read_result = Rd_bytes "byte list" | Rd_error errno

definition sshbuf_read :: "allocator \<Rightarrow> read_result \<Rightarrow> errno \<Rightarrow> sshbuf \<Rightarrow> size_t \<Rightarrow> nat res \<times> sshbuf \<times> errno" where
  "sshbuf_read am rd errno buf maxlen =
     (case sshbuf_reserve am buf maxlen of
        (Inl r, b) \<Rightarrow> (Inl r, b, errno)
      | (Inr d, b) \<Rightarrow>
          let bs = (case rd of Rd_bytes bs \<Rightarrow> take (unat maxlen) bs | Rd_error _ \<Rightarrow> []);
              b1 = sshbuf_fill b d bs;
              adjust = maxlen - of_nat (length bs)
          in (case (if adjust \<noteq> 0 then sshbuf_consume_end b1 adjust else (Inr (), b1)) of
                (Inl _, b2) \<Rightarrow>
                  (Inl SSH_ERR_INTERNAL_ERROR,
                   sshbuf_fill b2 (d + of_nat (length bs)) (replicate (unat adjust) 0),
                   case rd of Rd_error e \<Rightarrow> e | Rd_bytes _ \<Rightarrow> errno)
              | (Inr _, b2) \<Rightarrow>
                  (case rd of
                     Rd_error e \<Rightarrow> (Inl SSH_ERR_SYSTEM_ERROR, b2, e)
                   | Rd_bytes _ \<Rightarrow>
                       if bs = [] then (Inl SSH_ERR_SYSTEM_ERROR, b2, EPIPE)
                       else (Inr (length bs), b2, errno))))"

section \<open>Lemmas\<close>

lemma sshbuf_put_u8_put: "sshbuf_put_u8 am buf v = sshbuf_put am buf [v]"
  by (simp add: sshbuf_put_u8_def sshbuf_put_def)

text \<open>The text with its line breaks.\<close>

fun wrap_text :: "nat \<Rightarrow> string \<Rightarrow> string" where
  "wrap_text i [] = (if (i - 1) mod 70 \<noteq> 69 then [CHR 0x0A] else [])"
| "wrap_text i (c # s) = c # (if i mod 70 = 69 then [CHR 0x0A] else []) @ wrap_text (Suc i) s"

lemma length_wrap_text: "length (wrap_text i s) \<le> 2 * length s + 1"
  by (induction i s rule: wrap_text.induct) auto

lemma strip_wrap_text: "b64_strip (wrap_text i s) = b64_strip s"
  by (induction i s rule: wrap_text.induct) (auto simp: b64_strip_def isspace_def)

lemma chr_byte_newline: "chr_byte CHR 0x0A = 10"
  by (simp add: chr_byte_def)

lemma sshbuf_put_u8_ok:
  assumes "sshbuf_inv b" "sshbuf_put_u8 am b v = (Inr u, b')"
  shows "sshbuf_inv b'" "sshbuf_contents b' = sshbuf_contents b @ [v]"
  using sshbuf_put_ok [OF assms(1), of am "[v]" u b'] assms(2) by (simp_all add: sshbuf_put_u8_put)

lemma put_wrapped_ok:
  "sshbuf_inv b \<Longrightarrow> put_wrapped am b i s = (Inr u, b') \<Longrightarrow>
     sshbuf_inv b' \<and> sshbuf_contents b' = sshbuf_contents b @ map chr_byte (wrap_text i s)"
proof (induction s arbitrary: b i)
  case Nil
  then show ?case by (auto simp: chr_byte_newline dest: sshbuf_put_u8_ok split: if_splits)
next
  case (Cons c s)
  from Cons.prems(2) obtain u1 u2 b1 b2 where p: "sshbuf_put_u8 am b (chr_byte c) = (Inr u1, b1)"
    "(if i mod 70 = 69 then sshbuf_put_u8 am b1 10 else (Inr (), b1)) = (Inr u2, b2)"
    "put_wrapped am b2 (Suc i) s = (Inr u, b')"
    by (auto split: prod.splits sum.splits)
  note b1 = sshbuf_put_u8_ok [OF Cons.prems(1) p(1)]
  have "sshbuf_inv b2 \<and> sshbuf_contents b2 = sshbuf_contents b1 @ (if i mod 70 = 69 then [10] else [])"
    using b1 p(2) by (auto dest: sshbuf_put_u8_ok split: if_splits)
  with Cons.IH [OF _ p(3)] b1 show ?case by (auto simp: chr_byte_newline)
qed

lemma b64_strip_enc: "b64_strip (b64_enc d) = b64_enc d"
proof -
  have "\<not> isspace Pad64" by (simp add: Pad64_def isspace_def)
  moreover have "\<not> isspace (b64_char v)" if "v \<in> set (b64_output a b c)" for v a b c
    using b64_val_clean [OF b64_char_val, of v] b64_output_small [of a b c] that by (auto simp: list_all_iff)
  ultimately have "\<forall>c\<in>set (b64_enc d). \<not> isspace c"
    by (induction d rule: b64_enc.induct) (auto dest: in_set_takeD)
  then show ?thesis by (simp add: b64_strip_def filter_id_conv)
qed

text \<open>What the encoder appends: the encoding of the data, with or without line breaks.\<close>

lemma sshbuf_dtob64_ok:
  assumes "sshbuf_inv d" "sshbuf_inv b" "sshbuf_dtob64 am d b wrap = (Inr u, b')"
  shows "sshbuf_inv b' \<and> (\<exists>t. sshbuf_contents b' = sshbuf_contents b @ map chr_byte t \<and>
    b64_strip t = b64_enc (sshbuf_contents d))"
proof (cases "sshbuf_contents d = []")
  case True
  then have "sshbuf_len d = 0" using assms(1) by (metis unat_sshbuf_len length_0_conv unat_eq_zero)
  with assms True show ?thesis by (auto simp: sshbuf_dtob64_def b64_strip_def split: if_splits)
next
  case False
  let ?e = "b64_enc (sshbuf_contents d)"
  have "sshbuf_len d \<noteq> 0" using assms(1) False by (metis unat_sshbuf_len length_0_conv unat_0)
  with assms(3) have "(if wrap then put_wrapped am b 0 ?e else sshbuf_put am b (map chr_byte ?e)) = (Inr u, b')"
    using assms(1) by (auto simp: sshbuf_dtob64_def Let_def b64_ntop_enc split: if_splits option.splits)
  note put = this
  have "length ?e < 2 ^ 64"
    using length_contents_le_max [OF assms(1)] sshbuf_inv_bounds [OF assms(1)] by (simp add: length_b64_enc)
  show ?thesis
  proof (cases wrap)
    case True
    with put put_wrapped_ok [OF assms(2)] strip_wrap_text [of 0 ?e] show ?thesis
      by (auto simp: b64_strip_enc intro!: exI [of _ "wrap_text 0 ?e"])
  next
    case False
    with put \<open>length ?e < 2 ^ 64\<close> sshbuf_put_ok(1,2) [OF assms(2)] show ?thesis
      by (auto simp: b64_strip_enc intro!: exI [of _ ?e])
  qed
qed

lemma sshbuf_b64tod_enc:
  assumes "sshbuf_inv buf" "sshbuf_writable buf" "\<And>n. am n \<noteq> NULL"
    and t: "b64_strip t = b64_enc v" "length t < 2 ^ 31" "length t \<le> length blk"
    and room: "length (sshbuf_contents buf) + length v \<le> unat (sb_max_size buf)"
  shows "\<exists>buf'. sshbuf_b64tod am blk buf t = (Inr (), buf') \<and> sshbuf_inv buf' \<and>
    sshbuf_contents buf' = sshbuf_contents buf @ v"
proof (cases "t = []")
  case True
  with t(1) have "v = []" by (cases v rule: b64_enc.cases) (simp_all add: b64_strip_def b64_output_def)
  with True assms(1) show ?thesis by (simp add: sshbuf_b64tod_def)
next
  case False
  have "length (b64_strip t) \<le> length t" by (simp add: b64_strip_def)
  then have "b64_ntop v [] (length t + 1) = Some (b64_strip t)" using t(1) by (simp add: b64_ntop_enc)
  then obtain p where p: "b64_pton t (take (length t) blk) = Some (int (length v), p)" "take (length v) p = v"
    using b64_pton_iff [of t "take (length t) blk" v] t by auto
  obtain b' where b': "sshbuf_put am buf v = (Inr (), b')"
    using sshbuf_put_succeeds [of buf am v] assms(1,2,3) room by blast
  have "length v < 2 ^ 64" using room sshbuf_inv_bounds(4) [OF assms(1)] by simp
  with sshbuf_put_ok [OF assms(1) b'] p b' False assms(3) show ?thesis by (simp add: sshbuf_b64tod_def)
qed

section \<open>Searching\<close>

declare memmem.simps [simp del]

lemma memmem_spec:
  "case memmem h n of
     None \<Rightarrow> \<not> (\<exists>i. i + length n \<le> length h \<and> take (length n) (drop i h) = n)
   | Some i \<Rightarrow> i + length n \<le> length h \<and> take (length n) (drop i h) = n \<and>
       (\<forall>j<i. take (length n) (drop j h) \<noteq> n)"
proof (induction h)
  case Nil
  then show ?case by (simp add: memmem.simps)
next
  case (Cons x h)
  consider "length (x # h) < length n" | "length n \<le> length (x # h)" "take (length n) (x # h) = n"
    | "length n \<le> length (x # h)" "take (length n) (x # h) \<noteq> n" by linarith
  then show ?case
  proof cases
    case 3
    have drop: "take (length n) (drop i (x # h)) = n \<longleftrightarrow>
        i \<noteq> 0 \<and> take (length n) (drop (i - 1) h) = n" for i
      using 3 by (cases i) auto
    show ?thesis
      using Cons.IH 3 by (cases "memmem h n") (auto simp: memmem.simps [of "x # h"] drop less_Suc_eq_0_disj)
  qed (simp_all add: memmem.simps [of "x # h"])
qed

section \<open>Reading\<close>

lemma mem_write_extend:
  "i + length bs + k \<le> length m \<Longrightarrow> mem_write m i (bs @ mem_read m (i + length bs) k) = mem_write m i bs"
  by (simp add: mem_write_def mem_read_def min_absorb1 add.assoc)
    (metis add.assoc append_take_drop_id drop_drop add.commute)

text \<open>A reserved region, partly written and cut back to what was written.\<close>

lemma sshbuf_reserve_part:
  assumes inv: "sshbuf_inv buf" and res: "sshbuf_reserve am buf len = (Inr i, b)" and bs: "length bs \<le> unat len"
  shows "\<exists>b'. (if len - of_nat (length bs) \<noteq> 0 then sshbuf_consume_end (sshbuf_fill b i bs) (len - of_nat (length bs))
      else (Inr (), sshbuf_fill b i bs)) = (Inr (), b') \<and> sshbuf_inv b' \<and> sb_max_size b' = sb_max_size buf \<and>
    sshbuf_writable b' \<and> sshbuf_contents b' = sshbuf_contents buf @ bs"
proof -
  define k where "k = unat len - length bs"
  define r where "r = mem_read (sb_mem b) (unat i + length bs) k"
  note rg = sshbuf_reserve_region [OF inv res]
  have r: "length r = k" using rg bs by (simp add: r_def k_def)
  have fill: "sshbuf_fill b i (bs @ r) = sshbuf_fill b i bs"
    using rg bs by (simp add: sshbuf_fill_def r_def mem_write_extend k_def)
  have "length (bs @ r) = unat len" using r bs by (simp add: k_def)
  note ok = sshbuf_reserve_ok [OF inv res this, unfolded fill]
  have "unat (of_nat (length bs) :: size_t) = length bs" using bs unat_less_2p [of len] by (intro unat_of_nat_small) simp
  then have adj: "unat (len - of_nat (length bs)) = k" using bs by (simp add: k_def unat_sub word_le_nat_alt)
  then have "len - of_nat (length bs) = 0 \<longleftrightarrow> k = 0" by (metis unat_eq_zero)
  moreover have "\<exists>b'. sshbuf_consume_end (sshbuf_fill b i bs) (len - of_nat (length bs)) = (Inr (), b') \<and>
      sshbuf_inv b' \<and> sb_max_size b' = sb_max_size buf \<and> sshbuf_writable b' \<and>
      sshbuf_contents b' = sshbuf_contents buf @ bs"
    using sshbuf_consume_end_eq(2) [OF ok(1), of "len - of_nat (length bs)"] ok adj r by auto
  ultimately show ?thesis using ok r by auto
qed

lemma sshbuf_read_ok:
  assumes "sshbuf_inv buf" "sshbuf_read am rd e buf maxlen = (r, buf', e')"
  shows "sshbuf_inv buf' \<and> sb_max_size buf' = sb_max_size buf \<and> sshbuf_writable buf' = sshbuf_writable buf \<and>
    (case r of
       Inr n \<Rightarrow> \<exists>bs. rd = Rd_bytes bs \<and> n = length (take (unat maxlen) bs) \<and> 0 < n \<and>
         sshbuf_contents buf' = sshbuf_contents buf @ take (unat maxlen) bs
     | Inl _ \<Rightarrow> sshbuf_contents buf' = sshbuf_contents buf)"
proof (cases "sshbuf_reserve am buf maxlen")
  case (Pair x b)
  show ?thesis
  proof (cases x)
    case (Inl err)
    with Pair assms sshbuf_reserve_error(1-4) [OF assms(1), of am maxlen err b] show ?thesis
      by (auto simp: sshbuf_read_def)
  next
    case (Inr d)
    let ?bs = "case rd of Rd_bytes bs \<Rightarrow> take (unat maxlen) bs | Rd_error _ \<Rightarrow> []"
    have "length ?bs \<le> unat maxlen" by (simp split: read_result.split)
    then obtain b' where b': "(if maxlen - of_nat (length ?bs) \<noteq> 0
        then sshbuf_consume_end (sshbuf_fill b d ?bs) (maxlen - of_nat (length ?bs))
        else (Inr (), sshbuf_fill b d ?bs)) = (Inr (), b')" "sshbuf_inv b'" "sb_max_size b' = sb_max_size buf"
      "sshbuf_writable b'" "sshbuf_contents b' = sshbuf_contents buf @ ?bs"
      using sshbuf_reserve_part [OF assms(1), of am maxlen d b ?bs] Pair Inr by auto
    have "sshbuf_check_reserve buf maxlen = Inr ()"
      using Pair Inr by (auto simp: sshbuf_reserve_def sshbuf_allocate_def split: prod.splits sum.splits)
    then have "sshbuf_writable buf" using sshbuf_check_reserve_eq [OF assms(1)] by (auto split: if_splits)
    with assms(2) Pair Inr b' show ?thesis
      by (cases rd) (auto simp: sshbuf_read_def Let_def split: if_splits)
  qed
qed

section \<open>Properties\<close>

text \<open>
  C30: a buffer that is written as base64 text, with or without line breaks, is read back from
  that text: if the encoder succeeds on an empty buffer, the decoder appends exactly the original
  bytes, whatever the block it decodes into held before.
\<close>

theorem sshbuf_b64_round_trip:
  assumes "sshbuf_inv d" "sshbuf_inv b" "sshbuf_contents b = []"
    and "sshbuf_dtob64 am d b wrap = (Inr (), b')" "sshbuf_contents b' = map chr_byte t"
    and "sshbuf_inv buf" "sshbuf_writable buf" "\<And>n. am n \<noteq> NULL" "length t \<le> length blk"
    and "length (sshbuf_contents buf) + length (sshbuf_contents d) \<le> unat (sb_max_size buf)"
  shows "\<exists>buf'. sshbuf_b64tod am blk buf t = (Inr (), buf') \<and> sshbuf_inv buf' \<and>
    sshbuf_contents buf' = sshbuf_contents buf @ sshbuf_contents d"
proof -
  from sshbuf_dtob64_ok [OF assms(1,2,4)] assms(3,5)
  obtain t' where t': "sshbuf_inv b'" "map chr_byte t = map chr_byte t'"
    "b64_strip t' = b64_enc (sshbuf_contents d)" by auto
  have "t = t'" using arg_cong [OF t'(2), of "map byte_chr"] by (simp add: o_def)
  moreover have "length t < 2 ^ 31"
    using arg_cong [OF assms(5), of length] length_contents_le_max [OF t'(1)] sshbuf_inv_bounds(4) [OF t'(1)] by simp
  ultimately show ?thesis
    using sshbuf_b64tod_enc [of buf am t "sshbuf_contents d" blk] assms t'(3) by blast
qed

definition ex_data :: "byte list \<Rightarrow> sshbuf" where
  "ex_data bs = \<lparr>sb_d = 4096, sb_cd = 4096, sb_off = 0, sb_size = of_nat (length bs), sb_max_size = 1024,
     sb_alloc = 256, sb_readonly = False, sb_refcount = 1, sb_parent = None, sb_mem = bs @ replicate (256 - length bs) 0\<rparr>"

lemma ex_data_ok: "length bs \<le> 256 \<Longrightarrow> sshbuf_inv (ex_data bs) \<and> sshbuf_contents (ex_data bs) = bs \<and>
    sshbuf_writable (ex_data bs) \<and> sb_max_size (ex_data bs) = 1024"
  by (simp add: sshbuf_inv_iff ex_data_def sshbuf_contents_def mem_read_def sshbuf_writable_def unat_of_nat_small)

theorem sshbuf_b64_round_trip_witness:
  "\<exists>buf'. sshbuf_b64tod (\<lambda>_. 4096) (replicate 9 7) (ex_data [1]) ''SGk='' = (Inr (), buf') \<and>
     sshbuf_contents buf' = [1, 72, 105]"
proof -
  have inv: "sshbuf_inv (ex_data [72, 105])" "sshbuf_inv (ex_data [])" "sshbuf_inv (ex_data [1])"
    by (simp_all add: sshbuf_inv_iff ex_data_def)
  have c: "sshbuf_contents (ex_data [72, 105]) = [72, 105]" "sshbuf_contents (ex_data []) = []"
    "sshbuf_contents (ex_data [1]) = [1]"
    by (simp_all add: sshbuf_contents_def ex_data_def mem_read_def)
  have w: "sshbuf_writable (ex_data bs)" "sb_max_size (ex_data bs) = 1024" for bs
    by (simp_all add: sshbuf_writable_def ex_data_def)
  have len: "sshbuf_len (ex_data [72, 105]) = 2"
    using inv(1) by (simp add: sshbuf_len_def ex_data_def)
  obtain b' where b': "sshbuf_put (\<lambda>_. 4096) (ex_data []) (map chr_byte ''SGk='') = (Inr (), b')"
    using sshbuf_put_succeeds [OF inv(2) w(1), of "\<lambda>_. 4096" "map chr_byte ''SGk=''"] c w by auto
  have "b64_ntop [72, 105] [] 5 = Some ''SGk=''"
    by (simp add: b64_output_def b64_char_def Base64_def Pad64_def)
  then have d: "sshbuf_dtob64 (\<lambda>_. 4096) (ex_data [72, 105]) (ex_data []) False = (Inr (), b')"
    using b' inv(1) c(1) len by (simp add: sshbuf_dtob64_def SIZE_MAX_def)
  have "sshbuf_contents b' = map chr_byte ''SGk=''" using sshbuf_put_ok(2) [OF inv(2) b'] c(2) by simp
  from sshbuf_b64_round_trip [OF inv(1,2) c(2) d this inv(3) w(1), of "replicate 9 7"]
  show ?thesis by (auto simp: c w)
qed

end
