(* ===== verification/Compat.thy ===== *)
theory Compat
  imports Match
begin

text \<open>
  Peers with known faults (\<^verbatim>\<open>compat.c\<close>): the flags that follow from the version string of the
  peer, by the first row of a table whose pattern list matches, and the key exchange proposal
  without the methods that the peer gets wrong. The bit mask \<^verbatim>\<open>ssh->compat\<close> is the set of its bits.
\<close>

datatype compat_flag =
    SSH_BUG_UTF8TTYMODE | SSH_BUG_SIGTYPE | SSH_BUG_SIGTYPE74 | SSH_OLD_SESSIONID | SSH_BUG_DEBUG
  | SSH_BUG_SCANNER | SSH_OLD_DHGEX | SSH_BUG_NOREKEY | SSH_BUG_EXTEOF | SSH_BUG_PROBE | SSH_OLD_FORWARD_ADDR
  | SSH_NEW_OPENSSH | SSH_BUG_DYNAMIC_RPORT | SSH_BUG_CURVE25519PAD | SSH_BUG_HOSTKEYS | SSH_BUG_DHGEX_LARGE

definition compat_check :: "(string \<times> compat_flag set) list" where
  "compat_check =
    [(''OpenSSH_2.*,OpenSSH_3.0*,OpenSSH_3.1*'', {SSH_BUG_EXTEOF, SSH_OLD_FORWARD_ADDR, SSH_BUG_SIGTYPE}),
     (''OpenSSH_3.*'', {SSH_OLD_FORWARD_ADDR, SSH_BUG_SIGTYPE}),
     (''Sun_SSH_1.0*'', {SSH_BUG_NOREKEY, SSH_BUG_EXTEOF, SSH_BUG_SIGTYPE}),
     (''OpenSSH_2*,OpenSSH_3*,OpenSSH_4*'', {SSH_BUG_SIGTYPE}),
     (''OpenSSH_5*'', {SSH_NEW_OPENSSH, SSH_BUG_DYNAMIC_RPORT, SSH_BUG_SIGTYPE}),
     (''OpenSSH_6.6.1*'', {SSH_NEW_OPENSSH, SSH_BUG_SIGTYPE}),
     (''OpenSSH_6.5*,OpenSSH_6.6*'', {SSH_NEW_OPENSSH, SSH_BUG_CURVE25519PAD, SSH_BUG_SIGTYPE}),
     (''OpenSSH_7.4*'', {SSH_NEW_OPENSSH, SSH_BUG_SIGTYPE, SSH_BUG_SIGTYPE74}),
     (''OpenSSH_7.0*,OpenSSH_7.1*,OpenSSH_7.2*,OpenSSH_7.3*,OpenSSH_7.5*,OpenSSH_7.6*,OpenSSH_7.7*'',
       {SSH_NEW_OPENSSH, SSH_BUG_SIGTYPE}),
     (''OpenSSH*'', {SSH_NEW_OPENSSH}),
     (''*MindTerm*'', {}),
     (''3.0.*'', {SSH_BUG_DEBUG}),
     (''3.0 SecureCRT*'', {SSH_OLD_SESSIONID}),
     (''1.7 SecureFX*'', {SSH_OLD_SESSIONID}),
     (''Cisco-1.*'', {SSH_BUG_DHGEX_LARGE, SSH_BUG_HOSTKEYS}),
     (''*SSH_Version_Mapper*'', {SSH_BUG_SCANNER}),
     (''PuTTY_Local:*,PuTTY-Release-0.5*,PuTTY_Release_0.5*,PuTTY_Release_0.60*,PuTTY_Release_0.61*,PuTTY_Release_0.62*,PuTTY_Release_0.63*,PuTTY_Release_0.64*'',
       {SSH_OLD_DHGEX}),
     (''FuTTY*'', {SSH_OLD_DHGEX}),
     (''Probe-*'', {SSH_BUG_PROBE}),
     (''TeraTerm SSH*,TTSSH/1.5.*,TTSSH/2.1*,TTSSH/2.2*,TTSSH/2.3*,TTSSH/2.4*,TTSSH/2.5*,TTSSH/2.6*,TTSSH/2.70*,TTSSH/2.71*,TTSSH/2.72*'',
       {SSH_BUG_HOSTKEYS}),
     (''WinSCP_release_4*,WinSCP_release_5.0*,WinSCP_release_5.1,WinSCP_release_5.1.*,WinSCP_release_5.5,WinSCP_release_5.5.*,WinSCP_release_5.6,WinSCP_release_5.6.*,WinSCP_release_5.7,WinSCP_release_5.7.1,WinSCP_release_5.7.2,WinSCP_release_5.7.3,WinSCP_release_5.7.4'',
       {SSH_OLD_DHGEX}),
     (''ConfD-*'', {SSH_BUG_UTF8TTYMODE}),
     (''Twisted_*'', {}),
     (''Twisted*'', {SSH_BUG_DEBUG})]"

definition compat_banner :: "string \<Rightarrow> compat_flag set" where
  "compat_banner version =
     (case find (\<lambda>(pat, bugs). match_pattern_list version pat False = 1) compat_check of
        None \<Rightarrow> {}
      | Some (pat, bugs) \<Rightarrow> bugs)"

text \<open>\<open>None\<close> where the code calls \<^verbatim>\<open>fatal\<close>: no memory, or nothing left to propose.\<close>

definition compat_kex_proposal :: "allocator \<Rightarrow> compat_flag set \<Rightarrow> string \<Rightarrow> string option" where
  "compat_kex_proposal am ssh_compat p =
     (if ssh_compat \<inter> {SSH_BUG_CURVE25519PAD, SSH_OLD_DHGEX} = {} then Some p
      else
        case (if SSH_BUG_CURVE25519PAD \<in> ssh_compat
              then match_filter_denylist am p ''curve25519-sha256@libssh.org'' else Some p) of
          None \<Rightarrow> None
        | Some cp \<Rightarrow>
            (case (if SSH_OLD_DHGEX \<in> ssh_compat
                   then match_filter_denylist am cp
                     ''diffie-hellman-group-exchange-sha256,diffie-hellman-group-exchange-sha1''
                   else Some cp) of
               None \<Rightarrow> None
             | Some cp2 \<Rightarrow> if cp2 = [] then None else Some cp2))"

end
