(* ===== verification/Nchan.thy ===== *)
theory Nchan
  imports Sshbuf_Misc Compat
begin

text \<open>
  \<^verbatim>\<open>nchan.c\<close>: the two half-closes of a channel. \<^verbatim>\<open>istate\<close> is the direction from the local
  descriptor to the peer, \<^verbatim>\<open>ostate\<close> the direction from the peer to the descriptor. Every
  handler is a function from the channel to its new state and the messages it sends. A handler
  that calls \<^verbatim>\<open>fatal\<close> has the outcome \<open>Fatal\<close> and one that ends the connection with
  \<^verbatim>\<open>ssh_packet_disconnect\<close> the outcome \<open>Disconnect\<close>; a packet that cannot be queued is fatal in
  the code, so a message that is sent is queued. The states are an enumeration, so the range
  checks of \<^verbatim>\<open>chan_set_istate\<close> and \<^verbatim>\<open>chan_set_ostate\<close> always hold. System calls on descriptors
  that only log their failure (\<^verbatim>\<open>shutdown\<close>, \<^verbatim>\<open>fcntl\<close>, \<^verbatim>\<open>close\<close>) have no effect on the channel.
\<close>

section \<open>The channel\<close>

datatype chan_type =
    SSH_CHANNEL_X11_LISTENER | SSH_CHANNEL_PORT_LISTENER | SSH_CHANNEL_OPENING
  | SSH_CHANNEL_OPEN | SSH_CHANNEL_CLOSED | SSH_CHANNEL_AUTH_SOCKET | SSH_CHANNEL_X11_OPEN
  | SSH_CHANNEL_LARVAL | SSH_CHANNEL_RPORT_LISTENER | SSH_CHANNEL_CONNECTING
  | SSH_CHANNEL_DYNAMIC | SSH_CHANNEL_ZOMBIE | SSH_CHANNEL_MUX_LISTENER | SSH_CHANNEL_MUX_CLIENT
  | SSH_CHANNEL_ABANDONED | SSH_CHANNEL_UNIX_LISTENER | SSH_CHANNEL_RUNIX_LISTENER
  | SSH_CHANNEL_MUX_PROXY | SSH_CHANNEL_RDYNAMIC_OPEN | SSH_CHANNEL_RDYNAMIC_FINISH

datatype chan_istate =
  CHAN_INPUT_OPEN | CHAN_INPUT_WAIT_DRAIN | CHAN_INPUT_WAIT_OCLOSE | CHAN_INPUT_CLOSED

datatype chan_ostate =
  CHAN_OUTPUT_OPEN | CHAN_OUTPUT_WAIT_DRAIN | CHAN_OUTPUT_WAIT_IEOF | CHAN_OUTPUT_CLOSED

datatype chan_flag = CHAN_CLOSE_SENT | CHAN_CLOSE_RCVD | CHAN_EOF_SENT | CHAN_EOF_RCVD | CHAN_LOCAL

datatype chan_io =
    SSH_CHAN_IO_RFD | SSH_CHAN_IO_WFD | SSH_CHAN_IO_EFD_R | SSH_CHAN_IO_EFD_W
  | SSH_CHAN_IO_SOCK_R | SSH_CHAN_IO_SOCK_W

datatype chan_extended = CHAN_EXTENDED_IGNORE | CHAN_EXTENDED_READ | CHAN_EXTENDED_WRITE

text \<open>The bit masks \<^verbatim>\<open>flags\<close>, \<^verbatim>\<open>io_want\<close> and \<^verbatim>\<open>io_ready\<close> are the sets of their bits.\<close>

record channel =
  c_type :: chan_type
  c_self :: int
  c_remote_id :: u32
  c_have_remote_id :: bool
  c_istate :: chan_istate
  c_ostate :: chan_ostate
  c_flags :: "chan_flag set"
  c_rfd :: int
  c_wfd :: int
  c_efd :: int
  c_sock :: int
  c_io_want :: "chan_io set"
  c_io_ready :: "chan_io set"
  c_isatty :: bool
  c_force_drain :: bool
  c_delayed :: bool
  c_detach_close :: bool
  c_input :: sshbuf
  c_output :: sshbuf
  c_extended :: sshbuf
  c_remote_window :: u32
  c_remote_maxpacket :: u32
  c_local_window :: u32
  c_local_window_exceeded :: u32
  c_local_window_max :: u32
  c_local_consumed :: u32
  c_local_maxpacket :: u32
  c_extended_usage :: chan_extended
  c_ctype :: string
  c_datagram :: bool
  c_mux_ctx :: "int option"
  c_mux_downstream_id :: u32

datatype chan_msg =
    SSH2_MSG_CHANNEL_EOF u32
  | SSH2_MSG_CHANNEL_CLOSE u32
  | SSH2_MSG_CHANNEL_DATA u32 "byte list"
  | SSH2_MSG_CHANNEL_EXTENDED_DATA u32 u32 "byte list"
  | SSH2_MSG_CHANNEL_WINDOW_ADJUST u32 u32
  | SSH2_MSG_CHANNEL_REQUEST u32 string bool
  | SSH2_MSG_GLOBAL_REQUEST string bool string u32
  | SSH2_MSG_IGNORE nat

type_synonym chan_step = "(channel \<times> chan_msg list) outcome"

fun and_then :: "chan_step \<Rightarrow> (channel \<Rightarrow> chan_step) \<Rightarrow> chan_step" where
  "and_then (Done (c, ms)) f =
     (case f c of Done (c', ms') \<Rightarrow> Done (c', ms @ ms') | Fatal \<Rightarrow> Fatal | Disconnect \<Rightarrow> Disconnect)"
| "and_then Fatal f = Fatal"
| "and_then Disconnect f = Disconnect"

definition silent :: "channel \<Rightarrow> chan_step" where
  "silent c = Done (c, [])"

definition CHANNEL_EFD_INPUT_ACTIVE :: "channel \<Rightarrow> bool" where
  "CHANNEL_EFD_INPUT_ACTIVE c \<longleftrightarrow>
     c_extended_usage c = CHAN_EXTENDED_READ \<and> (c_efd c \<noteq> - 1 \<or> sshbuf_len (c_extended c) > 0)"

definition CHANNEL_EFD_OUTPUT_ACTIVE :: "channel \<Rightarrow> bool" where
  "CHANNEL_EFD_OUTPUT_ACTIVE c \<longleftrightarrow>
     c_extended_usage c = CHAN_EXTENDED_WRITE \<and> c_efd c \<noteq> - 1 \<and>
     (c_flags c \<inter> {CHAN_EOF_RCVD, CHAN_CLOSE_RCVD} = {} \<or> sshbuf_len (c_extended c) > 0)"

section \<open>Descriptors\<close>

text \<open>\<^verbatim>\<open>channel_close_fd\<close> of \<^verbatim>\<open>channels.c\<close>: every field that holds the descriptor forgets it.\<close>

definition channel_close_fd :: "channel \<Rightarrow> int \<Rightarrow> channel" where
  "channel_close_fd c fd =
     (if fd = - 1 then c
      else
        let c1 = (if fd = c_rfd c
              then c\<lparr>c_io_want := c_io_want c - {SSH_CHAN_IO_RFD},
                     c_io_ready := c_io_ready c - {SSH_CHAN_IO_RFD}, c_rfd := - 1\<rparr> else c);
            c2 = (if fd = c_wfd c1
              then c1\<lparr>c_io_want := c_io_want c1 - {SSH_CHAN_IO_WFD},
                      c_io_ready := c_io_ready c1 - {SSH_CHAN_IO_WFD}, c_wfd := - 1\<rparr> else c1);
            c3 = (if fd = c_efd c2
              then c2\<lparr>c_io_want := c_io_want c2 - {SSH_CHAN_IO_EFD_R, SSH_CHAN_IO_EFD_W},
                      c_io_ready := c_io_ready c2 - {SSH_CHAN_IO_EFD_R, SSH_CHAN_IO_EFD_W},
                      c_efd := - 1\<rparr> else c2)
        in if fd = c_sock c3
           then c3\<lparr>c_io_want := c_io_want c3 - {SSH_CHAN_IO_SOCK_R, SSH_CHAN_IO_SOCK_W},
                   c_io_ready := c_io_ready c3 - {SSH_CHAN_IO_SOCK_R, SSH_CHAN_IO_SOCK_W},
                   c_sock := - 1\<rparr> else c3)"

definition chan_shutdown_write :: "allocator \<Rightarrow> channel \<Rightarrow> channel" where
  "chan_shutdown_write am c =
     (let c1 = c\<lparr>c_output := sshbuf_reset am (c_output c)\<rparr> in
      if c_type c1 = SSH_CHANNEL_LARVAL then c1
      else if c_sock c1 \<noteq> - 1 then c1
      else channel_close_fd c1 (c_wfd c1))"

definition chan_shutdown_read :: "channel \<Rightarrow> channel" where
  "chan_shutdown_read c =
     (if c_type c = SSH_CHANNEL_LARVAL then c
      else if c_sock c \<noteq> - 1 then c
      else channel_close_fd c (c_rfd c))"

definition chan_shutdown_extended_read :: "channel \<Rightarrow> channel" where
  "chan_shutdown_extended_read c =
     (if c_type c = SSH_CHANNEL_LARVAL \<or> c_efd c = - 1 then c
      else if c_extended_usage c \<noteq> CHAN_EXTENDED_READ \<and> c_extended_usage c \<noteq> CHAN_EXTENDED_IGNORE then c
      else channel_close_fd c (c_efd c))"

section \<open>Actions\<close>

definition chan_set_istate :: "chan_istate \<Rightarrow> channel \<Rightarrow> channel" where
  "chan_set_istate next c = c\<lparr>c_istate := next\<rparr>"

definition chan_set_ostate :: "chan_ostate \<Rightarrow> channel \<Rightarrow> channel" where
  "chan_set_ostate next c = c\<lparr>c_ostate := next\<rparr>"

definition chan_send_eof2 :: "channel \<Rightarrow> chan_step" where
  "chan_send_eof2 c =
     (if c_istate c = CHAN_INPUT_WAIT_DRAIN then
        if \<not> c_have_remote_id c then Fatal
        else Done (c\<lparr>c_flags := insert CHAN_EOF_SENT (c_flags c)\<rparr>, [SSH2_MSG_CHANNEL_EOF (c_remote_id c)])
      else silent c)"

definition chan_send_close2 :: "channel \<Rightarrow> chan_step" where
  "chan_send_close2 c =
     (if c_ostate c \<noteq> CHAN_OUTPUT_CLOSED \<or> c_istate c \<noteq> CHAN_INPUT_CLOSED then silent c
      else if CHAN_CLOSE_SENT \<in> c_flags c then silent c
      else if \<not> c_have_remote_id c then Fatal
      else Done (c\<lparr>c_flags := insert CHAN_CLOSE_SENT (c_flags c)\<rparr>, [SSH2_MSG_CHANNEL_CLOSE (c_remote_id c)]))"

definition chan_send_eow2 :: "compat_flag set \<Rightarrow> channel \<Rightarrow> chan_step" where
  "chan_send_eow2 ssh_compat c =
     (if c_ostate c = CHAN_OUTPUT_CLOSED then silent c
      else if SSH_NEW_OPENSSH \<notin> ssh_compat then silent c
      else if \<not> c_have_remote_id c then Fatal
      else Done (c, [SSH2_MSG_CHANNEL_REQUEST (c_remote_id c) ''eow@openssh.com'' False]))"

section \<open>Events\<close>

definition chan_read_failed :: "channel \<Rightarrow> channel" where
  "chan_read_failed c =
     (if c_istate c = CHAN_INPUT_OPEN
      then chan_set_istate CHAN_INPUT_WAIT_DRAIN (chan_shutdown_read c)
      else c)"

definition chan_ibuf_empty :: "channel \<Rightarrow> chan_step" where
  "chan_ibuf_empty c =
     (if sshbuf_len (c_input c) \<noteq> 0 then silent c
      else if c_istate c = CHAN_INPUT_WAIT_DRAIN then
        and_then
          (if c_flags c \<inter> {CHAN_CLOSE_SENT, CHAN_LOCAL} = {} then chan_send_eof2 c else silent c)
          (\<lambda>c. silent (chan_set_istate CHAN_INPUT_CLOSED c))
      else silent c)"

definition chan_obuf_empty :: "allocator \<Rightarrow> channel \<Rightarrow> channel" where
  "chan_obuf_empty am c =
     (if sshbuf_len (c_output c) \<noteq> 0 then c
      else if c_ostate c = CHAN_OUTPUT_WAIT_DRAIN
      then chan_set_ostate CHAN_OUTPUT_CLOSED (chan_shutdown_write am c)
      else c)"

definition chan_rcvd_eow :: "channel \<Rightarrow> channel" where
  "chan_rcvd_eow c =
     (if c_istate c = CHAN_INPUT_OPEN
      then chan_set_istate CHAN_INPUT_CLOSED (chan_shutdown_read c)
      else c)"

definition chan_rcvd_ieof :: "allocator \<Rightarrow> channel \<Rightarrow> channel" where
  "chan_rcvd_ieof am c =
     (let c1 = c\<lparr>c_flags := insert CHAN_EOF_RCVD (c_flags c)\<rparr>;
          c2 = (if c_ostate c1 = CHAN_OUTPUT_OPEN then chan_set_ostate CHAN_OUTPUT_WAIT_DRAIN c1 else c1)
      in if c_ostate c2 = CHAN_OUTPUT_WAIT_DRAIN \<and> sshbuf_len (c_output c2) = 0 \<and>
            \<not> CHANNEL_EFD_OUTPUT_ACTIVE c2
         then chan_obuf_empty am c2 else c2)"

definition chan_rcvd_oclose :: "channel \<Rightarrow> chan_step" where
  "chan_rcvd_oclose c =
     (let c1 = (if CHAN_LOCAL \<notin> c_flags c then c\<lparr>c_flags := insert CHAN_CLOSE_RCVD (c_flags c)\<rparr> else c)
      in if c_type c1 = SSH_CHANNEL_LARVAL
         then silent (chan_set_istate CHAN_INPUT_CLOSED (chan_set_ostate CHAN_OUTPUT_CLOSED c1))
         else
           let c2 = (if c_ostate c1 = CHAN_OUTPUT_OPEN then chan_set_ostate CHAN_OUTPUT_WAIT_DRAIN c1 else c1)
           in (case c_istate c2 of
                 CHAN_INPUT_OPEN \<Rightarrow>
                   silent (chan_set_istate CHAN_INPUT_CLOSED
                     (chan_shutdown_extended_read (chan_shutdown_read c2)))
               | CHAN_INPUT_WAIT_DRAIN \<Rightarrow>
                   and_then (if CHAN_LOCAL \<notin> c_flags c2 then chan_send_eof2 c2 else silent c2)
                     (\<lambda>c. silent (chan_set_istate CHAN_INPUT_CLOSED (chan_shutdown_extended_read c)))
               | _ \<Rightarrow> silent c2))"

definition chan_write_failed :: "allocator \<Rightarrow> compat_flag set \<Rightarrow> channel \<Rightarrow> chan_step" where
  "chan_write_failed am ssh_compat c =
     (if c_ostate c = CHAN_OUTPUT_OPEN \<or> c_ostate c = CHAN_OUTPUT_WAIT_DRAIN then
        let c1 = chan_shutdown_write am c in
        and_then (if c_ctype c1 = ''session'' then chan_send_eow2 ssh_compat c1 else silent c1)
          (\<lambda>c. silent (chan_set_ostate CHAN_OUTPUT_CLOSED c))
      else silent c)"

definition chan_mark_dead :: "channel \<Rightarrow> channel" where
  "chan_mark_dead c = c\<lparr>c_type := SSH_CHANNEL_ZOMBIE\<rparr>"

text \<open>
  Whether the channel can be freed. The answer may send the close message, so it comes with
  the step.
\<close>

definition chan_is_dead :: "compat_flag set \<Rightarrow> channel \<Rightarrow> bool \<Rightarrow> (bool \<times> channel \<times> chan_msg list) outcome" where
  "chan_is_dead ssh_compat c do_send =
     (if c_type c = SSH_CHANNEL_ZOMBIE then Done (True, c, [])
      else if c_istate c \<noteq> CHAN_INPUT_CLOSED \<or> c_ostate c \<noteq> CHAN_OUTPUT_CLOSED then Done (False, c, [])
      else if SSH_BUG_EXTEOF \<in> ssh_compat \<and> c_extended_usage c = CHAN_EXTENDED_WRITE \<and> c_efd c \<noteq> - 1 \<and>
              sshbuf_len (c_extended c) > 0 then Done (False, c, [])
      else if CHAN_LOCAL \<in> c_flags c then Done (True, c, [])
      else if CHAN_CLOSE_SENT \<notin> c_flags c \<and> \<not> do_send \<and> CHAN_CLOSE_RCVD \<in> c_flags c then Done (True, c, [])
      else
        (case (if CHAN_CLOSE_SENT \<notin> c_flags c \<and> do_send then chan_send_close2 c else silent c) of
           Done (c1, ms) \<Rightarrow> Done (CHAN_CLOSE_SENT \<in> c_flags c1 \<and> CHAN_CLOSE_RCVD \<in> c_flags c1, c1, ms)
         | Fatal \<Rightarrow> Fatal
         | Disconnect \<Rightarrow> Disconnect))"

section \<open>What a channel may say\<close>

text \<open>
  The order of messages that RFC 4254 prescribes for one direction of a channel, as a monitor
  over the messages sent: no data after end-of-file, one end-of-file, one close, and nothing
  after the close; all of them for the same remote channel. The monitor's state is whether
  end-of-file and close have been sent.
\<close>

fun chan_monitor :: "u32 \<Rightarrow> bool \<times> bool \<Rightarrow> chan_msg list \<Rightarrow> (bool \<times> bool) option" where
  "chan_monitor rid s [] = Some s"
| "chan_monitor rid (eof, cl) (SSH2_MSG_CHANNEL_EOF i # ms) =
     (if i = rid \<and> \<not> eof \<and> \<not> cl then chan_monitor rid (True, cl) ms else None)"
| "chan_monitor rid (eof, cl) (SSH2_MSG_CHANNEL_CLOSE i # ms) =
     (if i = rid \<and> \<not> cl then chan_monitor rid (eof, True) ms else None)"
| "chan_monitor rid (eof, cl) (SSH2_MSG_CHANNEL_DATA i d # ms) =
     (if i = rid \<and> \<not> eof \<and> \<not> cl then chan_monitor rid (eof, cl) ms else None)"
| "chan_monitor rid (eof, cl) (SSH2_MSG_CHANNEL_EXTENDED_DATA i t d # ms) =
     (if i = rid \<and> \<not> eof \<and> \<not> cl then chan_monitor rid (eof, cl) ms else None)"
| "chan_monitor rid (eof, cl) (SSH2_MSG_CHANNEL_WINDOW_ADJUST i n # ms) =
     (if i = rid \<and> \<not> cl then chan_monitor rid (eof, cl) ms else None)"
| "chan_monitor rid (eof, cl) (SSH2_MSG_CHANNEL_REQUEST i t w # ms) =
     (if i = rid \<and> \<not> cl then chan_monitor rid (eof, cl) ms else None)"
| "chan_monitor rid s (SSH2_MSG_GLOBAL_REQUEST t w h p # ms) = chan_monitor rid s ms"
| "chan_monitor rid s (SSH2_MSG_IGNORE n # ms) = chan_monitor rid s ms"

definition said :: "channel \<Rightarrow> bool \<times> bool" where
  "said c = (CHAN_EOF_SENT \<in> c_flags c, CHAN_CLOSE_SENT \<in> c_flags c)"

text \<open>
  The invariant between events: end-of-file is only sent once input is closed, close only once
  both directions are, and the two intermediate states that the code names but never enters
  are not entered.
\<close>

definition chan_inv :: "channel \<Rightarrow> bool" where
  "chan_inv c \<longleftrightarrow>
     (CHAN_EOF_SENT \<in> c_flags c \<longrightarrow> c_istate c = CHAN_INPUT_CLOSED) \<and>
     (CHAN_CLOSE_SENT \<in> c_flags c \<longrightarrow> c_istate c = CHAN_INPUT_CLOSED \<and> c_ostate c = CHAN_OUTPUT_CLOSED) \<and>
     c_istate c \<noteq> CHAN_INPUT_WAIT_OCLOSE \<and> c_ostate c \<noteq> CHAN_OUTPUT_WAIT_IEOF"

fun istate_rank :: "chan_istate \<Rightarrow> nat" where
  "istate_rank CHAN_INPUT_OPEN = 0"
| "istate_rank CHAN_INPUT_WAIT_DRAIN = 1"
| "istate_rank CHAN_INPUT_WAIT_OCLOSE = 2"
| "istate_rank CHAN_INPUT_CLOSED = 3"

fun ostate_rank :: "chan_ostate \<Rightarrow> nat" where
  "ostate_rank CHAN_OUTPUT_OPEN = 0"
| "ostate_rank CHAN_OUTPUT_WAIT_DRAIN = 1"
| "ostate_rank CHAN_OUTPUT_WAIT_IEOF = 2"
| "ostate_rank CHAN_OUTPUT_CLOSED = 3"

text \<open>
  The contract of a handler: from a channel that satisfies the invariant it gives one that
  does, its messages follow the monitor, the remote channel stays the same, and no half-close
  is undone.
\<close>

definition moves :: "channel \<Rightarrow> channel \<Rightarrow> bool" where
  "moves c c' \<longleftrightarrow> chan_inv c' \<and> c_remote_id c' = c_remote_id c \<and>
     istate_rank (c_istate c) \<le> istate_rank (c_istate c') \<and>
     ostate_rank (c_ostate c) \<le> ostate_rank (c_ostate c')"

definition good_step :: "channel \<Rightarrow> chan_step \<Rightarrow> bool" where
  "good_step c r =
     (case r of
        Done (c', ms) \<Rightarrow> moves c c' \<and> chan_monitor (c_remote_id c) (said c) ms = Some (said c')
      | _ \<Rightarrow> True)"

lemma chan_monitor_append:
  "chan_monitor rid s (ms @ ms') = Option.bind (chan_monitor rid s ms) (\<lambda>s'. chan_monitor rid s' ms')"
  by (induction rid s ms rule: chan_monitor.induct) auto

lemma good_step_and_then:
  assumes "good_step c r" "\<And>c' ms. r = Done (c', ms) \<Longrightarrow> good_step c' (f c')"
  shows "good_step c (and_then r f)"
proof (cases r)
  case (Done p)
  obtain c' ms where r: "r = Done (c', ms)" using Done by (cases p) auto
  from assms(1) r have 1: "moves c c'" "chan_monitor (c_remote_id c) (said c) ms = Some (said c')"
    by (simp_all add: good_step_def)
  with assms(2) [OF r] r show ?thesis
    by (auto simp: good_step_def moves_def chan_monitor_append split: outcome.splits)
qed (auto simp: good_step_def)

lemma moves_refl: "chan_inv c \<Longrightarrow> moves c c"
  by (simp add: moves_def)

text \<open>Closing a descriptor does not touch the state machine.\<close>

lemma channel_close_fd_frame [simp]:
  "c_istate (channel_close_fd c fd) = c_istate c"
  "c_ostate (channel_close_fd c fd) = c_ostate c"
  "c_flags (channel_close_fd c fd) = c_flags c"
  "c_remote_id (channel_close_fd c fd) = c_remote_id c"
  "c_have_remote_id (channel_close_fd c fd) = c_have_remote_id c"
  "c_type (channel_close_fd c fd) = c_type c"
  "c_ctype (channel_close_fd c fd) = c_ctype c"
  "c_input (channel_close_fd c fd) = c_input c"
  "c_output (channel_close_fd c fd) = c_output c"
  "c_extended (channel_close_fd c fd) = c_extended c"
  by (simp_all add: channel_close_fd_def Let_def)

lemma shutdown_frame [simp]:
  "c_istate (chan_shutdown_write am c) = c_istate c"
  "c_ostate (chan_shutdown_write am c) = c_ostate c"
  "c_flags (chan_shutdown_write am c) = c_flags c"
  "c_remote_id (chan_shutdown_write am c) = c_remote_id c"
  "c_ctype (chan_shutdown_write am c) = c_ctype c"
  "c_have_remote_id (chan_shutdown_write am c) = c_have_remote_id c"
  "c_istate (chan_shutdown_read c) = c_istate c"
  "c_ostate (chan_shutdown_read c) = c_ostate c"
  "c_flags (chan_shutdown_read c) = c_flags c"
  "c_remote_id (chan_shutdown_read c) = c_remote_id c"
  "c_istate (chan_shutdown_extended_read c) = c_istate c"
  "c_ostate (chan_shutdown_extended_read c) = c_ostate c"
  "c_flags (chan_shutdown_extended_read c) = c_flags c"
  "c_remote_id (chan_shutdown_extended_read c) = c_remote_id c"
  by (simp_all add: chan_shutdown_write_def chan_shutdown_read_def chan_shutdown_extended_read_def Let_def)

lemma set_state_frame [simp]:
  "c_istate (chan_set_istate s c) = s" "c_ostate (chan_set_istate s c) = c_ostate c"
  "c_flags (chan_set_istate s c) = c_flags c" "c_remote_id (chan_set_istate s c) = c_remote_id c"
  "c_istate (chan_set_ostate s' c) = c_istate c" "c_ostate (chan_set_ostate s' c) = s'"
  "c_flags (chan_set_ostate s' c) = c_flags c" "c_remote_id (chan_set_ostate s' c) = c_remote_id c"
  "c_have_remote_id (chan_set_ostate s' c) = c_have_remote_id c"
  "c_type (chan_set_ostate s' c) = c_type c" "c_output (chan_set_ostate s' c) = c_output c"
  by (simp_all add: chan_set_istate_def chan_set_ostate_def)

lemma rank_max [simp]: "istate_rank s \<le> 3" "ostate_rank s' \<le> 3"
  by (cases s; simp) (cases s'; simp)

lemmas good_defs = good_step_def moves_def said_def chan_inv_def silent_def

lemma good_silent: "chan_inv c \<Longrightarrow> good_step c (silent c)"
  by (auto simp: good_defs)

lemma good_read_failed: "chan_inv c \<Longrightarrow> good_step c (silent (chan_read_failed c))"
  by (auto simp: good_defs chan_read_failed_def)

lemma good_ibuf_empty: "chan_inv c \<Longrightarrow> good_step c (chan_ibuf_empty c)"
  by (auto simp: good_defs chan_ibuf_empty_def chan_send_eof2_def)

lemma good_obuf_empty: "chan_inv c \<Longrightarrow> good_step c (silent (chan_obuf_empty am c))"
  by (auto simp: good_defs chan_obuf_empty_def)

lemma good_rcvd_eow: "chan_inv c \<Longrightarrow> good_step c (silent (chan_rcvd_eow c))"
  by (auto simp: good_defs chan_rcvd_eow_def)

lemma good_rcvd_ieof: "chan_inv c \<Longrightarrow> good_step c (silent (chan_rcvd_ieof am c))"
  by (auto simp: good_defs chan_rcvd_ieof_def chan_obuf_empty_def Let_def)

lemma good_rcvd_oclose: "chan_inv c \<Longrightarrow> good_step c (chan_rcvd_oclose c)"
  by (cases "c_type c = SSH_CHANNEL_LARVAL"; cases "CHAN_LOCAL \<in> c_flags c"; cases "c_istate c";
      cases "c_ostate c = CHAN_OUTPUT_OPEN"; cases "c_have_remote_id c")
    (simp_all add: good_defs chan_rcvd_oclose_def chan_send_eof2_def Let_def)

lemma good_write_failed: "chan_inv c \<Longrightarrow> good_step c (chan_write_failed am ssh_compat c)"
  by (auto simp: good_defs chan_write_failed_def chan_send_eow2_def Let_def)

lemma good_mark_dead: "chan_inv c \<Longrightarrow> good_step c (silent (chan_mark_dead c))"
  by (auto simp: good_defs chan_mark_dead_def)

lemma good_is_dead:
  "chan_inv c \<Longrightarrow> chan_is_dead ssh_compat c do_send = Done (b, c', ms) \<Longrightarrow> good_step c (Done (c', ms))"
  by (auto simp: good_defs chan_is_dead_def chan_send_close2_def split: if_splits)

text \<open>
  A channel that is found dead was marked so, is local, or has exchanged close messages in
  both directions (with the answer still to be sent if the caller asked not to send it).
\<close>

lemma chan_is_dead_closed:
  assumes "chan_is_dead ssh_compat c True = Done (True, c', ms)"
  shows "c_type c = SSH_CHANNEL_ZOMBIE \<or>
    c_istate c = CHAN_INPUT_CLOSED \<and> c_ostate c = CHAN_OUTPUT_CLOSED \<and>
    (CHAN_LOCAL \<in> c_flags c \<or> {CHAN_CLOSE_SENT, CHAN_CLOSE_RCVD} \<subseteq> c_flags c')"
  using assms by (auto simp: chan_is_dead_def chan_send_close2_def silent_def split: if_splits)

end
