(* ===== verification/Channels.thy ===== *)
theory Channels
  imports Nchan
begin

text \<open>
  The core of \<^verbatim>\<open>channels.c\<close>: the table of channels, the accounting of the two flow-control
  windows, what is queued for the peer, and the handlers of the channel messages that the peer
  sends. A handler gets the rest of the incoming packet as a buffer and gives the new table and
  the messages it queues. Function pointers that other parts of the program install
  (\<^verbatim>\<open>open_confirm\<close>, \<^verbatim>\<open>detach_user\<close>, filters, status confirmations) are not called; the results
  of \<^verbatim>\<open>read\<close> and \<^verbatim>\<open>write\<close> on descriptors are arguments.
\<close>

section \<open>The table\<close>

record permission =
  host_to_connect :: "string option"
  port_to_connect :: int
  listen_host :: "string option"
  listen_path :: "string option"
  listen_port :: int
  downstream :: "int option"

record permission_set =
  permitted_user :: "permission list"
  permitted_admin :: "permission list"
  all_permitted :: bool

record ssh_channels =
  channels :: "channel option list"
  local_perms :: permission_set
  remote_perms :: permission_set

definition CHANNELS_MAX_CHANNELS :: nat where "CHANNELS_MAX_CHANNELS = 16 * 1024"
definition CHAN_INPUT_MAX :: size_t where "CHAN_INPUT_MAX = 16 * 1024 * 1024"
definition CHAN_RBUF :: size_t where "CHAN_RBUF = 16 * 1024"
definition CHANNEL_MAX_READ :: size_t where "CHANNEL_MAX_READ = 32 * 1024"

definition perms_none :: permission_set where
  "perms_none = \<lparr>permitted_user = [], permitted_admin = [], all_permitted = False\<rparr>"

definition channel_init_channels :: ssh_channels where
  "channel_init_channels = \<lparr>channels = replicate 10 None, local_perms = perms_none, remote_perms = perms_none\<rparr>"

definition channel_by_id :: "ssh_channels \<Rightarrow> int \<Rightarrow> channel option" where
  "channel_by_id sc i =
     (if i < 0 \<or> length (channels sc) \<le> nat i then None else channels sc ! nat i)"

definition channel_by_remote_id :: "ssh_channels \<Rightarrow> u32 \<Rightarrow> channel option" where
  "channel_by_remote_id sc rid =
     Option.bind (find (\<lambda>x. case x of None \<Rightarrow> False
        | Some c \<Rightarrow> c_have_remote_id c \<and> c_remote_id c = rid) (channels sc)) id"

definition channel_lookup :: "ssh_channels \<Rightarrow> int \<Rightarrow> channel option" where
  "channel_lookup sc i =
     (case channel_by_id sc i of
        None \<Rightarrow> None
      | Some c \<Rightarrow>
          if c_type c \<in> {SSH_CHANNEL_X11_OPEN, SSH_CHANNEL_LARVAL, SSH_CHANNEL_CONNECTING,
               SSH_CHANNEL_DYNAMIC, SSH_CHANNEL_RDYNAMIC_OPEN, SSH_CHANNEL_RDYNAMIC_FINISH,
               SSH_CHANNEL_OPENING, SSH_CHANNEL_OPEN, SSH_CHANNEL_ABANDONED, SSH_CHANNEL_MUX_PROXY}
          then Some c else None)"

definition put_channel :: "ssh_channels \<Rightarrow> int \<Rightarrow> channel \<Rightarrow> ssh_channels" where
  "put_channel sc i c = sc\<lparr>channels := (channels sc)[nat i := Some c]\<rparr>"

definition channel_register_fds :: "channel \<Rightarrow> int \<Rightarrow> int \<Rightarrow> int \<Rightarrow> chan_extended \<Rightarrow> bool \<Rightarrow> channel" where
  "channel_register_fds c rfd wfd efd extusage is_tty =
     c\<lparr>c_rfd := rfd, c_wfd := wfd, c_sock := (if rfd = wfd then rfd else - 1), c_efd := efd,
       c_extended_usage := extusage, c_isatty := is_tty\<rparr>"

text \<open>The zeroed structure of \<^verbatim>\<open>xcalloc\<close> with its three fresh buffers.\<close>

definition channel_zero :: "sshbuf \<Rightarrow> sshbuf \<Rightarrow> sshbuf \<Rightarrow> channel" where
  "channel_zero inp outp ext =
     \<lparr>c_type = SSH_CHANNEL_CLOSED, c_self = 0, c_remote_id = 0, c_have_remote_id = False,
      c_istate = CHAN_INPUT_OPEN, c_ostate = CHAN_OUTPUT_OPEN, c_flags = {}, c_rfd = 0, c_wfd = 0,
      c_efd = 0, c_sock = 0, c_io_want = {}, c_io_ready = {}, c_isatty = False, c_force_drain = False,
      c_delayed = False, c_detach_close = False, c_input = inp, c_output = outp, c_extended = ext,
      c_remote_window = 0, c_remote_maxpacket = 0, c_local_window = 0, c_local_window_exceeded = 0,
      c_local_window_max = 0, c_local_consumed = 0, c_local_maxpacket = 0,
      c_extended_usage = CHAN_EXTENDED_IGNORE, c_ctype = [], c_datagram = False, c_mux_ctx = None,
      c_mux_downstream_id = 0\<rparr>"

fun free_slot :: "channel option list \<Rightarrow> nat option" where
  "free_slot [] = None"
| "free_slot (None # cs) = Some 0"
| "free_slot (Some c # cs) = map_option Suc (free_slot cs)"

definition channel_new :: "allocator \<Rightarrow> ssh_channels \<Rightarrow> string \<Rightarrow> chan_type \<Rightarrow> int \<Rightarrow> int \<Rightarrow> int \<Rightarrow>
    u32 \<Rightarrow> u32 \<Rightarrow> chan_extended \<Rightarrow> (nat \<times> ssh_channels) outcome" where
  "channel_new am sc ctype type rfd wfd efd window maxpack extusage =
     (let alloc = length (channels sc) in
      if free_slot (channels sc) = None \<and> CHANNELS_MAX_CHANNELS < alloc then Fatal
      else
        let (found, cs) = (case free_slot (channels sc) of
              Some i \<Rightarrow> (i, channels sc)
            | None \<Rightarrow> (alloc, channels sc @ replicate 10 None))
        in (case (sshbuf_new am, sshbuf_new am, sshbuf_new am) of
              (Some inp, Some outp, Some ext) \<Rightarrow>
                (case sshbuf_set_max_size am inp CHAN_INPUT_MAX of
                   (Inl _, _) \<Rightarrow> Fatal
                 | (Inr _, inp1) \<Rightarrow>
                     let c = channel_register_fds (channel_zero inp1 outp ext) rfd wfd efd extusage False;
                         c1 = c\<lparr>c_self := int found, c_type := type, c_ctype := ctype,
                           c_local_window := window, c_local_window_max := window,
                           c_local_maxpacket := maxpack, c_delayed := True\<rparr>
                     in Done (found, sc\<lparr>channels := cs[found := Some c1]\<rparr>))
            | _ \<Rightarrow> Fatal))"

definition channel_close_fds :: "channel \<Rightarrow> channel" where
  "channel_close_fds c =
     (let sock = c_sock c; rfd = c_rfd c; wfd = c_wfd c; efd = c_efd c;
          c1 = channel_close_fd c (c_sock c);
          c2 = (if rfd \<noteq> sock then channel_close_fd c1 (c_rfd c1) else c1);
          c3 = (if wfd \<noteq> sock \<and> wfd \<noteq> rfd then channel_close_fd c2 (c_wfd c2) else c2)
      in if efd \<noteq> sock \<and> efd \<noteq> rfd \<and> efd \<noteq> wfd then channel_close_fd c3 (c_efd c3) else c3)"

definition perm_zero :: permission where
  "perm_zero = \<lparr>host_to_connect = None, port_to_connect = 0, listen_host = None, listen_path = None,
     listen_port = 0, downstream = None\<rparr>"

definition fwd_perm_clear :: "permission \<Rightarrow> permission" where
  "fwd_perm_clear perm = perm_zero"

definition channel_rfwd_bind_host :: "string option \<Rightarrow> string" where
  "channel_rfwd_bind_host lh =
     (case lh of
        None \<Rightarrow> ''localhost''
      | Some h \<Rightarrow> if h = [] \<or> h = ''*'' then [] else h)"

fun mux_clear_perms :: "int \<Rightarrow> permission list \<Rightarrow> permission list \<times> chan_msg list" where
  "mux_clear_perms c [] = ([], [])"
| "mux_clear_perms c (perm # ps) =
     (let (ps', ms) = mux_clear_perms c ps in
      if downstream perm \<noteq> Some c then (perm # ps', ms)
      else (fwd_perm_clear perm # ps',
            SSH2_MSG_GLOBAL_REQUEST ''cancel-tcpip-forward'' False
              (channel_rfwd_bind_host (listen_host perm)) (of_int (listen_port perm)) # ms))"

definition mux_remove_remote_forwardings :: "ssh_channels \<Rightarrow> int \<Rightarrow> ssh_channels \<times> chan_msg list" where
  "mux_remove_remote_forwardings sc c =
     (let (ps, ms) = mux_clear_perms c (permitted_user (local_perms sc))
      in (sc\<lparr>local_perms := (local_perms sc)\<lparr>permitted_user := ps\<rparr>\<rparr>, ms))"

definition channel_free :: "ssh_channels \<Rightarrow> channel \<Rightarrow> ssh_channels \<times> chan_msg list" where
  "channel_free sc c =
     (let sc1 = sc\<lparr>channels := map (map_option (\<lambda>oth.
            if c_type c = SSH_CHANNEL_MUX_CLIENT \<and> c_type oth = SSH_CHANNEL_MUX_PROXY \<and>
               c_mux_ctx oth = Some (c_self c)
            then oth\<lparr>c_mux_ctx := None, c_type := SSH_CHANNEL_OPEN,
                   c_istate := CHAN_INPUT_CLOSED, c_ostate := CHAN_OUTPUT_CLOSED\<rparr>
            else oth)) (channels sc)\<rparr>;
          (sc2, ms) = (if c_type c = SSH_CHANNEL_MUX_CLIENT
            then mux_remove_remote_forwardings sc1 (c_self c) else (sc1, []))
      in (sc2\<lparr>channels := (channels sc2)[nat (c_self c) := None]\<rparr>, ms))"

section \<open>Descriptors and windows\<close>

definition channel_pre_open :: "allocator \<Rightarrow> channel \<Rightarrow> channel" where
  "channel_pre_open am c0 =
     (let c = c0\<lparr>c_io_want := {}\<rparr>;
          c1 = (if c_istate c = CHAN_INPUT_OPEN \<and> c_remote_window c > 0 \<and>
                   sshbuf_len (c_input c) < ucast (c_remote_window c) \<and>
                   sshbuf_check_reserve (c_input c) CHAN_RBUF = Inr ()
                then c\<lparr>c_io_want := insert SSH_CHAN_IO_RFD (c_io_want c)\<rparr> else c);
          c2 = (if c_ostate c1 = CHAN_OUTPUT_OPEN \<or> c_ostate c1 = CHAN_OUTPUT_WAIT_DRAIN then
                  if sshbuf_len (c_output c1) > 0
                  then c1\<lparr>c_io_want := insert SSH_CHAN_IO_WFD (c_io_want c1)\<rparr>
                  else if c_ostate c1 = CHAN_OUTPUT_WAIT_DRAIN then
                    if CHANNEL_EFD_OUTPUT_ACTIVE c1 then c1 else chan_obuf_empty am c1
                  else c1
                else c1)
      in if c_efd c2 \<noteq> - 1 \<and> \<not> (c_istate c2 = CHAN_INPUT_CLOSED \<and> c_ostate c2 = CHAN_OUTPUT_CLOSED) then
           if c_extended_usage c2 = CHAN_EXTENDED_WRITE \<and> sshbuf_len (c_extended c2) > 0
           then c2\<lparr>c_io_want := insert SSH_CHAN_IO_EFD_W (c_io_want c2)\<rparr>
           else if CHAN_EOF_SENT \<notin> c_flags c2 \<and>
             (c_extended_usage c2 = CHAN_EXTENDED_READ \<or> c_extended_usage c2 = CHAN_EXTENDED_IGNORE) \<and>
             sshbuf_len (c_extended c2) < ucast (c_remote_window c2)
           then c2\<lparr>c_io_want := insert SSH_CHAN_IO_EFD_R (c_io_want c2)\<rparr>
           else c2
         else c2)"

definition channel_force_close :: "allocator \<Rightarrow> compat_flag set \<Rightarrow> channel \<Rightarrow> bool \<Rightarrow> chan_step" where
  "channel_force_close am ssh_compat c abandon =
     and_then
       (let c1 = (if c_istate c = CHAN_INPUT_OPEN then chan_read_failed c else c)
        in if c_istate c1 = CHAN_INPUT_WAIT_DRAIN
           then chan_ibuf_empty (c1\<lparr>c_input := sshbuf_reset am (c_input c1)\<rparr>) else silent c1)
       (\<lambda>c2. and_then
          (if c_ostate c2 = CHAN_OUTPUT_OPEN \<or> c_ostate c2 = CHAN_OUTPUT_WAIT_DRAIN
           then chan_write_failed am ssh_compat (c2\<lparr>c_output := sshbuf_reset am (c_output c2)\<rparr>)
           else silent c2)
          (\<lambda>c3. silent
             (let c4 = (if c_efd c3 \<noteq> - 1 then channel_close_fd c3 (c_efd c3) else c3)
              in if abandon then c4\<lparr>c_type := SSH_CHANNEL_ABANDONED\<rparr> else c4)))"

definition channel_read_fail :: "channel \<Rightarrow> channel" where
  "channel_read_fail c = (if c_type c \<noteq> SSH_CHANNEL_OPEN then chan_mark_dead c else chan_read_failed c)"

text \<open>
  \<^verbatim>\<open>channel_handle_rfd\<close> for a channel without an input filter; \<open>rd\<close> is what \<^verbatim>\<open>read\<close> does and
  \<open>errno\<close> the value of the variable before the call.
\<close>

definition channel_handle_rfd :: "allocator \<Rightarrow> read_result \<Rightarrow> errno \<Rightarrow> channel \<Rightarrow> chan_step" where
  "channel_handle_rfd am rd errno c =
     (let force = c_isatty c \<and> c_detach_close c \<and> c_istate c \<noteq> CHAN_INPUT_CLOSED;
          avail = sshbuf_avail (c_input c); have_in = sshbuf_len (c_input c)
      in if \<not> force \<and> SSH_CHAN_IO_RFD \<notin> c_io_ready c then silent c
      else if avail = 0 then silent c
      else if \<not> c_datagram c then
        if c_type c = SSH_CHANNEL_OPEN \<and> have_in \<ge> ucast (c_remote_window c) then silent c
        else
          let maxlen = (if c_type c = SSH_CHANNEL_OPEN
                then min CHANNEL_MAX_READ (ucast (c_remote_window c) - have_in) else CHANNEL_MAX_READ)
          in (case sshbuf_read am rd errno (c_input c) (min maxlen avail) of
                (Inr _, inp, _) \<Rightarrow> silent (c\<lparr>c_input := inp\<rparr>)
              | (Inl _, inp, e) \<Rightarrow>
                  silent (if e = EINTR \<or> \<not> force \<and> e = EAGAIN then c\<lparr>c_input := inp\<rparr>
                          else channel_read_fail (c\<lparr>c_input := inp\<rparr>)))
      else
        (case rd of
           Rd_error e \<Rightarrow> silent (if e = EINTR \<or> e = EAGAIN \<and> \<not> force then c else channel_read_fail c)
         | Rd_bytes bs \<Rightarrow>
             let buf = take (unat CHAN_RBUF) bs in
             if buf = [] then silent (channel_read_fail c)
             else
               (case sshbuf_put_string am (c_input c) buf of
                  (Inl _, _) \<Rightarrow> Fatal
                | (Inr _, inp) \<Rightarrow> silent (c\<lparr>c_input := inp\<rparr>))))"

text \<open>What \<^verbatim>\<open>write\<close> returned: the number of bytes, an error to retry, or another error.\<close>

datatype io_result = IO_len nat | IO_again | IO_error

definition channel_write_fail :: "allocator \<Rightarrow> compat_flag set \<Rightarrow> channel \<Rightarrow> chan_step" where
  "channel_write_fail am ssh_compat c =
     (if c_type c \<noteq> SSH_CHANNEL_OPEN then silent (chan_mark_dead c) else chan_write_failed am ssh_compat c)"

text \<open>
  \<^verbatim>\<open>channel_handle_wfd\<close> for a channel without an output filter; \<open>noecho\<close> is the answer of
  \<^verbatim>\<open>tcgetattr\<close>, on which a dummy message hides that the terminal does not echo.
\<close>

definition channel_handle_wfd :: "allocator \<Rightarrow> compat_flag set \<Rightarrow> bool \<Rightarrow> io_result \<Rightarrow> channel \<Rightarrow> chan_step" where
  "channel_handle_wfd am ssh_compat noecho wr c =
     (if SSH_CHAN_IO_WFD \<notin> c_io_ready c then silent c
      else if sshbuf_len (c_output c) = 0 then silent c
      else
        let olen = sshbuf_len (c_output c) in
        if c_datagram c then
          (case sshbuf_get_string am (c_output c) of
             (Inl _, _) \<Rightarrow> Fatal
           | (Inr data, out) \<Rightarrow>
               let c1 = c\<lparr>c_output := out\<rparr> in
               (case wr of
                  IO_again \<Rightarrow> silent c1
                | IO_error \<Rightarrow> channel_write_fail am ssh_compat c1
                | IO_len n \<Rightarrow>
                    if n = 0 then channel_write_fail am ssh_compat c1
                    else silent (c1\<lparr>c_local_consumed := c_local_consumed c1 +
                           ucast (olen - sshbuf_len (c_output c1))\<rparr>)))
        else
          (case wr of
             IO_again \<Rightarrow> silent c
           | IO_error \<Rightarrow> channel_write_fail am ssh_compat c
           | IO_len n \<Rightarrow>
               if n = 0 then channel_write_fail am ssh_compat c
               else
                 let ms = (if c_isatty c \<and> noecho \<and> hd (sshbuf_contents (c_output c)) \<noteq> 13
                           then [SSH2_MSG_IGNORE (4 + n)] else [])
                 in (case sshbuf_consume (c_output c) (of_nat n) of
                       (Inl _, _) \<Rightarrow> Fatal
                     | (Inr _, out) \<Rightarrow>
                         Done (c\<lparr>c_output := out, c_local_consumed := c_local_consumed c +
                                  ucast (olen - sshbuf_len out)\<rparr>, ms))))"

definition channel_handle_efd_write :: "io_result \<Rightarrow> channel \<Rightarrow> chan_step" where
  "channel_handle_efd_write wr c =
     (if SSH_CHAN_IO_EFD_W \<notin> c_io_ready c then silent c
      else if sshbuf_len (c_extended c) = 0 then silent c
      else
        (case wr of
           IO_again \<Rightarrow> silent c
         | IO_error \<Rightarrow> silent (channel_close_fd c (c_efd c))
         | IO_len n \<Rightarrow>
             if n = 0 then silent (channel_close_fd c (c_efd c))
             else
               (case sshbuf_consume (c_extended c) (of_nat n) of
                  (Inl _, _) \<Rightarrow> Fatal
                | (Inr _, ext) \<Rightarrow>
                    silent (c\<lparr>c_extended := ext, c_local_consumed := c_local_consumed c + of_nat n\<rparr>))))"

definition channel_handle_efd_read :: "allocator \<Rightarrow> read_result \<Rightarrow> channel \<Rightarrow> chan_step" where
  "channel_handle_efd_read am rd c =
     (let force = c_isatty c \<and> c_detach_close c \<and> c_istate c \<noteq> CHAN_INPUT_CLOSED in
      if \<not> force \<and> SSH_CHAN_IO_EFD_R \<notin> c_io_ready c then silent c
      else
        (case rd of
           Rd_error e \<Rightarrow>
             silent (if e = EINTR \<or> e = EAGAIN \<and> \<not> force then c else channel_close_fd c (c_efd c))
         | Rd_bytes bs \<Rightarrow>
             let buf = take (unat CHAN_RBUF) bs in
             if buf = [] then silent (channel_close_fd c (c_efd c))
             else if c_extended_usage c = CHAN_EXTENDED_IGNORE then silent c
             else
               (case sshbuf_put am (c_extended c) buf of
                  (Inl _, _) \<Rightarrow> Fatal
                | (Inr _, ext) \<Rightarrow> silent (c\<lparr>c_extended := ext\<rparr>))))"

definition channel_handle_efd :: "allocator \<Rightarrow> read_result \<Rightarrow> io_result \<Rightarrow> channel \<Rightarrow> chan_step" where
  "channel_handle_efd am rd wr c =
     (if c_efd c = - 1 then silent c
      else if c_extended_usage c = CHAN_EXTENDED_WRITE then channel_handle_efd_write wr c
      else channel_handle_efd_read am rd c)"

definition channel_check_window :: "channel \<Rightarrow> chan_step" where
  "channel_check_window c =
     (if c_type c = SSH_CHANNEL_OPEN \<and> c_flags c \<inter> {CHAN_CLOSE_SENT, CHAN_CLOSE_RCVD} = {} \<and>
         (c_local_window_max c - c_local_window c > c_local_maxpacket c * 3 \<or>
          c_local_window c < c_local_window_max c div 2) \<and>
         c_local_consumed c > 0
      then
        if \<not> c_have_remote_id c then Fatal
        else Done (c\<lparr>c_local_window := c_local_window c + c_local_consumed c, c_local_consumed := 0\<rparr>,
               [SSH2_MSG_CHANNEL_WINDOW_ADJUST (c_remote_id c) (c_local_consumed c)])
      else silent c)"

text \<open>What the descriptors do in one round of \<^verbatim>\<open>channel_post_open\<close>.\<close>

record chan_round =
  r_read :: read_result
  r_errno :: errno
  r_write :: io_result
  r_noecho :: bool
  r_efd_read :: read_result
  r_efd_write :: io_result

definition channel_post_open :: "allocator \<Rightarrow> compat_flag set \<Rightarrow> chan_round \<Rightarrow> channel \<Rightarrow> chan_step" where
  "channel_post_open am ssh_compat r c =
     and_then (channel_handle_rfd am (r_read r) (r_errno r) c)
       (\<lambda>c. and_then (channel_handle_wfd am ssh_compat (r_noecho r) (r_write r) c)
         (\<lambda>c. and_then (channel_handle_efd am (r_efd_read r) (r_efd_write r) c) channel_check_window))"

section \<open>Data for the peer\<close>

definition chan_buf_bytes :: "sshbuf \<Rightarrow> nat \<Rightarrow> byte list" where
  "chan_buf_bytes b n = mem_read (sb_mem b) (unat (sb_off b)) n"

definition channel_output_poll_input_open :: "channel \<Rightarrow> chan_step" where
  "channel_output_poll_input_open c =
     (let len = sshbuf_len (c_input c) in
      if len = 0 then
        if c_istate c = CHAN_INPUT_WAIT_DRAIN then
          if CHANNEL_EFD_INPUT_ACTIVE c then silent c else chan_ibuf_empty c
        else silent c
      else if \<not> c_have_remote_id c then Fatal
      else if c_datagram c then
        (case sshbuf_get_string_direct (c_input c) of
           (Inl _, _) \<Rightarrow> Fatal
         | (Inr pkt, inp) \<Rightarrow>
             let c1 = c\<lparr>c_input := inp\<rparr> in
             if unat (c_remote_window c1) < length pkt \<or> unat (c_remote_maxpacket c1) < length pkt then silent c1
             else Done (c1\<lparr>c_remote_window := c_remote_window c1 - of_nat (length pkt)\<rparr>,
                    [SSH2_MSG_CHANNEL_DATA (c_remote_id c1) pkt]))
      else
        let len1 = (if len > ucast (c_remote_window c) then ucast (c_remote_window c) else len);
            len2 = (if len1 > ucast (c_remote_maxpacket c) then ucast (c_remote_maxpacket c) else len1)
        in if len2 = 0 then silent c
           else
             (case sshbuf_consume (c_input c) len2 of
                (Inl _, _) \<Rightarrow> Fatal
              | (Inr _, inp) \<Rightarrow>
                  Done (c\<lparr>c_input := inp, c_remote_window := c_remote_window c - ucast len2\<rparr>,
                    [SSH2_MSG_CHANNEL_DATA (c_remote_id c) (chan_buf_bytes (c_input c) (unat len2))])))"

definition SSH2_EXTENDED_DATA_STDERR :: u32 where "SSH2_EXTENDED_DATA_STDERR = 1"

definition channel_output_poll_extended_read :: "channel \<Rightarrow> chan_step" where
  "channel_output_poll_extended_read c =
     (let len = sshbuf_len (c_extended c) in
      if len = 0 then silent c
      else
        let len1 = (if len > ucast (c_remote_window c) then ucast (c_remote_window c) else len);
            len2 = (if len1 > ucast (c_remote_maxpacket c) then ucast (c_remote_maxpacket c) else len1)
        in if len2 = 0 then silent c
           else if \<not> c_have_remote_id c then Fatal
           else
             (case sshbuf_consume (c_extended c) len2 of
                (Inl _, _) \<Rightarrow> Fatal
              | (Inr _, ext) \<Rightarrow>
                  Done (c\<lparr>c_extended := ext, c_remote_window := c_remote_window c - ucast len2\<rparr>,
                    [SSH2_MSG_CHANNEL_EXTENDED_DATA (c_remote_id c) SSH2_EXTENDED_DATA_STDERR
                       (chan_buf_bytes (c_extended c) (unat len2))])))"

text \<open>The body of the loop of \<^verbatim>\<open>channel_output_poll\<close>, and the loop over the table.\<close>

definition channel_output_poll_one :: "channel \<Rightarrow> chan_step" where
  "channel_output_poll_one c =
     (if c_type c \<noteq> SSH_CHANNEL_OPEN then silent c
      else if c_flags c \<inter> {CHAN_CLOSE_SENT, CHAN_CLOSE_RCVD} \<noteq> {} then silent c
      else
        and_then
          (if c_istate c = CHAN_INPUT_OPEN \<or> c_istate c = CHAN_INPUT_WAIT_DRAIN
           then channel_output_poll_input_open c else silent c)
          (\<lambda>c. if CHAN_EOF_SENT \<notin> c_flags c \<and> c_extended_usage c = CHAN_EXTENDED_READ
                then channel_output_poll_extended_read c else silent c))"

fun channel_output_poll :: "channel option list \<Rightarrow> (channel option list \<times> chan_msg list) outcome" where
  "channel_output_poll [] = Done ([], [])"
| "channel_output_poll (None # cs) =
     (case channel_output_poll cs of
        Done (cs', ms) \<Rightarrow> Done (None # cs', ms) | Fatal \<Rightarrow> Fatal | Disconnect \<Rightarrow> Disconnect)"
| "channel_output_poll (Some c # cs) =
     (case channel_output_poll_one c of
        Fatal \<Rightarrow> Fatal | Disconnect \<Rightarrow> Disconnect
      | Done (c', ms) \<Rightarrow>
          (case channel_output_poll cs of
             Done (cs', ms') \<Rightarrow> Done (Some c' # cs', ms @ ms') | Fatal \<Rightarrow> Fatal | Disconnect \<Rightarrow> Disconnect))"

section \<open>Messages from the peer\<close>

definition INT_MAX :: u32 where "INT_MAX = 0x7fffffff"

definition channel_parse_id :: "sshbuf \<Rightarrow> (int \<times> sshbuf) outcome" where
  "channel_parse_id pkt =
     (case sshbuf_get_u32 pkt of
        (Inl _, _) \<Rightarrow> Disconnect
      | (Inr i, p) \<Rightarrow> if i > INT_MAX then Disconnect else Done (uint i, p))"

definition channel_from_packet_id :: "ssh_channels \<Rightarrow> sshbuf \<Rightarrow> (int \<times> channel \<times> sshbuf) outcome" where
  "channel_from_packet_id sc pkt =
     (case channel_parse_id pkt of
        Done (i, p) \<Rightarrow>
          (case channel_lookup sc i of None \<Rightarrow> Disconnect | Some c \<Rightarrow> Done (i, c, p))
      | Fatal \<Rightarrow> Fatal
      | Disconnect \<Rightarrow> Disconnect)"

text \<open>The numbers of the channel messages.\<close>

definition MSG_OPEN_CONFIRMATION :: byte where "MSG_OPEN_CONFIRMATION = 91"
definition MSG_OPEN_FAILURE :: byte where "MSG_OPEN_FAILURE = 92"
definition MSG_WINDOW_ADJUST :: byte where "MSG_WINDOW_ADJUST = 93"
definition MSG_DATA :: byte where "MSG_DATA = 94"
definition MSG_EXTENDED_DATA :: byte where "MSG_EXTENDED_DATA = 95"
definition MSG_EOF :: byte where "MSG_EOF = 96"
definition MSG_CLOSE :: byte where "MSG_CLOSE = 97"

text \<open>
  \<^verbatim>\<open>channel_proxy_upstream\<close>: \<^const>\<open>None\<close> if the packet is not for a multiplexing client. The
  downstream channel gets the packet with its own channel number; errors on the way are only
  logged, and the state is updated in any case.
\<close>

definition mux_packet :: "allocator \<Rightarrow> channel \<Rightarrow> byte \<Rightarrow> sshbuf \<Rightarrow> byte list option" where
  "mux_packet am c type p =
     (case sshbuf_new am of
        None \<Rightarrow> None
      | Some b \<Rightarrow>
          (case sshbuf_put_u8 am b 0 of
             (Inl _, _) \<Rightarrow> None
           | (Inr _, b1) \<Rightarrow>
               (case sshbuf_put_u8 am b1 type of
                  (Inl _, _) \<Rightarrow> None
                | (Inr _, b2) \<Rightarrow>
                    (case sshbuf_put_u32 am b2 (c_mux_downstream_id c) of
                       (Inl _, _) \<Rightarrow> None
                     | (Inr _, b3) \<Rightarrow>
                         (case sshbuf_put am b3 (sshbuf_bytes p) of
                            (Inl _, _) \<Rightarrow> None
                          | (Inr _, b4) \<Rightarrow> Some (sshbuf_bytes b4))))))"

definition channel_proxy_upstream :: "allocator \<Rightarrow> ssh_channels \<Rightarrow> int \<Rightarrow> channel \<Rightarrow> byte \<Rightarrow> sshbuf \<Rightarrow>
    (ssh_channels \<times> chan_msg list) option" where
  "channel_proxy_upstream am sc i c type p =
     (if c_type c \<noteq> SSH_CHANNEL_MUX_PROXY then None
      else
        (case c_mux_ctx c of
           None \<Rightarrow> None
         | Some d \<Rightarrow>
             if type < 91 \<or> type > 100 then None
             else
               let sc1 = (if sshbuf_ptr p = NULL then sc
                     else
                       case (mux_packet am c type p, channel_by_id sc d) of
                         (Some v, Some dc) \<Rightarrow>
                           put_channel sc d (dc\<lparr>c_output := snd (sshbuf_put_string am (c_output dc) v)\<rparr>)
                       | _ \<Rightarrow> sc)
               in if type = MSG_OPEN_CONFIRMATION then
                    Some (if sshbuf_ptr p \<noteq> NULL \<and> sshbuf_len p > 4
                      then put_channel sc1 i (c\<lparr>c_remote_id := PEEK_U32 (sshbuf_bytes p), c_have_remote_id := True\<rparr>)
                      else sc1, [])
                  else if type = MSG_CLOSE then
                    if CHAN_CLOSE_SENT \<in> c_flags c then Some (channel_free sc1 c)
                    else Some (put_channel sc1 i (c\<lparr>c_flags := insert CHAN_CLOSE_RCVD (c_flags c)\<rparr>), [])
                  else Some (sc1, [])))"

definition on_channel :: "ssh_channels \<Rightarrow> int \<Rightarrow> chan_step \<Rightarrow> (ssh_channels \<times> chan_msg list) outcome" where
  "on_channel sc i r =
     (case r of Done (c, ms) \<Rightarrow> Done (put_channel sc i c, ms) | Fatal \<Rightarrow> Fatal | Disconnect \<Rightarrow> Disconnect)"

text \<open>A message for one channel: find it, hand it to a multiplexing client, or act on it.\<close>

definition channel_input :: "byte \<Rightarrow> (channel \<Rightarrow> sshbuf \<Rightarrow> chan_step) \<Rightarrow> allocator \<Rightarrow> ssh_channels \<Rightarrow> sshbuf \<Rightarrow>
    (ssh_channels \<times> chan_msg list) outcome" where
  "channel_input type act am sc pkt =
     (case channel_from_packet_id sc pkt of
        Fatal \<Rightarrow> Fatal
      | Disconnect \<Rightarrow> Disconnect
      | Done (i, c, p) \<Rightarrow>
          (case channel_proxy_upstream am sc i c type p of
             Some r \<Rightarrow> Done r
           | None \<Rightarrow> on_channel sc i (act c p)))"

definition chan_window_take :: "channel \<Rightarrow> size_t \<Rightarrow> channel outcome" where
  "chan_window_take c win_len =
     (if win_len > ucast (c_local_window c) then
        let c1 = c\<lparr>c_local_window_exceeded := c_local_window_exceeded c + ucast (win_len - ucast (c_local_window c)),
                   c_local_window := 0\<rparr>
        in if c_local_window_exceeded c1 > c_local_window_max c1 div 10 then Disconnect else Done c1
      else Done (c\<lparr>c_local_window := c_local_window c - ucast win_len, c_local_window_exceeded := 0\<rparr>))"

definition input_data_action :: "allocator \<Rightarrow> channel \<Rightarrow> sshbuf \<Rightarrow> chan_step" where
  "input_data_action am c p =
     (if c_type c \<notin> {SSH_CHANNEL_OPEN, SSH_CHANNEL_RDYNAMIC_OPEN, SSH_CHANNEL_RDYNAMIC_FINISH,
           SSH_CHANNEL_X11_OPEN} then silent c
      else
        (case sshbuf_get_string_direct p of
           (Inl _, _) \<Rightarrow> Fatal
         | (Inr data, p1) \<Rightarrow>
             if sshbuf_len p1 > 0 then Fatal
             else
               let win_len = of_nat (length data) + (if c_datagram c then 4 else 0) :: size_t in
               if c_ostate c \<noteq> CHAN_OUTPUT_OPEN
               then silent (c\<lparr>c_local_window := c_local_window c - ucast win_len,
                              c_local_consumed := c_local_consumed c + ucast win_len\<rparr>)
               else if win_len > ucast (c_local_maxpacket c) then silent c
               else
                 (case chan_window_take c win_len of
                    Fatal \<Rightarrow> Fatal
                  | Disconnect \<Rightarrow> Disconnect
                  | Done c1 \<Rightarrow>
                      (case (if c_datagram c1 then sshbuf_put_string am (c_output c1) data
                             else sshbuf_put am (c_output c1) data) of
                         (Inl _, _) \<Rightarrow> Fatal
                       | (Inr _, out) \<Rightarrow> silent (c1\<lparr>c_output := out\<rparr>)))))"

definition channel_input_data :: "allocator \<Rightarrow> ssh_channels \<Rightarrow> sshbuf \<Rightarrow> (ssh_channels \<times> chan_msg list) outcome" where
  "channel_input_data am sc pkt = channel_input MSG_DATA (input_data_action am) am sc pkt"

definition input_extended_action :: "allocator \<Rightarrow> compat_flag set \<Rightarrow> channel \<Rightarrow> sshbuf \<Rightarrow> chan_step" where
  "input_extended_action am ssh_compat c p =
     (if c_type c \<noteq> SSH_CHANNEL_OPEN then silent c
      else if CHAN_EOF_RCVD \<in> c_flags c \<and> SSH_BUG_EXTEOF \<notin> ssh_compat then Disconnect
      else
        (case sshbuf_get_u32 p of
           (Inl _, _) \<Rightarrow> Disconnect
         | (Inr tcode, p1) \<Rightarrow>
             if c_efd c = - 1 \<or> c_extended_usage c \<noteq> CHAN_EXTENDED_WRITE \<or> tcode \<noteq> SSH2_EXTENDED_DATA_STDERR
             then silent c
             else
               (case sshbuf_get_string_direct p1 of
                  (Inl _, _) \<Rightarrow> Disconnect
                | (Inr data, p2) \<Rightarrow>
                    if sshbuf_len p2 > 0 then Disconnect
                    else if unat (c_local_window c) < length data then silent c
                    else silent (c\<lparr>c_extended := snd (sshbuf_put am (c_extended c) data),
                           c_local_window := c_local_window c - of_nat (length data)\<rparr>))))"

definition channel_input_extended_data :: "allocator \<Rightarrow> compat_flag set \<Rightarrow> ssh_channels \<Rightarrow> sshbuf \<Rightarrow>
    (ssh_channels \<times> chan_msg list) outcome" where
  "channel_input_extended_data am ssh_compat sc pkt =
     channel_input MSG_EXTENDED_DATA (input_extended_action am ssh_compat) am sc pkt"

definition input_ieof_action :: "allocator \<Rightarrow> channel \<Rightarrow> chan_step" where
  "input_ieof_action am c =
     (let c1 = chan_rcvd_ieof am c in
      if c_force_drain c1 \<and> c_istate c1 = CHAN_INPUT_OPEN then
        let c2 = c1\<lparr>c_istate := CHAN_INPUT_WAIT_DRAIN\<rparr> in
        if sshbuf_len (c_input c2) = 0 then chan_ibuf_empty c2 else silent c2
      else silent c1)"

text \<open>Unlike its siblings, the end-of-file handler tests for trailing data before the proxy.\<close>

definition channel_input_ieof :: "allocator \<Rightarrow> ssh_channels \<Rightarrow> sshbuf \<Rightarrow> (ssh_channels \<times> chan_msg list) outcome" where
  "channel_input_ieof am sc pkt =
     (case channel_from_packet_id sc pkt of
        Fatal \<Rightarrow> Fatal
      | Disconnect \<Rightarrow> Disconnect
      | Done (i, c, p) \<Rightarrow>
          if sshbuf_len p > 0 then Disconnect
          else
            (case channel_proxy_upstream am sc i c MSG_EOF p of
               Some r \<Rightarrow> Done r
             | None \<Rightarrow> on_channel sc i (input_ieof_action am c)))"

definition channel_input_oclose :: "allocator \<Rightarrow> ssh_channels \<Rightarrow> sshbuf \<Rightarrow> (ssh_channels \<times> chan_msg list) outcome" where
  "channel_input_oclose am sc pkt =
     channel_input MSG_CLOSE (\<lambda>c p. if sshbuf_len p > 0 then Disconnect else chan_rcvd_oclose c) am sc pkt"

definition open_confirmation_action :: "channel \<Rightarrow> sshbuf \<Rightarrow> chan_step" where
  "open_confirmation_action c p =
     (if c_type c \<noteq> SSH_CHANNEL_OPENING then Disconnect
      else
        (case get_all get_field p [K32, K32, K32] of
           (Inr [F32 rid, F32 rwin, F32 rmax], p1) \<Rightarrow>
             if sshbuf_len p1 > 0 then Disconnect
             else silent (c\<lparr>c_remote_id := rid, c_have_remote_id := True, c_remote_window := rwin,
                    c_remote_maxpacket := rmax, c_type := SSH_CHANNEL_OPEN\<rparr>)
         | _ \<Rightarrow> Disconnect))"

definition channel_input_open_confirmation :: "allocator \<Rightarrow> ssh_channels \<Rightarrow> sshbuf \<Rightarrow>
    (ssh_channels \<times> chan_msg list) outcome" where
  "channel_input_open_confirmation am sc pkt =
     channel_input MSG_OPEN_CONFIRMATION open_confirmation_action am sc pkt"

definition open_failure_action :: "allocator \<Rightarrow> channel \<Rightarrow> sshbuf \<Rightarrow> chan_step" where
  "open_failure_action am c p =
     (if c_type c \<noteq> SSH_CHANNEL_OPENING then Disconnect
      else
        (case sshbuf_get_u32 p of
           (Inl _, _) \<Rightarrow> Disconnect
         | (Inr reason, p1) \<Rightarrow>
             (case sshbuf_get_cstring am p1 of
                (Inl _, _) \<Rightarrow> Disconnect
              | (Inr msg, p2) \<Rightarrow>
                  (case sshbuf_get_string_direct p2 of
                     (Inl _, _) \<Rightarrow> Disconnect
                   | (Inr lang, p3) \<Rightarrow>
                       if sshbuf_len p3 > 0 then Disconnect else silent (chan_mark_dead c)))))"

definition channel_input_open_failure :: "allocator \<Rightarrow> ssh_channels \<Rightarrow> sshbuf \<Rightarrow>
    (ssh_channels \<times> chan_msg list) outcome" where
  "channel_input_open_failure am sc pkt =
     channel_input MSG_OPEN_FAILURE (open_failure_action am) am sc pkt"

definition window_adjust_action :: "channel \<Rightarrow> sshbuf \<Rightarrow> chan_step" where
  "window_adjust_action c p =
     (case sshbuf_get_u32 p of
        (Inl _, _) \<Rightarrow> Disconnect
      | (Inr adjust, p1) \<Rightarrow>
          if sshbuf_len p1 > 0 then Disconnect
          else
            let new_rwin = c_remote_window c + adjust in
            if new_rwin < c_remote_window c then Fatal
            else silent (c\<lparr>c_remote_window := new_rwin\<rparr>))"

definition channel_input_window_adjust :: "allocator \<Rightarrow> ssh_channels \<Rightarrow> sshbuf \<Rightarrow>
    (ssh_channels \<times> chan_msg list) outcome" where
  "channel_input_window_adjust am sc pkt =
     (case channel_parse_id pkt of
        Fatal \<Rightarrow> Fatal
      | Disconnect \<Rightarrow> Disconnect
      | Done (i, p) \<Rightarrow>
          (case channel_lookup sc i of
             None \<Rightarrow> Done (sc, [])
           | Some c \<Rightarrow>
               (case channel_proxy_upstream am sc i c MSG_WINDOW_ADJUST p of
                  Some r \<Rightarrow> Done r
                | None \<Rightarrow> on_channel sc i (window_adjust_action c p))))"

end
