(* ===== verification/Chan_Order.thy ===== *)
theory Chan_Order
  imports Channels
begin

text \<open>
  The order of messages on a channel: every handler of \<^verbatim>\<open>nchan.c\<close> and \<^verbatim>\<open>channels.c\<close> follows the
  monitor of the theory \<open>Nchan\<close>, so every run of a channel does, whatever the peer and the
  local descriptors do and in whatever order. The locale \<open>chan_machine\<close> is the contract
  between the handlers and the run.
\<close>

section \<open>Every handler keeps the order\<close>

lemma good_check_window: "chan_inv c \<Longrightarrow> good_step c (channel_check_window c)"
  by (auto simp: channel_check_window_def good_defs)

lemma good_stop [simp]: "good_step c Fatal" "good_step c Disconnect"
  by (simp_all add: good_step_def)

lemma good_frame:
  assumes "chan_inv c" "c_istate c' = c_istate c" "c_ostate c' = c_ostate c"
    "c_remote_id c' = c_remote_id c" "c_flags c' = c_flags c"
  shows "good_step c (silent c')"
  using assms by (simp add: good_defs)

lemma good_trans:
  assumes "good_step c (silent c')" "chan_inv c' \<Longrightarrow> good_step c' r"
  shows "good_step c r"
  using assms by (auto simp: good_step_def silent_def moves_def split: outcome.splits)

text \<open>Rules that follow the structure of a handler.\<close>

lemma good_seq:
  "good_step c r \<Longrightarrow> (\<And>c'. chan_inv c' \<Longrightarrow> good_step c' (f c')) \<Longrightarrow> good_step c (and_then r f)"
  by (rule good_step_and_then) (auto simp: good_step_def [of c] moves_def)

lemma good_if: "(q \<Longrightarrow> good_step c a) \<Longrightarrow> (\<not> q \<Longrightarrow> good_step c b) \<Longrightarrow> good_step c (if q then a else b)"
  by simp

lemma good_let: "(\<And>x. x = a \<Longrightarrow> good_step c (f x)) \<Longrightarrow> good_step c (let x = a in f x)"
  by simp

lemma good_case_res:
  "(\<And>b e. p = (Inl e, b) \<Longrightarrow> good_step c (f e b)) \<Longrightarrow> (\<And>b v. p = (Inr v, b) \<Longrightarrow> good_step c (g v b)) \<Longrightarrow>
    good_step c (case p of (Inl e, b) \<Rightarrow> f e b | (Inr v, b) \<Rightarrow> g v b)"
  by (simp split: prod.split sum.split)

lemma good_case_io:
  "(\<And>n. w = IO_len n \<Longrightarrow> good_step c (f n)) \<Longrightarrow> (w = IO_again \<Longrightarrow> good_step c a) \<Longrightarrow>
    (w = IO_error \<Longrightarrow> good_step c e) \<Longrightarrow>
    good_step c (case w of IO_len n \<Rightarrow> f n | IO_again \<Rightarrow> a | IO_error \<Rightarrow> e)"
  by (simp split: io_result.split)

lemma good_case_read:
  "(\<And>bs. rd = Rd_bytes bs \<Longrightarrow> good_step c (f bs)) \<Longrightarrow> (\<And>e. rd = Rd_error e \<Longrightarrow> good_step c (g e)) \<Longrightarrow>
    good_step c (case rd of Rd_bytes bs \<Rightarrow> f bs | Rd_error e \<Rightarrow> g e)"
  by (simp split: read_result.split)

lemma good_case_sshbuf_read:
  "(\<And>e b x. p = (Inl e, b, x) \<Longrightarrow> good_step c (f e b x)) \<Longrightarrow> (\<And>v b x. p = (Inr v, b, x) \<Longrightarrow> good_step c (g v b x)) \<Longrightarrow>
    good_step c (case p of (Inr v, b, x) \<Rightarrow> g v b x | (Inl e, b, x) \<Rightarrow> f e b x)"
  by (simp split: prod.split sum.split)

lemmas good_struct = good_if good_let good_case_res good_case_io good_case_read good_case_sshbuf_read

lemma good_silent_let:
  "good_step c (silent a) \<Longrightarrow> (\<And>x. good_step c (silent x) \<Longrightarrow> good_step c (silent (f x))) \<Longrightarrow>
    good_step c (silent (let x = a in f x))"
  by simp

lemma good_silent_if:
  "good_step c (silent a) \<Longrightarrow> good_step c (silent b) \<Longrightarrow> good_step c (silent (if q then a else b))"
  by simp

lemma good_silent_io: "good_step c (silent x) \<Longrightarrow> good_step c (silent (x\<lparr>c_io_want := w\<rparr>))"
  by (simp add: good_defs)

lemma good_silent_obuf: "good_step c (silent x) \<Longrightarrow> good_step c (silent (chan_obuf_empty am x))"
  by (erule good_trans) (rule good_obuf_empty)

lemma good_pre_open: "chan_inv c \<Longrightarrow> good_step c (silent (channel_pre_open am c))"
  unfolding channel_pre_open_def
  by (intro good_silent_let good_silent_if good_silent_io good_silent_obuf; assumption?) (rule good_silent)

lemma good_write_fail: "chan_inv c \<Longrightarrow> good_step c (channel_write_fail am ssh_compat c)"
  by (simp add: channel_write_fail_def good_mark_dead good_write_failed)

lemma good_step_shift:
  assumes "good_step c1 r" "c_istate c1 = c_istate c" "c_ostate c1 = c_ostate c"
    "c_remote_id c1 = c_remote_id c" "c_flags c1 = c_flags c"
  shows "good_step c r"
  using assms by (auto simp: good_step_def moves_def said_def split: outcome.splits)

lemma chan_inv_frame:
  "chan_inv c \<Longrightarrow> c_istate c' = c_istate c \<Longrightarrow> c_ostate c' = c_ostate c \<Longrightarrow> c_flags c' = c_flags c \<Longrightarrow>
    chan_inv c'"
  by (simp add: chan_inv_def)

lemma good_handle_wfd: "chan_inv c \<Longrightarrow> good_step c (channel_handle_wfd am ssh_compat noecho wr c)"
proof -
  assume inv: "chan_inv c"
  have fail: "good_step c (channel_write_fail am ssh_compat (c\<lparr>c_output := out\<rparr>))" for out
    by (rule good_step_shift [OF good_write_fail]) (use inv in \<open>auto simp: chan_inv_def\<close>)
  show ?thesis
    using inv fail fail [of "c_output c"] good_silent [OF inv]
    by (auto simp: channel_handle_wfd_def Let_def intro!: good_frame
        split: prod.split sum.split io_result.split) (auto simp: good_defs)
qed

lemma good_handle_efd_write: "chan_inv c \<Longrightarrow> good_step c (channel_handle_efd_write wr c)"
  by (auto simp: channel_handle_efd_write_def intro!: good_frame good_silent
      split: io_result.split prod.split sum.split)

lemma good_handle_rfd: "chan_inv c \<Longrightarrow> good_step c (channel_handle_rfd am rd errno c)"
proof -
  assume inv: "chan_inv c"
  have fail: "good_step c (silent (channel_read_fail (c\<lparr>c_input := b\<rparr>)))" for b
    unfolding channel_read_fail_def
    by (rule good_step_shift [where ?c1.0 = "c\<lparr>c_input := b\<rparr>"])
      (use inv in \<open>simp_all add: good_mark_dead good_read_failed chan_inv_def\<close>)
  have "good_step c (silent (c\<lparr>c_input := b\<rparr>))" for b using inv by (intro good_frame) simp_all
  with fail fail [of "c_input c"] good_silent [OF inv] show ?thesis
    unfolding channel_handle_rfd_def by (intro good_struct) simp_all
qed

lemma good_handle_efd: "chan_inv c \<Longrightarrow> good_step c (channel_handle_efd am rd wr c)"
proof -
  assume inv: "chan_inv c"
  have "good_step c (silent (c\<lparr>c_extended := b\<rparr>))" for b using inv by (intro good_frame) simp_all
  moreover have "good_step c (silent (channel_close_fd c n))" for n using inv by (intro good_frame) simp_all
  ultimately have "good_step c (channel_handle_efd_read am rd c)"
    using good_silent [OF inv] unfolding channel_handle_efd_read_def by (intro good_struct) simp_all
  with inv show ?thesis by (simp add: channel_handle_efd_def good_handle_efd_write good_silent)
qed

lemma good_post_open: "chan_inv c \<Longrightarrow> good_step c (channel_post_open am ssh_compat r c)"
  unfolding channel_post_open_def
  by (intro good_seq good_handle_rfd good_handle_wfd good_handle_efd good_check_window)

lemma good_input_data: "chan_inv c \<Longrightarrow> good_step c (input_data_action am c p)"
proof -
  assume inv: "chan_inv c"
  have take: "good_step c (silent (c1\<lparr>c_output := out\<rparr>))"
    if "chan_window_take c n = Done c1" for c1 n out
    using that inv by (intro good_frame) (auto simp: chan_window_take_def Let_def split: if_splits)
  have body: "good_step c (case chan_window_take c n of
        Done c1 \<Rightarrow> (case put c1 of (Inl _, _) \<Rightarrow> Fatal | (Inr _, out) \<Rightarrow> silent (c1\<lparr>c_output := out\<rparr>))
      | Fatal \<Rightarrow> Fatal | Disconnect \<Rightarrow> Disconnect)" for n and put :: "channel \<Rightarrow> unit res \<times> sshbuf"
    by (cases "chan_window_take c n") (simp_all add: take split: prod.split sum.split)
  have "good_step c (silent (c\<lparr>c_local_window := w, c_local_consumed := n\<rparr>))" for w n
    using inv by (intro good_frame) simp_all
  with body good_silent [OF inv] show ?thesis
    unfolding input_data_action_def Let_def
    by (simp del: split_paired_All split: prod.split sum.split)
qed

lemma good_input_extended: "chan_inv c \<Longrightarrow> good_step c (input_extended_action am ssh_compat c p)"
  by (auto simp: input_extended_action_def intro!: good_frame good_silent split: prod.split sum.split)

lemma good_window_adjust: "chan_inv c \<Longrightarrow> good_step c (window_adjust_action c p)"
  by (auto simp: window_adjust_action_def Let_def intro!: good_frame split: prod.split sum.split)

lemma good_open_failure: "chan_inv c \<Longrightarrow> good_step c (open_failure_action am c p)"
  by (auto simp: open_failure_action_def intro!: good_mark_dead split: prod.split sum.split)

lemma good_force_drain:
  assumes "chan_inv c" "c_istate c = CHAN_INPUT_OPEN"
  shows "good_step c (let c2 = c\<lparr>c_istate := CHAN_INPUT_WAIT_DRAIN\<rparr> in
      if sshbuf_len (c_input c2) = 0 then chan_ibuf_empty c2 else silent c2)"
  using assms by (auto simp: good_defs chan_ibuf_empty_def chan_send_eof2_def Let_def)

lemma good_ieof: "chan_inv c \<Longrightarrow> good_step c (input_ieof_action am c)"
  unfolding input_ieof_action_def
  by (subst Let_def, rule good_trans [where c' = "chan_rcvd_ieof am c"])
    (auto simp only: good_rcvd_ieof good_force_drain good_silent split: if_split)

lemma good_poll_input:
  assumes "chan_inv c" "c_istate c = CHAN_INPUT_OPEN \<or> c_istate c = CHAN_INPUT_WAIT_DRAIN"
  shows "good_step c (channel_output_poll_input_open c)"
proof -
  have "CHAN_EOF_SENT \<notin> c_flags c" "CHAN_CLOSE_SENT \<notin> c_flags c"
    using assms by (auto simp: chan_inv_def)
  then have data: "good_step c (Done (c\<lparr>c_input := b, c_remote_window := w\<rparr>, [SSH2_MSG_CHANNEL_DATA (c_remote_id c) d]))"
    for b w d using assms(1) by (simp add: good_defs)
  have "good_step c (silent (c\<lparr>c_input := b\<rparr>))" for b
    using assms(1) by (intro good_frame) simp_all
  with data good_ibuf_empty [OF assms(1)] good_silent [OF assms(1)] show ?thesis
    unfolding channel_output_poll_input_open_def by (intro good_struct) simp_all
qed

lemma good_poll_extended:
  assumes "chan_inv c" "CHAN_EOF_SENT \<notin> c_flags c" "CHAN_CLOSE_SENT \<notin> c_flags c"
  shows "good_step c (channel_output_poll_extended_read c)"
proof -
  have "good_step c (Done (c\<lparr>c_extended := b, c_remote_window := w\<rparr>,
      [SSH2_MSG_CHANNEL_EXTENDED_DATA (c_remote_id c) t d]))" for b w t d
    using assms by (simp add: good_defs)
  with good_silent [OF assms(1)] show ?thesis
    unfolding channel_output_poll_extended_read_def by (intro good_struct) simp_all
qed

lemma good_poll_one: "chan_inv c \<Longrightarrow> good_step c (channel_output_poll_one c)"
proof (cases "c_type c = SSH_CHANNEL_OPEN \<and> c_flags c \<inter> {CHAN_CLOSE_SENT, CHAN_CLOSE_RCVD} = {}")
  case True
  assume inv: "chan_inv c"
  let ?r = "if c_istate c = CHAN_INPUT_OPEN \<or> c_istate c = CHAN_INPUT_WAIT_DRAIN
      then channel_output_poll_input_open c else silent c"
  let ?f = "\<lambda>c. if CHAN_EOF_SENT \<notin> c_flags c \<and> c_extended_usage c = CHAN_EXTENDED_READ
      then channel_output_poll_extended_read c else silent c"
  have r: "good_step c ?r" using inv by (simp add: good_poll_input good_silent)
  have "CHAN_CLOSE_SENT \<notin> c_flags c'" if "?r = Done (c', ms)" for c' ms
    using that True
    by (auto simp: channel_output_poll_input_open_def chan_ibuf_empty_def chan_send_eof2_def silent_def Let_def
        chan_set_istate_def split: if_splits prod.splits sum.splits)
  moreover have "chan_inv c'" if "?r = Done (c', ms)" for c' ms
    using r that by (simp add: good_step_def moves_def)
  ultimately have "good_step c (and_then ?r ?f)"
    by (intro good_step_and_then [OF r]) (simp add: good_poll_extended good_silent)
  with True show ?thesis by (simp add: channel_output_poll_one_def)
qed (auto simp: channel_output_poll_one_def good_silent)

lemma good_force_close: "chan_inv c \<Longrightarrow> good_step c (channel_force_close am ssh_compat c abandon)"
proof -
  assume inv: "chan_inv c"
  have ib: "good_step c (chan_ibuf_empty (c\<lparr>c_input := b\<rparr>))" if "chan_inv c" for c b
    by (rule good_step_shift [OF good_ibuf_empty]) (use that in \<open>auto simp: chan_inv_def\<close>)
  have wf: "good_step c (chan_write_failed am ssh_compat (c\<lparr>c_output := b\<rparr>))" if "chan_inv c" for c b
    by (rule good_step_shift [OF good_write_failed]) (use that in \<open>auto simp: chan_inv_def\<close>)
  have fin: "good_step c (silent (let c4 = (if c_efd c \<noteq> - 1 then channel_close_fd c (c_efd c) else c)
      in if abandon then c4\<lparr>c_type := SSH_CHANNEL_ABANDONED\<rparr> else c4))" if "chan_inv c" for c
    using that by (intro good_frame) (auto simp: Let_def)
  have first: "good_step c (let c1 = (if c_istate c = CHAN_INPUT_OPEN then chan_read_failed c else c)
        in if c_istate c1 = CHAN_INPUT_WAIT_DRAIN
           then chan_ibuf_empty (c1\<lparr>c_input := sshbuf_reset am (c_input c1)\<rparr>) else silent c1)"
    unfolding Let_def
    by (rule good_trans [where c' = "if c_istate c = CHAN_INPUT_OPEN then chan_read_failed c else c"])
      (auto simp: good_read_failed inv good_silent ib)
  show ?thesis
    unfolding channel_force_close_def
    by (intro good_seq first good_if wf fin good_silent)
qed

section \<open>Runs\<close>

text \<open>
  What can happen to one channel: its descriptors, the poll for data to send, the messages of
  the peer, and the local decisions to close it.
\<close>

datatype chan_event =
    Ev_read_failed
  | Ev_pre_open
  | Ev_post_open chan_round
  | Ev_output_poll
  | Ev_data sshbuf
  | Ev_extended_data sshbuf
  | Ev_window_adjust sshbuf
  | Ev_ieof
  | Ev_oclose
  | Ev_eow
  | Ev_open_failure sshbuf
  | Ev_force_close bool
  | Ev_is_dead bool

fun chan_event_step :: "allocator \<Rightarrow> compat_flag set \<Rightarrow> chan_event \<Rightarrow> channel \<Rightarrow> chan_step" where
  "chan_event_step am f Ev_read_failed c = silent (chan_read_failed c)"
| "chan_event_step am f Ev_pre_open c = silent (channel_pre_open am c)"
| "chan_event_step am f (Ev_post_open r) c = channel_post_open am f r c"
| "chan_event_step am f Ev_output_poll c = channel_output_poll_one c"
| "chan_event_step am f (Ev_data p) c = input_data_action am c p"
| "chan_event_step am f (Ev_extended_data p) c = input_extended_action am f c p"
| "chan_event_step am f (Ev_window_adjust p) c = window_adjust_action c p"
| "chan_event_step am f Ev_ieof c = input_ieof_action am c"
| "chan_event_step am f Ev_oclose c = chan_rcvd_oclose c"
| "chan_event_step am f Ev_eow c = silent (chan_rcvd_eow c)"
| "chan_event_step am f (Ev_open_failure p) c = open_failure_action am c p"
| "chan_event_step am f (Ev_force_close abandon) c = channel_force_close am f c abandon"
| "chan_event_step am f (Ev_is_dead do_send) c =
     (case chan_is_dead f c do_send of
        Done (_, c', ms) \<Rightarrow> Done (c', ms) | Fatal \<Rightarrow> Fatal | Disconnect \<Rightarrow> Disconnect)"

fun chan_run :: "('e \<Rightarrow> channel \<Rightarrow> chan_step) \<Rightarrow> channel \<Rightarrow> 'e list \<Rightarrow> chan_step" where
  "chan_run step c [] = silent c"
| "chan_run step c (e # es) = and_then (step e c) (\<lambda>c'. chan_run step c' es)"

text \<open>The contract of a set of handlers, and what it gives for every run.\<close>

locale chan_machine =
  fixes step :: "'e \<Rightarrow> channel \<Rightarrow> chan_step"
  assumes step_good: "chan_inv c \<Longrightarrow> good_step c (step e c)"
begin

lemma run_good: "chan_inv c \<Longrightarrow> good_step c (chan_run step c es)"
proof (induction es arbitrary: c)
  case Nil
  then show ?case by (simp add: good_silent)
next
  case (Cons e es)
  then show ?case by (simp add: good_seq step_good)
qed

lemma run_order:
  assumes "chan_inv c" "chan_run step c es = Done (c', ms)"
  shows "chan_monitor (c_remote_id c) (said c) ms = Some (said c')" "chan_inv c'"
    "istate_rank (c_istate c) \<le> istate_rank (c_istate c')" "ostate_rank (c_ostate c) \<le> ostate_rank (c_ostate c')"
  using run_good [OF assms(1), of es] assms(2) by (simp_all add: good_step_def moves_def)

end

lemma good_event: "chan_inv c \<Longrightarrow> good_step c (chan_event_step am f e c)"
  by (cases e) (simp_all add: good_read_failed good_pre_open good_post_open good_poll_one good_input_data good_input_extended good_window_adjust good_ieof
      good_rcvd_oclose good_rcvd_eow good_open_failure good_force_close good_is_dead
      split: outcome.split prod.split)

interpretation chm: chan_machine "chan_event_step am f" for am f
  by unfold_locales (rule good_event)

section \<open>Properties\<close>

text \<open>
  C5: whatever happens to a channel, the messages it sends keep the order that the protocol
  prescribes: no data after end-of-file, at most one end-of-file, at most one close, nothing
  after the close, all to the same remote channel; and a direction that was closed is never
  opened again.
\<close>

theorem chan_run_order:
  assumes "chan_inv c" "chan_run (chan_event_step am f) c es = Done (c', ms)"
  shows "chan_monitor (c_remote_id c) (said c) ms = Some (said c') \<and>
    istate_rank (c_istate c) \<le> istate_rank (c_istate c') \<and> ostate_rank (c_ostate c) \<le> ostate_rank (c_ostate c')"
  using chm.run_order [OF assms] by simp

definition ex_chan :: channel where
  "ex_chan = (let b = \<lparr>sb_d = 4096, sb_cd = 4096, sb_off = 0, sb_size = 0, sb_max_size = 1024,
       sb_alloc = 256, sb_readonly = False, sb_refcount = 1, sb_parent = None, sb_mem = replicate 256 0\<rparr>
     in (channel_zero b b b)\<lparr>c_type := SSH_CHANNEL_OPEN, c_remote_id := 7, c_have_remote_id := True,
       c_rfd := 5, c_wfd := 6, c_sock := - 1, c_efd := - 1\<rparr>)"

theorem chan_run_order_witness:
  "chan_monitor 7 (False, False) [SSH2_MSG_CHANNEL_EOF 7] \<noteq> None \<and>
   (case chan_run (chan_event_step (\<lambda>_. 4096) {}) ex_chan [Ev_read_failed, Ev_output_poll, Ev_output_poll] of
      Done (c', ms) \<Rightarrow> ms = [SSH2_MSG_CHANNEL_EOF 7] \<and> said c' = (True, False) | _ \<Rightarrow> False)"
proof -
  have inv: "chan_inv ex_chan" by (simp add: chan_inv_def ex_chan_def channel_zero_def Let_def)
  have "\<exists>c'. chan_run (chan_event_step (\<lambda>_. 4096) {}) ex_chan [Ev_read_failed, Ev_output_poll, Ev_output_poll] =
      Done (c', [SSH2_MSG_CHANNEL_EOF 7])"
    by (simp add: ex_chan_def channel_zero_def Let_def chan_read_failed_def chan_shutdown_read_def
        chan_set_istate_def channel_close_fd_def channel_output_poll_one_def channel_output_poll_input_open_def
        sshbuf_len_def sshbuf_check_sanity_def sshbuf_consts CHANNEL_EFD_INPUT_ACTIVE_def chan_ibuf_empty_def
        chan_send_eof2_def silent_def)
  then obtain c' where run: "chan_run (chan_event_step (\<lambda>_. 4096) {}) ex_chan
      [Ev_read_failed, Ev_output_poll, Ev_output_poll] = Done (c', [SSH2_MSG_CHANNEL_EOF 7])" by blast
  have "c_remote_id ex_chan = 7" "said ex_chan = (False, False)"
    by (simp_all add: said_def ex_chan_def channel_zero_def Let_def)
  with chan_run_order [OF inv run] run show ?thesis by simp
qed

end
