(* ===== verification/Chan_Flow.thy ===== *)
theory Chan_Flow
  imports Chan_Order
begin

text \<open>
  The two ends of a channel composed: one process writes to the descriptor of the sending
  channel, the bytes travel as \<^verbatim>\<open>CHANNEL_DATA\<close> messages within the window that the receiving
  channel granted, the receiving channel writes them to its own descriptor and grants more
  window with \<^verbatim>\<open>WINDOW_ADJUST\<close> messages. The steps are the handlers of \<^verbatim>\<open>channels.c\<close>; the
  messages in flight are queues. The invariant accounts for every byte of the window and of the
  stream.
\<close>

section \<open>What a handler can yield\<close>

text \<open>A postcondition of the channel and the messages, with rules that follow the code.\<close>

definition yields :: "chan_step \<Rightarrow> (channel \<Rightarrow> chan_msg list \<Rightarrow> bool) \<Rightarrow> bool" where
  "yields r P \<longleftrightarrow> (\<forall>c ms. r = Done (c, ms) \<longrightarrow> P c ms)"

lemma yieldsD: "yields r P \<Longrightarrow> r = Done (c, ms) \<Longrightarrow> P c ms"
  by (simp add: yields_def)

lemma yields_simps [simp]:
  "yields (silent c) P \<longleftrightarrow> P c []" "yields (Done (c, ms)) P \<longleftrightarrow> P c ms" "yields Fatal P" "yields Disconnect P"
  by (simp_all add: yields_def silent_def)

lemma yields_if: "(q \<Longrightarrow> yields a P) \<Longrightarrow> (\<not> q \<Longrightarrow> yields b P) \<Longrightarrow> yields (if q then a else b) P"
  by simp

lemma yields_let: "(\<And>x. x = a \<Longrightarrow> yields (f x) P) \<Longrightarrow> yields (let x = a in f x) P"
  by simp

lemma yields_seq: "yields r (\<lambda>c ms. yields (f c) (\<lambda>c' ms'. P c' (ms @ ms'))) \<Longrightarrow> yields (and_then r f) P"
  by (cases r) (auto simp: yields_def split: outcome.splits)

lemma yields_case_res:
  "(\<And>b e. p = (Inl e, b) \<Longrightarrow> yields (f e b) P) \<Longrightarrow> (\<And>b v. p = (Inr v, b) \<Longrightarrow> yields (g v b) P) \<Longrightarrow>
    yields (case p of (Inl e, b) \<Rightarrow> f e b | (Inr v, b) \<Rightarrow> g v b) P"
  by (simp split: prod.split sum.split)

lemma yields_case_io:
  "(\<And>n. w = IO_len n \<Longrightarrow> yields (f n) P) \<Longrightarrow> (w = IO_again \<Longrightarrow> yields a P) \<Longrightarrow> (w = IO_error \<Longrightarrow> yields e P) \<Longrightarrow>
    yields (case w of IO_len n \<Rightarrow> f n | IO_again \<Rightarrow> a | IO_error \<Rightarrow> e) P"
  by (simp split: io_result.split)

lemma yields_case_read:
  "(\<And>bs. rd = Rd_bytes bs \<Longrightarrow> yields (f bs) P) \<Longrightarrow> (\<And>e. rd = Rd_error e \<Longrightarrow> yields (g e) P) \<Longrightarrow>
    yields (case rd of Rd_bytes bs \<Rightarrow> f bs | Rd_error e \<Rightarrow> g e) P"
  by (simp split: read_result.split)

lemma yields_case_sshbuf_read:
  "(\<And>e b x. p = (Inl e, b, x) \<Longrightarrow> yields (f e b x) P) \<Longrightarrow> (\<And>v b x. p = (Inr v, b, x) \<Longrightarrow> yields (g v b x) P) \<Longrightarrow>
    yields (case p of (Inr v, b, x) \<Rightarrow> g v b x | (Inl e, b, x) \<Rightarrow> f e b x) P"
  by (simp split: prod.split sum.split)

lemmas yields_struct = yields_if yields_let yields_case_res yields_case_io yields_case_read yields_case_sshbuf_read

section \<open>The handlers on well-formed buffers\<close>

lemma sshbuf_len_0_iff: "sshbuf_inv b \<Longrightarrow> sshbuf_len b = 0 \<longleftrightarrow> sshbuf_contents b = []"
  by (metis unat_sshbuf_len length_0_conv unat_eq_zero)

lemma ucast_u32_size [simp]: "unat (ucast (w :: u32) :: size_t) = unat w"
  by (simp add: unat_ucast_up)

lemma unat_min_size: "unat (min a b :: size_t) = min (unat a) (unat b)"
  by (simp add: min_def word_le_nat_alt)

definition send_len :: "channel \<Rightarrow> nat" where
  "send_len c = min (min (length (sshbuf_contents (c_input c))) (unat (c_remote_window c))) (unat (c_remote_maxpacket c))"

lemma if_less_min: "(if b < a then b else a) = min (a :: 'a :: linorder) b"
  by (auto simp: min_def)

lemma ucast_of_nat: "(ucast (w :: size_t) :: u32) = of_nat (unat w)"
  by (simp add: of_nat_unat)

lemma poll_input_data:
  assumes inv: "sshbuf_inv (c_input c)" and "c_have_remote_id c" "\<not> c_datagram c" "sshbuf_contents (c_input c) \<noteq> []"
  shows "send_len c = 0 \<Longrightarrow> channel_output_poll_input_open c = silent c"
    and "send_len c \<noteq> 0 \<Longrightarrow> \<exists>inp. channel_output_poll_input_open c =
        Done (c\<lparr>c_input := inp, c_remote_window := c_remote_window c - of_nat (send_len c)\<rparr>,
          [SSH2_MSG_CHANNEL_DATA (c_remote_id c) (take (send_len c) (sshbuf_contents (c_input c)))]) \<and>
        sshbuf_read_to (c_input c) (send_len c) inp"
proof -
  define n where "n = min (min (sshbuf_len (c_input c)) (ucast (c_remote_window c))) (ucast (c_remote_maxpacket c) :: size_t)"
  have u: "unat n = send_len c" using inv by (simp add: n_def send_len_def unat_min_size)
  have "sshbuf_len (c_input c) \<noteq> 0" using assms(4) by (simp add: sshbuf_len_0_iff [OF inv])
  then have eq: "channel_output_poll_input_open c = (if n = 0 then silent c else
       (case sshbuf_consume (c_input c) n of
          (Inl _, _) \<Rightarrow> Fatal
        | (Inr _, inp) \<Rightarrow> Done (c\<lparr>c_input := inp, c_remote_window := c_remote_window c - ucast n\<rparr>,
            [SSH2_MSG_CHANNEL_DATA (c_remote_id c) (chan_buf_bytes (c_input c) (unat n))])))"
    using assms(2,3) unfolding channel_output_poll_input_open_def Let_def if_less_min n_def [symmetric] by simp
  show "channel_output_poll_input_open c = silent c" if "send_len c = 0"
    using eq u that by (simp add: unat_eq_zero)
  have le: "send_len c \<le> length (sshbuf_contents (c_input c))" by (simp add: send_len_def)
  show "\<exists>inp. channel_output_poll_input_open c =
        Done (c\<lparr>c_input := inp, c_remote_window := c_remote_window c - of_nat (send_len c)\<rparr>,
          [SSH2_MSG_CHANNEL_DATA (c_remote_id c) (take (send_len c) (sshbuf_contents (c_input c)))]) \<and>
        sshbuf_read_to (c_input c) (send_len c) inp" if "send_len c \<noteq> 0"
  proof -
    have "(ucast n :: u32) = of_nat (send_len c)" by (simp only: ucast_of_nat u)
    with sshbuf_consume_read_to [OF inv, of n] eq u that le show ?thesis
      by (auto simp: chan_buf_bytes_def contents_front)
  qed
qed

lemma recv_data:
  assumes "sshbuf_inv p" "sshbuf_contents p = enc_string d" "length d \<le> STRING_MAX"
    and "c_type c = SSH_CHANNEL_OPEN" "\<not> c_datagram c" "c_ostate c = CHAN_OUTPUT_OPEN"
    and "length d \<le> unat (c_local_maxpacket c)" "length d \<le> unat (c_local_window c)"
  shows "input_data_action am c p =
     (case sshbuf_put am (c_output c) d of
        (Inl _, _) \<Rightarrow> Fatal
      | (Inr _, out) \<Rightarrow> silent (c\<lparr>c_local_window := c_local_window c - of_nat (length d),
          c_local_window_exceeded := 0, c_output := out\<rparr>))"
proof -
  obtain p1 where p1: "sshbuf_get_string_direct p = (Inr d, p1)" "sshbuf_inv p1" "sshbuf_contents p1 = []"
    using get_string_direct_enc [OF assms(1), of d "[]"] assms(2,3) by auto
  have "sshbuf_len p1 = 0" using p1 by (simp add: sshbuf_len_0_iff)
  moreover have l: "unat (of_nat (length d) :: size_t) = length d"
    using assms(3) by (intro unat_of_nat_small) (simp add: STRING_MAX_def)
  moreover have "\<not> of_nat (length d) > (ucast (c_local_maxpacket c) :: size_t)"
    "\<not> of_nat (length d) > (ucast (c_local_window c) :: size_t)"
    using assms(7,8) l by (simp_all add: word_less_nat_alt)
  moreover have "(ucast (of_nat (length d) :: size_t) :: u32) = of_nat (length d)" by (simp only: ucast_of_nat l)
  ultimately show ?thesis
    using assms(4-6) p1(1) by (simp add: input_data_action_def chan_window_take_def)
qed

lemma write_data:
  assumes inv: "sshbuf_inv (c_output c)" and "\<not> c_datagram c" "SSH_CHAN_IO_WFD \<in> c_io_ready c"
    and n: "0 < n" "n \<le> length (sshbuf_contents (c_output c))"
  shows "\<exists>out ms. channel_handle_wfd am f noecho (IO_len n) c =
      Done (c\<lparr>c_output := out, c_local_consumed := c_local_consumed c + of_nat n\<rparr>, ms) \<and>
    sshbuf_read_to (c_output c) n out"
proof -
  have "length (sshbuf_contents (c_output c)) < 2 ^ 64"
    using length_contents_le_max [OF inv] sshbuf_inv_bounds(4) [OF inv] by simp
  then have u: "unat (of_nat n :: size_t) = n" using n by (intro unat_of_nat_small) simp
  obtain out where out: "sshbuf_consume (c_output c) (of_nat n) = (Inr (), out)" "sshbuf_read_to (c_output c) n out"
    using sshbuf_consume_read_to [OF inv, of "of_nat n"] n u by auto
  have "sshbuf_inv out" "length (sshbuf_contents out) = length (sshbuf_contents (c_output c)) - n"
    using out(2) by (simp_all add: sshbuf_read_to_def)
  then have "unat (sshbuf_len (c_output c) - sshbuf_len out) = n"
    using inv n by (subst unat_sub) (simp_all add: word_le_nat_alt)
  then have "(ucast (sshbuf_len (c_output c) - sshbuf_len out) :: u32) = of_nat n" by (simp only: ucast_of_nat)
  moreover have "sshbuf_len (c_output c) \<noteq> 0" using n unat_sshbuf_len [OF inv] by auto
  ultimately show ?thesis
    using assms(2,3) n out by (auto simp: channel_handle_wfd_def)
qed

lemma recv_adjust:
  assumes "sshbuf_inv p" "sshbuf_contents p = POKE_U32 a"
  shows "window_adjust_action c p =
    (if unat (c_remote_window c) + unat a < 2 ^ 32 then silent (c\<lparr>c_remote_window := c_remote_window c + a\<rparr>) else Fatal)"
proof -
  have "\<exists>p1. sshbuf_get p 4 = (Inr (POKE_U32 a), p1) \<and> sshbuf_read_to p 4 p1"
    using sshbuf_get_eq(1) [OF assms(1), of 4] assms(2) by simp
  then obtain p1 where p1: "sshbuf_get p 4 = (Inr (POKE_U32 a), p1)" "sshbuf_inv p1" "sshbuf_contents p1 = []"
    using assms(2) by (auto simp: sshbuf_read_to_def)
  have "sshbuf_get_u32 p = (Inr a, p1)" using p1(1) by (simp add: sshbuf_get_int_eq(2) [OF assms(1)])
  moreover have "sshbuf_len p1 = 0" using p1 by (simp add: sshbuf_len_0_iff)
  moreover have "c_remote_window c + a < c_remote_window c \<longleftrightarrow> \<not> unat (c_remote_window c) + unat a < 2 ^ 32"
    using no_olen_add_nat [of "c_remote_window c" a] by (simp add: not_le [symmetric])
  ultimately show ?thesis by (simp add: window_adjust_action_def)
qed

section \<open>The composed system\<close>

record flow =
  snd_c :: channel
  rcv_c :: channel
  to_rcv :: "chan_msg list"
  to_snd :: "chan_msg list"
  app_in :: "byte list"
  app_out :: "byte list"

text \<open>
  \<open>app_in\<close> is what the descriptor of the sender has given, \<open>app_out\<close> what the descriptor of the
  receiver has taken. The input descriptor is polled only until its end (\<^verbatim>\<open>channel_pre_open\<close>);
  writes of the receiver may be partial or to be retried, but do not fail.
\<close>

abbreviation in_bytes :: "channel \<Rightarrow> byte list" where
  "in_bytes c \<equiv> sshbuf_contents (c_input c)"

abbreviation out_bytes :: "channel \<Rightarrow> byte list" where
  "out_bytes c \<equiv> sshbuf_contents (c_output c)"

definition read_bytes :: "read_result \<Rightarrow> nat \<Rightarrow> byte list" where
  "read_bytes rd n = (case rd of Rd_bytes bs \<Rightarrow> take n bs | Rd_error _ \<Rightarrow> [])"

fun write_works :: "io_result \<Rightarrow> channel \<Rightarrow> bool" where
  "write_works (IO_len n) c = (0 < n \<and> n \<le> length (out_bytes c))"
| "write_works IO_again c = True"
| "write_works IO_error c = False"

inductive flow_step :: "allocator \<Rightarrow> compat_flag set \<Rightarrow> flow \<Rightarrow> flow \<Rightarrow> bool" for am f where
  fs_ready: "flow_step am f w
      (w\<lparr>snd_c := (snd_c w)\<lparr>c_io_ready := rs\<rparr>, rcv_c := (rcv_c w)\<lparr>c_io_ready := rr\<rparr>\<rparr>)"
| fs_read: "c_istate (snd_c w) \<noteq> CHAN_INPUT_CLOSED \<Longrightarrow>
    channel_handle_rfd am rd e (snd_c w) = Done (s', ms) \<Longrightarrow>
    flow_step am f w (w\<lparr>snd_c := s', app_in := app_in w @
      read_bytes rd (length (in_bytes s') - length (in_bytes (snd_c w)))\<rparr>)"
| fs_send: "channel_output_poll_one (snd_c w) = Done (s', ms) \<Longrightarrow>
    flow_step am f w (w\<lparr>snd_c := s', to_rcv := to_rcv w @ ms\<rparr>)"
| fs_data: "to_rcv w = SSH2_MSG_CHANNEL_DATA i d # q \<Longrightarrow> sshbuf_inv p \<Longrightarrow> sshbuf_contents p = enc_string d \<Longrightarrow>
    input_data_action am (rcv_c w) p = Done (r', ms) \<Longrightarrow>
    flow_step am f w (w\<lparr>rcv_c := r', to_rcv := q, to_snd := to_snd w @ ms\<rparr>)"
| fs_eof: "to_rcv w = SSH2_MSG_CHANNEL_EOF i # q \<Longrightarrow> input_ieof_action am (rcv_c w) = Done (r', ms) \<Longrightarrow>
    flow_step am f w (w\<lparr>rcv_c := r', to_rcv := q, to_snd := to_snd w @ ms\<rparr>)"
| fs_pre: "flow_step am f w (w\<lparr>rcv_c := channel_pre_open am (rcv_c w)\<rparr>)"
| fs_write: "write_works wr (rcv_c w) \<Longrightarrow> channel_handle_wfd am f noecho wr (rcv_c w) = Done (r', ms) \<Longrightarrow>
    flow_step am f w (w\<lparr>rcv_c := r', to_snd := to_snd w @ ms, app_out := app_out w @
      take (length (out_bytes (rcv_c w)) - length (out_bytes r')) (out_bytes (rcv_c w))\<rparr>)"
| fs_window: "channel_check_window (rcv_c w) = Done (r', ms) \<Longrightarrow>
    flow_step am f w (w\<lparr>rcv_c := r', to_snd := to_snd w @ ms\<rparr>)"
| fs_adjust: "to_snd w = SSH2_MSG_CHANNEL_WINDOW_ADJUST i a # q \<Longrightarrow> sshbuf_inv p \<Longrightarrow>
    sshbuf_contents p = POKE_U32 a \<Longrightarrow> window_adjust_action (snd_c w) p = Done (s', ms) \<Longrightarrow>
    flow_step am f w (w\<lparr>snd_c := s', to_snd := q\<rparr>)"
| fs_ignore: "to_snd w = SSH2_MSG_IGNORE n # q \<Longrightarrow> flow_step am f w (w\<lparr>to_snd := q\<rparr>)"

text \<open>The two channels, as the opening of the channel leaves them and every step keeps them.\<close>

definition sender_ok :: "channel \<Rightarrow> bool" where
  "sender_ok c \<longleftrightarrow>
     c_type c = SSH_CHANNEL_OPEN \<and> \<not> c_datagram c \<and> c_have_remote_id c \<and>
     c_flags c \<inter> {CHAN_CLOSE_SENT, CHAN_CLOSE_RCVD, CHAN_LOCAL} = {} \<and>
     c_extended_usage c \<noteq> CHAN_EXTENDED_READ \<and>
     sshbuf_inv (c_input c) \<and> sshbuf_writable (c_input c) \<and>
     c_istate c \<in> {CHAN_INPUT_OPEN, CHAN_INPUT_WAIT_DRAIN, CHAN_INPUT_CLOSED} \<and>
     (CHAN_EOF_SENT \<in> c_flags c \<longleftrightarrow> c_istate c = CHAN_INPUT_CLOSED) \<and>
     (c_istate c = CHAN_INPUT_CLOSED \<longrightarrow> in_bytes c = [])"

definition receiver_ok :: "channel \<Rightarrow> bool" where
  "receiver_ok c \<longleftrightarrow>
     c_type c = SSH_CHANNEL_OPEN \<and> \<not> c_datagram c \<and> c_have_remote_id c \<and> \<not> c_force_drain c \<and>
     c_flags c \<inter> {CHAN_CLOSE_SENT, CHAN_CLOSE_RCVD} = {} \<and>
     sshbuf_inv (c_output c) \<and> sshbuf_writable (c_output c) \<and> SSHBUF_SIZE_INIT \<le> sb_max_size (c_output c) \<and>
     unat (c_local_window_max c) \<le> unat (sb_max_size (c_output c)) \<and>
     unat (c_local_maxpacket c) \<le> STRING_MAX \<and>
     c_ostate c \<in> {CHAN_OUTPUT_OPEN, CHAN_OUTPUT_WAIT_DRAIN, CHAN_OUTPUT_CLOSED} \<and>
     (CHAN_EOF_RCVD \<in> c_flags c \<longleftrightarrow> c_ostate c \<noteq> CHAN_OUTPUT_OPEN) \<and>
     (c_ostate c = CHAN_OUTPUT_CLOSED \<longrightarrow> out_bytes c = []) \<and>
     unat (c_local_window c) + unat (c_local_consumed c) + length (out_bytes c) = unat (c_local_window_max c)"

fun grant :: "chan_msg \<Rightarrow> nat" where
  "grant (SSH2_MSG_CHANNEL_WINDOW_ADJUST _ n) = unat n"
| "grant _ = 0"

text \<open>The data in flight, with the end of file behind it once it was sent and not yet received.\<close>

definition in_flight :: "flow \<Rightarrow> byte list list \<Rightarrow> bool" where
  "in_flight w ds \<longleftrightarrow>
     to_rcv w = map (SSH2_MSG_CHANNEL_DATA (c_remote_id (snd_c w))) ds @
       (if CHAN_EOF_SENT \<in> c_flags (snd_c w) \<and> CHAN_EOF_RCVD \<notin> c_flags (rcv_c w)
        then [SSH2_MSG_CHANNEL_EOF (c_remote_id (snd_c w))] else []) \<and>
     (CHAN_EOF_RCVD \<in> c_flags (rcv_c w) \<longrightarrow> ds = [] \<and> CHAN_EOF_SENT \<in> c_flags (snd_c w)) \<and>
     (\<forall>d\<in>set ds. length d \<le> unat (c_remote_maxpacket (snd_c w)))"

text \<open>
  Every byte of the window is with the sender, covered by data in flight, or in an adjustment in
  flight; every byte of the stream is delivered, at the receiver, in flight, or at the sender.
\<close>

definition account :: "flow \<Rightarrow> byte list list \<Rightarrow> bool" where
  "account w ds \<longleftrightarrow>
     unat (c_local_window (rcv_c w)) =
       unat (c_remote_window (snd_c w)) + length (concat ds) + sum_list (map grant (to_snd w)) \<and>
     app_in w = app_out w @ out_bytes (rcv_c w) @ concat ds @ in_bytes (snd_c w)"

abbreviation back_msg :: "chan_msg \<Rightarrow> bool" where
  "back_msg m \<equiv> (\<exists>i a. m = SSH2_MSG_CHANNEL_WINDOW_ADJUST i a) \<or> (\<exists>n. m = SSH2_MSG_IGNORE n)"

definition flow_inv :: "flow \<Rightarrow> bool" where
  "flow_inv w \<longleftrightarrow>
     sender_ok (snd_c w) \<and> receiver_ok (rcv_c w) \<and>
     unat (c_remote_maxpacket (snd_c w)) \<le> unat (c_local_maxpacket (rcv_c w)) \<and>
     (\<forall>m\<in>set (to_snd w). back_msg m) \<and> (\<exists>ds. in_flight w ds \<and> account w ds)"

section \<open>What the handlers do to the two channels\<close>

lemma channel_close_fd_rest [simp]:
  "c_datagram (channel_close_fd c fd) = c_datagram c"
  "c_extended_usage (channel_close_fd c fd) = c_extended_usage c"
  "c_remote_window (channel_close_fd c fd) = c_remote_window c"
  "c_remote_maxpacket (channel_close_fd c fd) = c_remote_maxpacket c"
  "c_local_window (channel_close_fd c fd) = c_local_window c"
  "c_local_window_max (channel_close_fd c fd) = c_local_window_max c"
  "c_local_consumed (channel_close_fd c fd) = c_local_consumed c"
  "c_local_maxpacket (channel_close_fd c fd) = c_local_maxpacket c"
  "c_force_drain (channel_close_fd c fd) = c_force_drain c"
  by (simp_all add: channel_close_fd_def Let_def)

lemma sender_input:
  assumes "sender_ok c" "c_istate c \<noteq> CHAN_INPUT_CLOSED" "sshbuf_inv b" "sshbuf_writable b"
  shows "sender_ok (c\<lparr>c_input := b\<rparr>)" "sender_ok (channel_read_fail (c\<lparr>c_input := b\<rparr>))"
    "c_flags (channel_read_fail (c\<lparr>c_input := b\<rparr>)) = c_flags c"
    "c_input (channel_read_fail (c\<lparr>c_input := b\<rparr>)) = b"
    "c_remote_window (channel_read_fail (c\<lparr>c_input := b\<rparr>)) = c_remote_window c"
    "c_remote_maxpacket (channel_read_fail (c\<lparr>c_input := b\<rparr>)) = c_remote_maxpacket c"
    "c_remote_id (channel_read_fail (c\<lparr>c_input := b\<rparr>)) = c_remote_id c"
  using assms
  by (auto simp: sender_ok_def channel_read_fail_def chan_read_failed_def chan_shutdown_read_def chan_set_istate_def)

lemma sender_read:
  assumes ok: "sender_ok c" and open_in: "c_istate c \<noteq> CHAN_INPUT_CLOSED"
    and step: "channel_handle_rfd am rd e c = Done (c', ms)"
  shows "sender_ok c' \<and> c_remote_window c' = c_remote_window c \<and> c_remote_maxpacket c' = c_remote_maxpacket c \<and>
    c_remote_id c' = c_remote_id c \<and> c_flags c' = c_flags c \<and>
    in_bytes c' = in_bytes c @ read_bytes rd (length (in_bytes c') - length (in_bytes c))"
proof -
  have b: "sshbuf_inv (c_input c)" "sshbuf_writable (c_input c)" "\<not> c_datagram c" using ok by (simp_all add: sender_ok_def)
  let ?P = "\<lambda>c' (ms :: chan_msg list). sender_ok c' \<and> c_remote_window c' = c_remote_window c \<and>
    c_remote_maxpacket c' = c_remote_maxpacket c \<and> c_remote_id c' = c_remote_id c \<and> c_flags c' = c_flags c \<and>
    in_bytes c' = in_bytes c @ read_bytes rd (length (in_bytes c') - length (in_bytes c))"
  have same: "?P c []" using ok by (simp add: read_bytes_def split: read_result.split)
  have read: "?P (c\<lparr>c_input := inp\<rparr>) [] \<and> (\<forall>x. r = Inl x \<longrightarrow> ?P (channel_read_fail (c\<lparr>c_input := inp\<rparr>)) [])"
    if "sshbuf_read am rd e (c_input c) n = (r, inp, e')" for n r inp e'
  proof -
    note io = sshbuf_read_ok [OF b(1) that]
    have "sshbuf_inv inp" "sshbuf_writable inp" using io b(2) by simp_all
    note keep = sender_input [OF ok open_in this]
    have "sshbuf_contents inp = in_bytes c @ read_bytes rd (length (sshbuf_contents inp) - length (in_bytes c))"
      using io by (cases r) (auto simp: read_bytes_def min_def split: read_result.split)
    with keep show ?thesis by simp
  qed
  have "yields (channel_handle_rfd am rd e c) ?P"
    unfolding channel_handle_rfd_def using b(3) by (intro yields_struct) (use same read in \<open>simp_all split: if_split\<close>)
  from yieldsD [OF this step] show ?thesis .
qed

lemma poll_input_drained:
  assumes "sender_ok c" "in_bytes c = []"
  shows "channel_output_poll_input_open c =
    (if c_istate c = CHAN_INPUT_WAIT_DRAIN
     then Done (c\<lparr>c_flags := insert CHAN_EOF_SENT (c_flags c), c_istate := CHAN_INPUT_CLOSED\<rparr>,
       [SSH2_MSG_CHANNEL_EOF (c_remote_id c)])
     else silent c)"
proof -
  have "sshbuf_len (c_input c) = 0"
    using assms by (simp add: sender_ok_def sshbuf_len_0_iff)
  with assms show ?thesis
    by (auto simp: channel_output_poll_input_open_def sender_ok_def CHANNEL_EFD_INPUT_ACTIVE_def chan_ibuf_empty_def
        chan_send_eof2_def chan_set_istate_def silent_def)
qed

lemma poll_one_sender:
  assumes "sender_ok c"
  shows "channel_output_poll_one c =
    (if c_istate c = CHAN_INPUT_CLOSED then silent c else channel_output_poll_input_open c)"
proof -
  have "yields (channel_output_poll_input_open c) (\<lambda>c' ms. c_extended_usage c' \<noteq> CHAN_EXTENDED_READ)"
    using assms unfolding channel_output_poll_input_open_def chan_ibuf_empty_def chan_send_eof2_def
    by (intro yields_struct yields_seq) (simp_all add: sender_ok_def chan_set_istate_def)
  with assms show ?thesis
    by (cases "channel_output_poll_input_open c")
      (auto simp: channel_output_poll_one_def sender_ok_def yields_def silent_def)
qed

lemma sender_poll:
  assumes ok: "sender_ok c" and step: "channel_output_poll_one c = Done (c', ms)"
  shows "sender_ok c' \<and> c_remote_maxpacket c' = c_remote_maxpacket c \<and> c_remote_id c' = c_remote_id c \<and>
    (ms = [] \<and> c' = c \<or>
     (\<exists>d. ms = [SSH2_MSG_CHANNEL_DATA (c_remote_id c) d] \<and> length d \<le> unat (c_remote_maxpacket c) \<and>
        in_bytes c = d @ in_bytes c' \<and> unat (c_remote_window c) = unat (c_remote_window c') + length d \<and>
        c_flags c' = c_flags c) \<or>
     ms = [SSH2_MSG_CHANNEL_EOF (c_remote_id c)] \<and> CHAN_EOF_SENT \<notin> c_flags c \<and> CHAN_EOF_SENT \<in> c_flags c' \<and>
        in_bytes c = [] \<and> in_bytes c' = [] \<and> c_remote_window c' = c_remote_window c)"
proof (cases "c_istate c = CHAN_INPUT_CLOSED \<or> in_bytes c = []")
  case True
  with ok step show ?thesis
    by (auto simp: poll_one_sender poll_input_drained silent_def sender_ok_def split: if_splits)
next
  case False
  have c: "sshbuf_inv (c_input c)" "c_have_remote_id c" "\<not> c_datagram c" "in_bytes c \<noteq> []"
    using ok False by (simp_all add: sender_ok_def)
  have step': "channel_output_poll_input_open c = Done (c', ms)"
    using step False ok by (simp add: poll_one_sender)
  show ?thesis
  proof (cases "send_len c = 0")
    case True
    with poll_input_data(1) [OF c] step' ok show ?thesis by (simp add: silent_def)
  next
    case send: False
    then obtain inp where c': "c' = c\<lparr>c_input := inp, c_remote_window := c_remote_window c - of_nat (send_len c)\<rparr>"
      "ms = [SSH2_MSG_CHANNEL_DATA (c_remote_id c) (take (send_len c) (in_bytes c))]"
      and inp: "sshbuf_read_to (c_input c) (send_len c) inp"
      using poll_input_data(2) [OF c send] step' by auto
    have le: "send_len c \<le> length (in_bytes c)" "send_len c \<le> unat (c_remote_window c)"
      "send_len c \<le> unat (c_remote_maxpacket c)" by (simp_all add: send_len_def)
    have "unat (of_nat (send_len c) :: u32) = send_len c"
      using le(2) unat_less_2p [of "c_remote_window c"] by (intro unat_of_nat_small) simp
    then have "unat (c_remote_window c - of_nat (send_len c)) = unat (c_remote_window c) - send_len c"
      using le(2) by (subst unat_sub) (simp_all add: word_le_nat_alt)
    moreover have "sender_ok c'" using ok False inp by (auto simp: c' sender_ok_def sshbuf_read_to_def)
    ultimately show ?thesis using le inp by (simp add: c' sshbuf_read_to_def)
  qed
qed

lemma receiver_data:
  assumes ok: "receiver_ok c" and eof: "CHAN_EOF_RCVD \<notin> c_flags c"
    and p: "sshbuf_inv p" "sshbuf_contents p = enc_string d"
    and d: "length d \<le> unat (c_local_maxpacket c)" "length d \<le> unat (c_local_window c)"
  shows "input_data_action am c p = Done (c', ms) \<Longrightarrow>
      receiver_ok c' \<and> ms = [] \<and> c_flags c' = c_flags c \<and> c_local_maxpacket c' = c_local_maxpacket c \<and>
      unat (c_local_window c') = unat (c_local_window c) - length d \<and> out_bytes c' = out_bytes c @ d"
    and "(\<And>n. am n \<noteq> NULL) \<Longrightarrow> \<exists>c'. input_data_action am c p = Done (c', [])"
proof -
  have c: "c_type c = SSH_CHANNEL_OPEN" "\<not> c_datagram c" "c_ostate c = CHAN_OUTPUT_OPEN" "sshbuf_inv (c_output c)"
    "sshbuf_writable (c_output c)" "length d \<le> STRING_MAX"
    using ok eof d by (auto simp: receiver_ok_def)
  note eq = recv_data [OF p c(6) c(1-3) d, of am]
  have w: "unat (c_local_window c) + unat (c_local_consumed c) + length (out_bytes c) = unat (c_local_window_max c)"
    "unat (c_local_window_max c) \<le> unat (sb_max_size (c_output c))" using ok by (simp_all add: receiver_ok_def)
  have "unat (of_nat (length d) :: u32) = length d"
    using d(2) unat_less_2p [of "c_local_window c"] by (intro unat_of_nat_small) simp
  then have u: "unat (c_local_window c - of_nat (length d)) = unat (c_local_window c) - length d"
    using d(2) by (subst unat_sub) (simp_all add: word_le_nat_alt)
  have l: "length d < 2 ^ 64" using c(6) by (simp add: STRING_MAX_def)
  show "receiver_ok c' \<and> ms = [] \<and> c_flags c' = c_flags c \<and> c_local_maxpacket c' = c_local_maxpacket c \<and>
      unat (c_local_window c') = unat (c_local_window c) - length d \<and> out_bytes c' = out_bytes c @ d"
    if step: "input_data_action am c p = Done (c', ms)"
  proof -
    from step eq obtain v out where out: "sshbuf_put am (c_output c) d = (Inr v, out)" "ms = []"
      "c' = c\<lparr>c_local_window := c_local_window c - of_nat (length d), c_local_window_exceeded := 0, c_output := out\<rparr>"
      by (auto simp: silent_def split: prod.splits sum.splits)
    with sshbuf_put_ok [OF c(4) out(1) l] ok eof u w d(2) show ?thesis by (simp add: receiver_ok_def)
  qed
  show "\<exists>c'. input_data_action am c p = Done (c', [])" if "\<And>n. am n \<noteq> NULL"
    using sshbuf_put_succeeds [of "c_output c" am d] c that d(2) w eq by (auto simp: silent_def)
qed

lemma sshbuf_reset_keeps:
  "sb_max_size (sshbuf_reset am b) = sb_max_size b" "sshbuf_writable (sshbuf_reset am b) = sshbuf_writable b"
  by (auto simp: sshbuf_reset_def sshbuf_writable_def Let_def split: sum.split)

lemma receiver_obuf_empty:
  assumes ok: "receiver_ok c"
  shows "receiver_ok (chan_obuf_empty am c) \<and> c_flags (chan_obuf_empty am c) = c_flags c \<and>
    out_bytes (chan_obuf_empty am c) = out_bytes c \<and> c_local_window (chan_obuf_empty am c) = c_local_window c \<and>
    c_local_maxpacket (chan_obuf_empty am c) = c_local_maxpacket c \<and>
    c_force_drain (chan_obuf_empty am c) = c_force_drain c"
proof (cases "out_bytes c = [] \<and> c_ostate c = CHAN_OUTPUT_WAIT_DRAIN")
  case True
  then have eq: "chan_obuf_empty am c = chan_set_ostate CHAN_OUTPUT_CLOSED (chan_shutdown_write am c)"
    using ok by (simp add: chan_obuf_empty_def receiver_ok_def sshbuf_len_0_iff)
  have "sshbuf_inv (sshbuf_reset am (c_output c))" "sshbuf_contents (sshbuf_reset am (c_output c)) = []"
    using ok sshbuf_reset_writable [of "c_output c" am] by (simp_all add: receiver_ok_def)
  with ok True show ?thesis
    unfolding eq by (simp add: chan_set_ostate_def chan_shutdown_write_def Let_def receiver_ok_def sshbuf_reset_keeps)
next
  case False
  then have "chan_obuf_empty am c = c"
    using ok by (auto simp: chan_obuf_empty_def receiver_ok_def sshbuf_len_0_iff)
  with ok show ?thesis by simp
qed

text \<open>Rules for a local property of a chain of updates.\<close>

lemma chain_let: "P a \<Longrightarrow> (\<And>x. P x \<Longrightarrow> P (f x)) \<Longrightarrow> P (let x = a in f x)"
  by simp

lemma chain_if: "P a \<Longrightarrow> P b \<Longrightarrow> P (if q then a else b)"
  by simp

lemma ok_io [simp]:
  "receiver_ok (c\<lparr>c_io_want := v\<rparr>) = receiver_ok c" "receiver_ok (c\<lparr>c_io_ready := v\<rparr>) = receiver_ok c"
  "sender_ok (c\<lparr>c_io_ready := v\<rparr>) = sender_ok c"
  by (simp_all add: receiver_ok_def sender_ok_def)

lemma receiver_pre_open:
  assumes ok: "receiver_ok c"
  shows "receiver_ok (channel_pre_open am c) \<and> c_flags (channel_pre_open am c) = c_flags c \<and>
    out_bytes (channel_pre_open am c) = out_bytes c \<and>
    c_local_window (channel_pre_open am c) = c_local_window c \<and>
    c_local_maxpacket (channel_pre_open am c) = c_local_maxpacket c"
proof -
  let ?P = "\<lambda>x. receiver_ok x \<and> c_flags x = c_flags c \<and> out_bytes x = out_bytes c \<and>
    c_local_window x = c_local_window c \<and> c_local_maxpacket x = c_local_maxpacket c"
  have io: "?P (x\<lparr>c_io_want := v\<rparr>)" if "?P x" for x v using that by simp
  have obuf: "?P (chan_obuf_empty am x)" if "?P x" for x using that by (simp add: receiver_obuf_empty)
  have base: "?P c" using ok by simp
  show ?thesis
    unfolding channel_pre_open_def
    by (rule chain_let [where P = ?P], rule io [OF base])
      (intro chain_let [where P = ?P] chain_if [where P = ?P] io obuf; assumption)
qed

lemma receiver_eof:
  assumes ok: "receiver_ok c" and step: "input_ieof_action am c = Done (c', ms)"
  shows "receiver_ok c' \<and> ms = [] \<and> c_flags c' = insert CHAN_EOF_RCVD (c_flags c) \<and>
    c_local_maxpacket c' = c_local_maxpacket c \<and> c_local_window c' = c_local_window c \<and> out_bytes c' = out_bytes c"
proof -
  obtain x where x: "receiver_ok x" "c_flags x = insert CHAN_EOF_RCVD (c_flags c)" "c_local_maxpacket x = c_local_maxpacket c"
    "c_local_window x = c_local_window c" "c_output x = c_output c" "\<not> c_force_drain x"
    and eq: "chan_rcvd_ieof am c = x \<or> chan_rcvd_ieof am c = chan_obuf_empty am x"
  proof
    let ?c1 = "c\<lparr>c_flags := insert CHAN_EOF_RCVD (c_flags c)\<rparr>"
    let ?x = "if c_ostate ?c1 = CHAN_OUTPUT_OPEN then chan_set_ostate CHAN_OUTPUT_WAIT_DRAIN ?c1 else ?c1"
    show "receiver_ok ?x" "\<not> c_force_drain ?x" using ok by (auto simp: receiver_ok_def chan_set_ostate_def)
    show "chan_rcvd_ieof am c = ?x \<or> chan_rcvd_ieof am c = chan_obuf_empty am ?x"
      by (simp only: chan_rcvd_ieof_def Let_def split: if_split) simp
  qed (simp_all add: chan_set_ostate_def)
  note keep = receiver_obuf_empty [OF x(1), of am]
  have "\<not> c_force_drain (chan_rcvd_ieof am c)" using eq x(6) keep by auto
  then have c': "c' = chan_rcvd_ieof am c" "ms = []" using step by (auto simp: input_ieof_action_def Let_def silent_def)
  from eq show ?thesis
  proof
    assume "chan_rcvd_ieof am c = x"
    then show ?thesis unfolding c' using x by simp
  next
    assume "chan_rcvd_ieof am c = chan_obuf_empty am x"
    then show ?thesis unfolding c' using x keep by simp
  qed
qed

lemma receiver_write:
  assumes ok: "receiver_ok c" and wr: "write_works wr c"
    and step: "channel_handle_wfd am f noecho wr c = Done (c', ms)"
  shows "receiver_ok c' \<and> (\<forall>m\<in>set ms. \<exists>n. m = SSH2_MSG_IGNORE n) \<and> c_flags c' = c_flags c \<and>
    c_local_maxpacket c' = c_local_maxpacket c \<and> c_local_window c' = c_local_window c \<and>
    out_bytes c = take (length (out_bytes c) - length (out_bytes c')) (out_bytes c) @ out_bytes c'"
proof (cases "\<exists>n. wr = IO_len n \<and> SSH_CHAN_IO_WFD \<in> c_io_ready c")
  case False
  then have "c' = c \<and> ms = []"
    using step wr ok by (cases wr) (auto simp: channel_handle_wfd_def silent_def receiver_ok_def split: if_splits)
  with ok show ?thesis by simp
next
  case True
  then obtain n where n: "wr = IO_len n" "SSH_CHAN_IO_WFD \<in> c_io_ready c" "0 < n" "n \<le> length (out_bytes c)"
    using wr by auto
  have c: "sshbuf_inv (c_output c)" "\<not> c_datagram c" using ok by (simp_all add: receiver_ok_def)
  obtain out where out: "c' = c\<lparr>c_output := out, c_local_consumed := c_local_consumed c + of_nat n\<rparr>"
    "sshbuf_read_to (c_output c) n out"
    using write_data [OF c n(2-4), of am f noecho] step n(1) by auto
  have ms: "\<forall>m\<in>set ms. \<exists>n. m = SSH2_MSG_IGNORE n"
    using step n c by (auto simp: channel_handle_wfd_def Let_def silent_def split: if_splits prod.splits sum.splits)
  have o: "out_bytes c = take n (out_bytes c) @ sshbuf_contents out" "length (sshbuf_contents out) = length (out_bytes c) - n"
    using out(2) by (simp_all add: sshbuf_read_to_def)
  have w: "unat (c_local_window c) + unat (c_local_consumed c) + length (out_bytes c) = unat (c_local_window_max c)"
    using ok by (simp add: receiver_ok_def)
  have "unat (of_nat n :: u32) = n"
    using n(4) w unat_less_2p [of "c_local_window_max c"] by (intro unat_of_nat_small) simp
  then have "unat (c_local_consumed c + of_nat n) = unat (c_local_consumed c) + n"
    using n(4) w unat_less_2p [of "c_local_window_max c"] by (subst unat_plus_no_wrap) simp_all
  then have "receiver_ok c'" using ok out o(2) n(3,4) by (auto simp: receiver_ok_def sshbuf_read_to_def)
  moreover have "length (out_bytes c) - length (out_bytes c') = n" using o(2) n(4) out(1) by simp
  ultimately show ?thesis using ms o(1) out(1) by simp
qed

lemma receiver_window:
  assumes ok: "receiver_ok c" and step: "channel_check_window c = Done (c', ms)"
  shows "receiver_ok c' \<and> c_flags c' = c_flags c \<and> c_local_maxpacket c' = c_local_maxpacket c \<and>
    out_bytes c' = out_bytes c \<and>
    (ms = [] \<and> c' = c \<or> (\<exists>a. ms = [SSH2_MSG_CHANNEL_WINDOW_ADJUST (c_remote_id c) a] \<and>
       unat (c_local_window c') = unat (c_local_window c) + unat a))"
proof -
  have "unat (c_local_window c + c_local_consumed c) = unat (c_local_window c) + unat (c_local_consumed c)"
    using ok unat_less_2p [of "c_local_window_max c"] by (intro unat_plus_no_wrap) (simp add: receiver_ok_def)
  note u = this
  from step consider "c' = c" "ms = []"
    | (sent) "c' = c\<lparr>c_local_window := c_local_window c + c_local_consumed c, c_local_consumed := 0\<rparr>"
        "ms = [SSH2_MSG_CHANNEL_WINDOW_ADJUST (c_remote_id c) (c_local_consumed c)]"
    unfolding channel_check_window_def silent_def
    by (metis (no_types, lifting) Pair_inject outcome.distinct(1) outcome.inject)
  then show ?thesis
  proof cases
    case sent
    have "receiver_ok c'" using ok u unfolding receiver_ok_def sent by simp
    with u sent show ?thesis by simp
  qed (use ok in simp)
qed

section \<open>Every step keeps the account\<close>

lemma flow_invE:
  assumes "flow_inv w"
  obtains ds where "sender_ok (snd_c w)" "receiver_ok (rcv_c w)"
    "unat (c_remote_maxpacket (snd_c w)) \<le> unat (c_local_maxpacket (rcv_c w))" "\<forall>m\<in>set (to_snd w). back_msg m"
    "in_flight w ds" "account w ds"
  using assms by (auto simp only: flow_inv_def)

lemma flow_invI:
  assumes "sender_ok (snd_c w)" "receiver_ok (rcv_c w)"
    "unat (c_remote_maxpacket (snd_c w)) \<le> unat (c_local_maxpacket (rcv_c w))" "\<forall>m\<in>set (to_snd w). back_msg m"
    "in_flight w ds" "account w ds"
  shows "flow_inv w"
  using assms by (auto simp only: flow_inv_def)

text \<open>A step of the receiver that leaves the data in flight alone.\<close>

lemma flow_inv_receiver:
  assumes inv: "flow_inv w" and r: "receiver_ok r" "c_flags r = c_flags (rcv_c w)"
      "c_local_maxpacket r = c_local_maxpacket (rcv_c w)"
    and out: "app_out w @ out_bytes (rcv_c w) = ao @ out_bytes r"
    and ts: "\<forall>m\<in>set ts. back_msg m"
      "unat (c_local_window r) + sum_list (map grant (to_snd w)) = unat (c_local_window (rcv_c w)) + sum_list (map grant ts)"
  shows "flow_inv (w\<lparr>rcv_c := r, to_snd := ts, app_out := ao\<rparr>)"
proof (rule flow_invE [OF inv])
  fix ds
  assume I: "sender_ok (snd_c w)" "unat (c_remote_maxpacket (snd_c w)) \<le> unat (c_local_maxpacket (rcv_c w))"
    "in_flight w ds" "account w ds"
  have "app_in w = (app_out w @ out_bytes (rcv_c w)) @ concat ds @ in_bytes (snd_c w)"
    using I(4) by (simp add: account_def)
  then have "account (w\<lparr>rcv_c := r, to_snd := ts, app_out := ao\<rparr>) ds"
    unfolding out using I(4) ts(2) by (simp add: account_def del: length_concat)
  moreover have "in_flight (w\<lparr>rcv_c := r, to_snd := ts, app_out := ao\<rparr>) ds" using I(3) r(2) by (simp add: in_flight_def)
  ultimately show ?thesis using I(1,2) r ts(1) by (intro flow_invI [of _ ds]) simp_all
qed

lemma flow_inv_ready: "flow_inv w \<Longrightarrow>
    flow_inv (w\<lparr>snd_c := (snd_c w)\<lparr>c_io_ready := rs\<rparr>, rcv_c := (rcv_c w)\<lparr>c_io_ready := rr\<rparr>\<rparr>)"
proof (erule flow_invE)
  fix ds
  let ?w = "w\<lparr>snd_c := (snd_c w)\<lparr>c_io_ready := rs\<rparr>, rcv_c := (rcv_c w)\<lparr>c_io_ready := rr\<rparr>\<rparr>"
  assume I: "sender_ok (snd_c w)" "receiver_ok (rcv_c w)"
    "unat (c_remote_maxpacket (snd_c w)) \<le> unat (c_local_maxpacket (rcv_c w))" "\<forall>m\<in>set (to_snd w). back_msg m"
    "in_flight w ds" "account w ds"
  have "in_flight ?w ds" "account ?w ds" using I(5,6) by (simp_all add: in_flight_def account_def)
  with I(1-4) show ?thesis by (intro flow_invI [of _ ds]) simp_all
qed

lemma flow_inv_read:
  assumes inv: "flow_inv w" and o: "c_istate (snd_c w) \<noteq> CHAN_INPUT_CLOSED"
    and step: "channel_handle_rfd am rd e (snd_c w) = Done (s', ms)"
  shows "flow_inv (w\<lparr>snd_c := s', app_in := app_in w @ read_bytes rd (length (in_bytes s') - length (in_bytes (snd_c w)))\<rparr>)"
proof (rule flow_invE [OF inv])
  fix ds
  assume I: "sender_ok (snd_c w)" "receiver_ok (rcv_c w)"
    "unat (c_remote_maxpacket (snd_c w)) \<le> unat (c_local_maxpacket (rcv_c w))" "\<forall>m\<in>set (to_snd w). back_msg m"
    "in_flight w ds" "account w ds"
  define x where "x = read_bytes rd (length (in_bytes s') - length (in_bytes (snd_c w)))"
  note S = sender_read [OF I(1) o step, folded x_def]
  have "in_flight (w\<lparr>snd_c := s', app_in := app_in w @ x\<rparr>) ds" using I(5) S by (simp add: in_flight_def)
  moreover have "account (w\<lparr>snd_c := s', app_in := app_in w @ x\<rparr>) ds"
    using I(6) S by (simp add: account_def del: length_concat)
  ultimately show ?thesis unfolding x_def [symmetric] using I S by (intro flow_invI [of _ ds]) simp_all
qed

lemma flow_inv_send:
  assumes inv: "flow_inv w" and step: "channel_output_poll_one (snd_c w) = Done (s', ms)"
  shows "flow_inv (w\<lparr>snd_c := s', to_rcv := to_rcv w @ ms\<rparr>)"
proof (rule flow_invE [OF inv])
  fix ds
  assume I: "sender_ok (snd_c w)" "receiver_ok (rcv_c w)"
    "unat (c_remote_maxpacket (snd_c w)) \<le> unat (c_local_maxpacket (rcv_c w))" "\<forall>m\<in>set (to_snd w). back_msg m"
    "in_flight w ds" "account w ds"
  let ?w = "w\<lparr>snd_c := s', to_rcv := to_rcv w @ ms\<rparr>"
  note S = sender_poll [OF I(1) step]
  have "CHAN_EOF_SENT \<in> c_flags (snd_c w) \<Longrightarrow> ms = []"
    using I(1) step by (auto simp: sender_ok_def poll_one_sender [OF I(1)] silent_def)
  from S consider "ms = []" "s' = snd_c w"
    | d where "ms = [SSH2_MSG_CHANNEL_DATA (c_remote_id (snd_c w)) d]" "length d \<le> unat (c_remote_maxpacket (snd_c w))"
        "in_bytes (snd_c w) = d @ in_bytes s'" "unat (c_remote_window (snd_c w)) = unat (c_remote_window s') + length d"
        "c_flags s' = c_flags (snd_c w)"
    | "ms = [SSH2_MSG_CHANNEL_EOF (c_remote_id (snd_c w))]" "CHAN_EOF_SENT \<notin> c_flags (snd_c w)"
        "CHAN_EOF_SENT \<in> c_flags s'" "in_bytes (snd_c w) = []" "in_bytes s' = []"
        "c_remote_window s' = c_remote_window (snd_c w)" by blast
  then obtain ds' where "in_flight ?w ds'" "account ?w ds'"
  proof cases
    case 1
    with I(5,6) that [of ds] show ?thesis by simp
  next
    case (2 d)
    with \<open>_ \<Longrightarrow> ms = []\<close> have "CHAN_EOF_SENT \<notin> c_flags (snd_c w)" by blast
    with 2 I(5,6) S have "in_flight ?w (ds @ [d]) \<and> account ?w (ds @ [d])"
      by (auto simp: in_flight_def account_def simp del: length_concat)
    with that show ?thesis by blast
  next
    case 3
    with I(5,6) S have "in_flight ?w ds \<and> account ?w ds"
      by (auto simp: in_flight_def account_def simp del: length_concat)
    with that show ?thesis by blast
  qed
  with I(2-4) S show ?thesis by (intro flow_invI [of _ ds']) simp_all
qed

lemma flow_head_data:
  assumes inv: "flow_inv w" and q: "to_rcv w = SSH2_MSG_CHANNEL_DATA i d # q"
  obtains ds where "in_flight w (d # ds)" "account w (d # ds)" "CHAN_EOF_RCVD \<notin> c_flags (rcv_c w)"
    "length d \<le> unat (c_local_maxpacket (rcv_c w))" "length d \<le> unat (c_local_window (rcv_c w))"
proof (rule flow_invE [OF inv])
  fix ds
  assume I: "unat (c_remote_maxpacket (snd_c w)) \<le> unat (c_local_maxpacket (rcv_c w))" "in_flight w ds" "account w ds"
  obtain d' ds' where "ds = d' # ds'" using I(2) q by (cases ds) (auto simp: in_flight_def split: if_splits)
  with I q that [of ds'] show thesis by (auto simp: in_flight_def account_def)
qed

lemma flow_inv_data:
  assumes inv: "flow_inv w" and q: "to_rcv w = SSH2_MSG_CHANNEL_DATA i d # q"
    and p: "sshbuf_inv p" "sshbuf_contents p = enc_string d"
    and step: "input_data_action am (rcv_c w) p = Done (r', ms)"
  shows "flow_inv (w\<lparr>rcv_c := r', to_rcv := q, to_snd := to_snd w @ ms\<rparr>)"
proof (rule flow_head_data [OF inv q])
  fix ds
  assume D: "in_flight w (d # ds)" "account w (d # ds)" "CHAN_EOF_RCVD \<notin> c_flags (rcv_c w)"
    "length d \<le> unat (c_local_maxpacket (rcv_c w))" "length d \<le> unat (c_local_window (rcv_c w))"
  have I: "sender_ok (snd_c w)" "receiver_ok (rcv_c w)"
    "unat (c_remote_maxpacket (snd_c w)) \<le> unat (c_local_maxpacket (rcv_c w))" "\<forall>m\<in>set (to_snd w). back_msg m"
    using inv by (auto simp: flow_inv_def)
  note R = receiver_data(1) [OF I(2) D(3) p D(4,5) step]
  let ?w = "w\<lparr>rcv_c := r', to_rcv := q, to_snd := to_snd w @ ms\<rparr>"
  have "in_flight ?w ds" using D(1) R q by (auto simp: in_flight_def)
  moreover have "account ?w ds" using D(2) R by (auto simp: account_def)
  ultimately show ?thesis using I R by (intro flow_invI [of _ ds]) simp_all
qed

lemma flow_inv_eof:
  assumes inv: "flow_inv w" and q: "to_rcv w = SSH2_MSG_CHANNEL_EOF i # q"
    and step: "input_ieof_action am (rcv_c w) = Done (r', ms)"
  shows "flow_inv (w\<lparr>rcv_c := r', to_rcv := q, to_snd := to_snd w @ ms\<rparr>)"
proof (rule flow_invE [OF inv])
  fix ds
  assume I: "sender_ok (snd_c w)" "receiver_ok (rcv_c w)"
    "unat (c_remote_maxpacket (snd_c w)) \<le> unat (c_local_maxpacket (rcv_c w))" "\<forall>m\<in>set (to_snd w). back_msg m"
    "in_flight w ds" "account w ds"
  let ?w = "w\<lparr>rcv_c := r', to_rcv := q, to_snd := to_snd w @ ms\<rparr>"
  note R = receiver_eof [OF I(2) step]
  have ds: "ds = []" "q = []" "CHAN_EOF_SENT \<in> c_flags (snd_c w)"
    using I(5) q by (cases ds; auto simp: in_flight_def split: if_splits)+
  have "in_flight ?w []" using R ds by (simp add: in_flight_def)
  moreover have "account ?w []" using I(6) R ds by (simp add: account_def)
  ultimately show ?thesis using I R by (intro flow_invI [of _ "[]"]) simp_all
qed

lemma flow_adjust_fits:
  assumes inv: "flow_inv w" and q: "to_snd w = SSH2_MSG_CHANNEL_WINDOW_ADJUST i a # q"
  shows "unat (c_remote_window (snd_c w)) + unat a < 2 ^ 32"
proof (rule flow_invE [OF inv])
  fix ds
  assume "account w ds"
  then have "unat (c_remote_window (snd_c w)) + unat a \<le> unat (c_local_window (rcv_c w))" by (simp add: account_def q)
  then show ?thesis using unat_less_2p [of "c_local_window (rcv_c w)"] by simp
qed

lemma flow_inv_adjust:
  assumes inv: "flow_inv w" and q: "to_snd w = SSH2_MSG_CHANNEL_WINDOW_ADJUST i a # q"
    and p: "sshbuf_inv p" "sshbuf_contents p = POKE_U32 a"
    and step: "window_adjust_action (snd_c w) p = Done (s', ms)"
  shows "flow_inv (w\<lparr>snd_c := s', to_snd := q\<rparr>)"
proof (rule flow_invE [OF inv])
  fix ds
  assume I: "sender_ok (snd_c w)" "receiver_ok (rcv_c w)"
    "unat (c_remote_maxpacket (snd_c w)) \<le> unat (c_local_maxpacket (rcv_c w))" "\<forall>m\<in>set (to_snd w). back_msg m"
    "in_flight w ds" "account w ds"
  note fits = flow_adjust_fits [OF inv q]
  have s': "s' = (snd_c w)\<lparr>c_remote_window := c_remote_window (snd_c w) + a\<rparr>"
    using step recv_adjust [OF p, of "snd_c w"] fits by (simp add: silent_def)
  have "unat (c_remote_window (snd_c w) + a) = unat (c_remote_window (snd_c w)) + unat a"
    using fits by (intro unat_plus_no_wrap) simp
  then have "account (w\<lparr>snd_c := s', to_snd := q\<rparr>) ds" using I(6) q s' by (simp add: account_def)
  moreover have "in_flight (w\<lparr>snd_c := s', to_snd := q\<rparr>) ds" using I(5) s' by (simp add: in_flight_def)
  moreover have "sender_ok s'" using I(1) s' by (simp add: sender_ok_def)
  ultimately show ?thesis using I(2-4) q s' by (intro flow_invI [of _ ds]) simp_all
qed

lemma flow_inv_step:
  assumes inv: "flow_inv w" and step: "flow_step am f w w'"
  shows "flow_inv w'"
  using step
proof cases
  case (fs_ready rs rr)
  then show ?thesis using flow_inv_ready [OF inv] by simp
next
  case fs_read
  then show ?thesis using flow_inv_read [OF inv] by simp
next
  case fs_send
  then show ?thesis using flow_inv_send [OF inv] by simp
next
  case fs_data
  then show ?thesis using flow_inv_data [OF inv] by simp
next
  case fs_eof
  then show ?thesis using flow_inv_eof [OF inv] by simp
next
  case fs_pre
  have "receiver_ok (rcv_c w)" "\<forall>m\<in>set (to_snd w). back_msg m" using inv by (auto simp: flow_inv_def)
  then show ?thesis
    using flow_inv_receiver [OF inv, of "channel_pre_open am (rcv_c w)" "app_out w" "to_snd w"]
      receiver_pre_open [of "rcv_c w" am] fs_pre by simp
next
  case (fs_write wr noecho r' ms)
  have r: "receiver_ok (rcv_c w)" "\<forall>m\<in>set (to_snd w). back_msg m" using inv by (auto simp: flow_inv_def)
  note R = receiver_write [OF r(1) fs_write(2,3)]
  have "sum_list (map grant ms) = 0" using R by (auto intro!: sum_list_nonneg_eq_0_iff [THEN iffD2])
  moreover have "\<forall>m\<in>set (to_snd w @ ms). back_msg m" using R r(2) by auto
  ultimately show ?thesis unfolding fs_write(1) using R by (intro flow_inv_receiver [OF inv]) simp_all
next
  case (fs_window r' ms)
  have r: "receiver_ok (rcv_c w)" "\<forall>m\<in>set (to_snd w). back_msg m" using inv by (auto simp: flow_inv_def)
  note R = receiver_window [OF r(1) fs_window(2)]
  moreover have "\<forall>m\<in>set (to_snd w @ ms). back_msg m" using R r(2) by auto
  ultimately show ?thesis
    using flow_inv_receiver [OF inv, of r' "app_out w" "to_snd w @ ms"] fs_window(1) by auto
next
  case fs_adjust
  then show ?thesis using flow_inv_adjust [OF inv] by simp
next
  case (fs_ignore n q)
  have "receiver_ok (rcv_c w)" "\<forall>m\<in>set (to_snd w). back_msg m" using inv by (auto simp: flow_inv_def)
  then show ?thesis using flow_inv_receiver [OF inv, of "rcv_c w" "app_out w" q] fs_ignore by simp
qed

section \<open>Properties\<close>

text \<open>Both channels open, nothing sent, and the sender knows the window that the receiver grants.\<close>

definition flow_start :: "flow \<Rightarrow> bool" where
  "flow_start w \<longleftrightarrow>
     sender_ok (snd_c w) \<and> receiver_ok (rcv_c w) \<and>
     unat (c_remote_maxpacket (snd_c w)) \<le> unat (c_local_maxpacket (rcv_c w)) \<and>
     c_remote_window (snd_c w) = c_local_window (rcv_c w) \<and>
     CHAN_EOF_SENT \<notin> c_flags (snd_c w) \<and> CHAN_EOF_RCVD \<notin> c_flags (rcv_c w) \<and>
     to_rcv w = [] \<and> to_snd w = [] \<and> app_in w = [] \<and> app_out w = [] \<and>
     in_bytes (snd_c w) = [] \<and> out_bytes (rcv_c w) = []"

lemma flow_start_inv: "flow_start w \<Longrightarrow> flow_inv w"
  unfolding flow_start_def by (intro flow_invI [of _ "[]"]) (simp_all add: in_flight_def account_def)

interpretation flo: step_invariant "flow_step am f" flow_start flow_inv for am f
  by unfold_locales (auto intro: flow_start_inv flow_inv_step)

text \<open>
  C2: between the two ends of a channel the bytes form a stream. In every reachable state, what
  the receiver has written to its descriptor is a prefix of what the sender has read from its
  own; and once the end of file has arrived and the receiver has written out its buffer, it is
  all of it.
\<close>

theorem flow_stream:
  assumes "flow_start w0" "(flow_step am f)\<^sup>*\<^sup>* w0 w"
  shows "(\<exists>rest. app_in w = app_out w @ rest) \<and>
    (CHAN_EOF_RCVD \<in> c_flags (rcv_c w) \<and> out_bytes (rcv_c w) = [] \<longrightarrow> app_out w = app_in w)"
proof (rule flow_invE [OF flo.reach_inv [OF assms]])
  fix ds
  assume I: "sender_ok (snd_c w)" "in_flight w ds" "account w ds"
  have "app_out w = app_in w" if "CHAN_EOF_RCVD \<in> c_flags (rcv_c w)" "out_bytes (rcv_c w) = []"
  proof -
    have "ds = []" "c_istate (snd_c w) = CHAN_INPUT_CLOSED" using I(1,2) that by (auto simp: in_flight_def sender_ok_def)
    then show ?thesis using I(1,3) that by (simp add: account_def sender_ok_def)
  qed
  then show ?thesis using I(3) by (simp add: account_def)
qed

text \<open>
  C3: a sender and a receiver that run this code never break the connection over the window. In
  every reachable state the next data message is accepted (memory permitting) and its bytes are
  queued, and the next window adjustment is added without overflow.
\<close>

theorem flow_accepted:
  assumes "flow_start w0" "(flow_step am f)\<^sup>*\<^sup>* w0 w" "\<And>n. am n \<noteq> NULL" "sshbuf_inv p"
  shows "(\<forall>i d q. to_rcv w = SSH2_MSG_CHANNEL_DATA i d # q \<and> sshbuf_contents p = enc_string d \<longrightarrow>
      (\<exists>r'. input_data_action am (rcv_c w) p = Done (r', []) \<and> out_bytes r' = out_bytes (rcv_c w) @ d)) \<and>
    (\<forall>i a q. to_snd w = SSH2_MSG_CHANNEL_WINDOW_ADJUST i a # q \<and> sshbuf_contents p = POKE_U32 a \<longrightarrow>
      (\<exists>s'. window_adjust_action (snd_c w) p = Done (s', []) \<and>
         unat (c_remote_window s') = unat (c_remote_window (snd_c w)) + unat a))"
proof (intro conjI allI impI; elim conjE)
  note inv = flo.reach_inv [OF assms(1,2)]
  have ok: "receiver_ok (rcv_c w)" using inv by (auto simp: flow_inv_def)
  fix i d q
  assume q: "to_rcv w = SSH2_MSG_CHANNEL_DATA i d # q" and p: "sshbuf_contents p = enc_string d"
  obtain ds where D: "CHAN_EOF_RCVD \<notin> c_flags (rcv_c w)" "length d \<le> unat (c_local_maxpacket (rcv_c w))"
    "length d \<le> unat (c_local_window (rcv_c w))" using flow_head_data [OF inv q] by blast
  note R = receiver_data [OF ok D(1) assms(4) p D(2,3), of am]
  obtain r' where r': "input_data_action am (rcv_c w) p = Done (r', [])" using R(2) assms(3) by blast
  then show "\<exists>r'. input_data_action am (rcv_c w) p = Done (r', []) \<and> out_bytes r' = out_bytes (rcv_c w) @ d"
    using R(1) [OF r'] by blast
next
  note inv = flo.reach_inv [OF assms(1,2)]
  fix i a q
  assume q: "to_snd w = SSH2_MSG_CHANNEL_WINDOW_ADJUST i a # q" and p: "sshbuf_contents p = POKE_U32 a"
  have fits: "unat (c_remote_window (snd_c w)) + unat a < 2 ^ 32" by (rule flow_adjust_fits [OF inv q])
  then have "unat (c_remote_window (snd_c w) + a) = unat (c_remote_window (snd_c w)) + unat a"
    by (intro unat_plus_no_wrap) simp
  with fits show "\<exists>s'. window_adjust_action (snd_c w) p = Done (s', []) \<and>
      unat (c_remote_window s') = unat (c_remote_window (snd_c w)) + unat a"
    using recv_adjust [OF assms(4) p, of "snd_c w"] by (simp add: silent_def)
qed

text \<open>An example: two bytes are read and sent.\<close>

definition ex_sender :: channel where
  "ex_sender = (channel_zero (ex_data []) (ex_data []) (ex_data []))\<lparr>c_type := SSH_CHANNEL_OPEN, c_remote_id := 7,
     c_have_remote_id := True, c_io_ready := {SSH_CHAN_IO_RFD}, c_remote_window := 100, c_remote_maxpacket := 50\<rparr>"

definition ex_receiver :: channel where
  "ex_receiver = (channel_zero (ex_data []) (ex_data []) (ex_data []))\<lparr>c_type := SSH_CHANNEL_OPEN, c_remote_id := 3,
     c_have_remote_id := True, c_io_ready := {SSH_CHAN_IO_WFD}, c_local_window := 100, c_local_window_max := 100,
     c_local_maxpacket := 50\<rparr>"

definition ex_flow :: flow where
  "ex_flow = \<lparr>snd_c = ex_sender, rcv_c = ex_receiver, to_rcv = [], to_snd = [], app_in = [], app_out = []\<rparr>"

lemma ex_flow_start: "flow_start ex_flow"
  by (simp add: flow_start_def ex_flow_def sender_ok_def receiver_ok_def ex_sender_def ex_receiver_def channel_zero_def
      ex_data_ok SSHBUF_SIZE_INIT_def STRING_MAX_def)

lemma ex_flow_read:
  "\<exists>s'. channel_handle_rfd (\<lambda>_. 4096) (Rd_bytes [104, 105]) EOTHER ex_sender = Done (s', []) \<and>
     in_bytes s' = [104, 105]"
proof -
  have inv: "sshbuf_inv (ex_data [])" by (simp add: ex_data_ok)
  have "sshbuf_reserve (\<lambda>_. 4096) (ex_data []) 100 = (Inr 0, (ex_data [])\<lparr>sb_size := 100\<rparr>)"
    using inv by (simp add: sshbuf_reserve_def sshbuf_allocate_def sshbuf_check_reserve_def sshbuf_maybe_pack_def
        ex_data_def sshbuf_inv_def sshbuf_consts)
  moreover have "sshbuf_avail (ex_data []) = 1024" "sshbuf_len (ex_data []) = 0"
    using inv by (simp_all add: sshbuf_avail_def sshbuf_len_def ex_data_def)
  ultimately show ?thesis
    using sshbuf_reserve_part [OF inv, of "\<lambda>_. 4096" 100 0 _ "[104, 105]"]
      ex_data_ok [of "[]"]
    by (auto simp: channel_handle_rfd_def ex_sender_def channel_zero_def sshbuf_read_def silent_def CHANNEL_MAX_READ_def
        split: if_splits)
qed

lemma ex_sender_ok:
  "sender_ok ex_sender" "c_istate ex_sender \<noteq> CHAN_INPUT_CLOSED" "c_remote_id ex_sender = 7"
  "in_bytes ex_sender = []" "c_remote_window ex_sender = 100" "c_remote_maxpacket ex_sender = 50"
  using ex_flow_start by (simp_all add: flow_start_def ex_flow_def ex_sender_def channel_zero_def ex_data_ok)

lemma ex_flow_step:
  assumes "channel_handle_rfd (\<lambda>_. 4096) (Rd_bytes [104, 105]) EOTHER ex_sender = Done (s, [])" "in_bytes s = [104, 105]"
  shows "flow_step (\<lambda>_. 4096) {} ex_flow (ex_flow\<lparr>snd_c := s, app_in := [104, 105]\<rparr>)"
  using fs_read [of ex_flow "\<lambda>_. 4096" "Rd_bytes [104, 105]" EOTHER s "[]" "{}"] assms ex_sender_ok
  by (simp add: ex_flow_def read_bytes_def)

lemma ex_flow_run:
  "\<exists>w. (flow_step (\<lambda>_. 4096) {})\<^sup>*\<^sup>* ex_flow w \<and> app_in w = [104, 105] \<and>
     to_rcv w = [SSH2_MSG_CHANNEL_DATA 7 [104, 105]]"
proof -
  obtain s where s: "channel_handle_rfd (\<lambda>_. 4096) (Rd_bytes [104, 105]) EOTHER ex_sender = Done (s, [])"
    "in_bytes s = [104, 105]" using ex_flow_read by blast
  note ex = ex_sender_ok
  note S = sender_read [OF ex(1,2) s(1)]
  have "\<exists>s'. channel_output_poll_one s = Done (s', [SSH2_MSG_CHANNEL_DATA 7 [104, 105]])"
    using poll_input_data(2) [of s] S s(2) ex
    by (auto simp: poll_one_sender sender_ok_def send_len_def)
  then obtain s' where s': "channel_output_poll_one s = Done (s', [SSH2_MSG_CHANNEL_DATA 7 [104, 105]])" ..
  let ?w1 = "ex_flow\<lparr>snd_c := s, app_in := [104, 105]\<rparr>"
  have "flow_step (\<lambda>_. 4096) {} ex_flow ?w1" by (rule ex_flow_step [OF s])
  moreover have "flow_step (\<lambda>_. 4096) {} ?w1 (?w1\<lparr>snd_c := s', to_rcv := to_rcv ?w1 @ [SSH2_MSG_CHANNEL_DATA 7 [104, 105]]\<rparr>)"
    by (rule fs_send) (simp add: s')
  ultimately have "(flow_step (\<lambda>_. 4096) {})\<^sup>*\<^sup>* ex_flow (?w1\<lparr>snd_c := s', to_rcv := to_rcv ?w1 @ [SSH2_MSG_CHANNEL_DATA 7 [104, 105]]\<rparr>)"
    by (meson r_into_rtranclp rtranclp.rtrancl_into_rtrancl)
  then show ?thesis by (intro exI) (auto simp: ex_flow_def)
qed

theorem flow_stream_witness:
  "\<exists>w rest. (flow_step (\<lambda>_. 4096) {})\<^sup>*\<^sup>* ex_flow w \<and> app_in w = [104, 105] \<and> app_in w = app_out w @ rest"
  using ex_flow_run flow_stream [OF ex_flow_start, of "\<lambda>_. 4096" "{}"] by blast

theorem flow_accepted_witness:
  "\<exists>w r'. (flow_step (\<lambda>_. 4096) {})\<^sup>*\<^sup>* ex_flow w \<and>
     input_data_action (\<lambda>_. 4096) (rcv_c w) (ex_data [0, 0, 0, 2, 104, 105]) = Done (r', []) \<and>
     out_bytes r' = out_bytes (rcv_c w) @ [104, 105]"
proof -
  obtain w where w: "(flow_step (\<lambda>_. 4096) {})\<^sup>*\<^sup>* ex_flow w" "to_rcv w = [SSH2_MSG_CHANNEL_DATA 7 [104, 105]]"
    using ex_flow_run by blast
  have p: "sshbuf_inv (ex_data [0, 0, 0, 2, 104, 105])"
    "sshbuf_contents (ex_data [0, 0, 0, 2, 104, 105]) = enc_string [104, 105]"
    by (simp_all add: ex_data_ok enc_string_def POKE_U32_def)
  have "\<And>n :: size_t. (\<lambda>_. 4096 :: ptr) n \<noteq> NULL" by simp
  from flow_accepted [OF ex_flow_start w(1) this p(1)] w p(2) show ?thesis by blast
qed

lemma sender_sends:
  assumes "sender_ok c" "in_bytes c \<noteq> []" "c_remote_window c \<noteq> 0" "c_remote_maxpacket c > 0"
  shows "\<exists>s' d. channel_output_poll_one c = Done (s', [SSH2_MSG_CHANNEL_DATA (c_remote_id c) d]) \<and> d \<noteq> []"
proof -
  have "0 < unat (c_remote_window c)" using assms(3) unat_eq_zero [of "c_remote_window c"] by simp
  then have "send_len c \<noteq> 0" using assms(2,4) by (auto simp: send_len_def min_def word_less_nat_alt)
  moreover have "sshbuf_inv (c_input c)" "c_have_remote_id c" "\<not> c_datagram c" "c_istate c \<noteq> CHAN_INPUT_CLOSED"
    using assms(1,2) by (auto simp: sender_ok_def)
  ultimately show ?thesis
    using poll_input_data(2) [of c] assms(1,2) by (auto simp: poll_one_sender)
qed

text \<open>
  C4: the window never locks up. If nothing is in flight in either direction and the receiver has
  written out its buffer, then a sender with data left either sends some at once or, when its
  window is used up, gets an adjustment from the receiver and sends some after it.
\<close>

theorem flow_live:
  assumes "flow_start w0" "(flow_step am f)\<^sup>*\<^sup>* w0 w"
    and "to_rcv w = []" "to_snd w = []" "out_bytes (rcv_c w) = []" "in_bytes (snd_c w) \<noteq> []"
    and "c_remote_maxpacket (snd_c w) > 0" "c_local_window_max (rcv_c w) \<ge> 2"
  shows "(\<exists>s' d. channel_output_poll_one (snd_c w) = Done (s', [SSH2_MSG_CHANNEL_DATA (c_remote_id (snd_c w)) d]) \<and> d \<noteq> []) \<or>
    (\<exists>r' a. channel_check_window (rcv_c w) = Done (r', [SSH2_MSG_CHANNEL_WINDOW_ADJUST (c_remote_id (rcv_c w)) a]) \<and>
       (\<forall>p. sshbuf_inv p \<and> sshbuf_contents p = POKE_U32 a \<longrightarrow>
         (\<exists>s1 s' d. window_adjust_action (snd_c w) p = Done (s1, []) \<and>
            channel_output_poll_one s1 = Done (s', [SSH2_MSG_CHANNEL_DATA (c_remote_id (snd_c w)) d]) \<and> d \<noteq> [])))"
proof (cases "c_remote_window (snd_c w) = 0")
  case False
  have "sender_ok (snd_c w)" using flo.reach_inv [OF assms(1,2)] by (auto simp: flow_inv_def)
  with sender_sends [of "snd_c w"] False assms(6,7) show ?thesis by blast
next
  case True
  obtain ds where I: "sender_ok (snd_c w)" "receiver_ok (rcv_c w)" "in_flight w ds" "account w ds"
    using flow_invE [OF flo.reach_inv [OF assms(1,2)]] by metis
  have "ds = []" using I(3) assms(3) by (simp add: in_flight_def)
  then have lw: "c_local_window (rcv_c w) = 0" using I(4) True assms(4) by (simp add: account_def unat_eq_zero)
  then have "unat (c_local_consumed (rcv_c w)) = unat (c_local_window_max (rcv_c w))"
    using I(2) assms(5) by (simp add: receiver_ok_def)
  then have cons: "c_local_consumed (rcv_c w) = c_local_window_max (rcv_c w)" by (simp add: word_unat_eq_iff)
  let ?a = "c_local_window_max (rcv_c w)"
  have a: "?a > 0" "?a div 2 > 0" using assms(8) by (simp_all add: word_less_nat_alt word_le_nat_alt unat_div)
  have "\<exists>r'. channel_check_window (rcv_c w) = Done (r', [SSH2_MSG_CHANNEL_WINDOW_ADJUST (c_remote_id (rcv_c w)) ?a])"
    using I(2) lw cons a by (simp add: channel_check_window_def receiver_ok_def)
  moreover have "\<exists>s1 s' d. window_adjust_action (snd_c w) p = Done (s1, []) \<and>
      channel_output_poll_one s1 = Done (s', [SSH2_MSG_CHANNEL_DATA (c_remote_id (snd_c w)) d]) \<and> d \<noteq> []"
    if p: "sshbuf_inv p" "sshbuf_contents p = POKE_U32 ?a" for p
  proof -
    have adj: "window_adjust_action (snd_c w) p = Done ((snd_c w)\<lparr>c_remote_window := ?a\<rparr>, [])"
      using recv_adjust [OF p, of "snd_c w"] True unat_less_2p [of ?a] by (simp add: silent_def)
    have "sender_ok ((snd_c w)\<lparr>c_remote_window := ?a\<rparr>)" using I(1) by (simp add: sender_ok_def)
    from sender_sends [OF this] adj a assms(6,7) show ?thesis by auto
  qed
  ultimately show ?thesis by blast
qed

theorem flow_live_witness:
  "\<exists>w s' d. (flow_step (\<lambda>_. 4096) {})\<^sup>*\<^sup>* ex_flow w \<and>
     channel_output_poll_one (snd_c w) = Done (s', [SSH2_MSG_CHANNEL_DATA 7 d]) \<and> d \<noteq> []"
proof -
  obtain s where s: "channel_handle_rfd (\<lambda>_. 4096) (Rd_bytes [104, 105]) EOTHER ex_sender = Done (s, [])"
    "in_bytes s = [104, 105]" using ex_flow_read by blast
  note S = sender_read [OF ex_sender_ok(1,2) s(1)]
  have run: "(flow_step (\<lambda>_. 4096) {})\<^sup>*\<^sup>* ex_flow (ex_flow\<lparr>snd_c := s, app_in := [104, 105]\<rparr>)"
    using ex_flow_step [OF s] by blast
  have "out_bytes ex_receiver = []" by (simp add: ex_receiver_def channel_zero_def ex_data_ok)
  then show ?thesis
    using flow_live [OF ex_flow_start run] S s(2) ex_sender_ok run
    by (auto simp: ex_flow_def ex_receiver_def channel_zero_def channel_check_window_def silent_def split: if_splits)
qed

section \<open>The grace of the window\<close>

text \<open>A receiver whose window is used up.\<close>

definition window_full :: "channel \<Rightarrow> bool" where
  "window_full c \<longleftrightarrow>
     c_type c = SSH_CHANNEL_OPEN \<and> \<not> c_datagram c \<and> c_ostate c = CHAN_OUTPUT_OPEN \<and>
     c_local_window c = 0 \<and> c_local_window_exceeded c = 0 \<and>
     sshbuf_inv (c_output c) \<and> sshbuf_writable (c_output c)"

lemma recv_excess:
  assumes full: "window_full c" and p: "sshbuf_inv p" "sshbuf_contents p = enc_string d" "length d \<le> STRING_MAX"
    and d: "d \<noteq> []" "length d \<le> unat (c_local_maxpacket c)" "length d \<le> unat (c_local_window_max c div 10)"
  shows "input_data_action am c p =
     (case sshbuf_put am (c_output c) d of
        (Inl _, _) \<Rightarrow> Fatal
      | (Inr _, out) \<Rightarrow> silent (c\<lparr>c_local_window_exceeded := of_nat (length d), c_local_window := 0, c_output := out\<rparr>))"
proof -
  obtain p1 where p1: "sshbuf_get_string_direct p = (Inr d, p1)" "sshbuf_inv p1" "sshbuf_contents p1 = []"
    using get_string_direct_enc [OF p(1), of d "[]"] p(2,3) by auto
  have "sshbuf_len p1 = 0" using p1 by (simp add: sshbuf_len_0_iff)
  moreover have l: "unat (of_nat (length d) :: size_t) = length d" "unat (of_nat (length d) :: u32) = length d"
    using p(3) by (auto simp: STRING_MAX_def intro!: unat_of_nat_small)
  moreover have "\<not> of_nat (length d) > (ucast (c_local_maxpacket c) :: size_t)"
    using d(2) l by (simp add: word_less_nat_alt)
  moreover have "(of_nat (length d) :: size_t) > 0" using d(1) l by (simp add: word_less_nat_alt)
  moreover have "\<not> (of_nat (length d) :: u32) > c_local_window_max c div 10" using d(3) l by (simp add: word_less_nat_alt)
  moreover have "(ucast (of_nat (length d) :: size_t) :: u32) = of_nat (length d)" by (simp only: ucast_of_nat l)
  ultimately show ?thesis
    using full p1(1) by (simp add: input_data_action_def chan_window_take_def window_full_def Let_def)
qed

lemma grace_round:
  assumes full: "window_full c" and am: "\<And>n. am n \<noteq> NULL"
    and p: "sshbuf_inv p" "sshbuf_contents p = enc_string d" "length d \<le> STRING_MAX"
    and p0: "sshbuf_inv p0" "sshbuf_contents p0 = enc_string []"
    and d: "d \<noteq> []" "length d \<le> unat (c_local_maxpacket c)" "length d \<le> unat (c_local_window_max c div 10)"
    and room: "length (out_bytes c) + length d \<le> unat (sb_max_size (c_output c))"
  shows "\<exists>c1 c2. input_data_action am c p = Done (c1, []) \<and> input_data_action am c1 p0 = Done (c2, []) \<and>
    window_full c2 \<and> out_bytes c2 = out_bytes c @ d \<and> c_local_maxpacket c2 = c_local_maxpacket c \<and>
    c_local_window_max c2 = c_local_window_max c \<and> sb_max_size (c_output c2) = sb_max_size (c_output c)"
proof -
  have o: "sshbuf_inv (c_output c)" "sshbuf_writable (c_output c)" using full by (simp_all add: window_full_def)
  obtain out where out: "sshbuf_put am (c_output c) d = (Inr (), out)"
    using sshbuf_put_succeeds [of "c_output c" am d] o am room by blast
  have "length d < 2 ^ 64" using p(3) by (simp add: STRING_MAX_def)
  note out_ok = sshbuf_put_ok [OF o(1) out this]
  let ?c1 = "c\<lparr>c_local_window_exceeded := of_nat (length d), c_local_window := 0, c_output := out\<rparr>"
  have s1: "input_data_action am c p = Done (?c1, [])" using recv_excess [OF full p d] out by (simp add: silent_def)
  obtain out2 where out2: "sshbuf_put am out [] = (Inr (), out2)"
    using sshbuf_put_succeeds [of out am "[]"] out_ok am length_contents_le_max [OF out_ok(1)] by auto
  note out2_ok = sshbuf_put_ok [OF out_ok(1) out2]
  have "input_data_action am ?c1 p0 = Done (?c1\<lparr>c_local_window_exceeded := 0, c_output := out2\<rparr>, [])"
    using recv_data [OF p0, of ?c1 am] full out2 by (simp add: window_full_def silent_def)
  with s1 out_ok out2_ok full show ?thesis by (auto simp: window_full_def)
qed

text \<open>
  C32: the tenth of the window that a peer may exceed is not a bound on what it sends. An empty
  data message clears the count of the excess, so a peer that has used up the window can send a
  tenth of it again and again, each time followed by an empty message: the receiver accepts any
  number of such rounds and never disconnects, as long as its buffer takes the data.
\<close>

theorem window_grace_reset:
  assumes "window_full c" "\<And>n. am n \<noteq> NULL"
    and "sshbuf_inv p" "sshbuf_contents p = enc_string d" "length d \<le> STRING_MAX"
    and "sshbuf_inv p0" "sshbuf_contents p0 = enc_string []"
    and "d \<noteq> []" "length d \<le> unat (c_local_maxpacket c)" "length d \<le> unat (c_local_window_max c div 10)"
    and "length (out_bytes c) + n * length d \<le> unat (sb_max_size (c_output c))"
  shows "\<exists>c'. chan_run (chan_event_step am f) c (concat (replicate n [Ev_data p, Ev_data p0])) = Done (c', []) \<and>
    c_local_window c' = 0 \<and> length (out_bytes c') = length (out_bytes c) + n * length d"
  using assms
proof (induction n arbitrary: c)
  case 0
  then show ?case by (simp add: silent_def window_full_def)
next
  case (Suc n)
  have "length (out_bytes c) + length d \<le> unat (sb_max_size (c_output c))" using Suc.prems(11) by simp
  then obtain c1 c2 where r: "input_data_action am c p = Done (c1, [])" "input_data_action am c1 p0 = Done (c2, [])"
    and c2: "window_full c2" "out_bytes c2 = out_bytes c @ d" "c_local_maxpacket c2 = c_local_maxpacket c"
      "c_local_window_max c2 = c_local_window_max c" "sb_max_size (c_output c2) = sb_max_size (c_output c)"
    using grace_round [of c am p d p0] Suc.prems(1-10) by blast
  have "\<exists>c'. chan_run (chan_event_step am f) c2 (concat (replicate n [Ev_data p, Ev_data p0])) = Done (c', []) \<and>
    c_local_window c' = 0 \<and> length (out_bytes c') = length (out_bytes c2) + n * length d"
    using Suc.prems c2 by (intro Suc.IH) simp_all
  with r c2(2) show ?case by (auto simp: algebra_simps)
qed

definition ex_full :: channel where
  "ex_full = ex_receiver\<lparr>c_local_window := 0, c_local_window_max := 20\<rparr>"

theorem window_grace_reset_witness:
  "\<exists>c'. chan_run (chan_event_step (\<lambda>_. 4096) {}) ex_full
       (concat (replicate 500 [Ev_data (ex_data [0, 0, 0, 2, 104, 105]), Ev_data (ex_data [0, 0, 0, 0])])) = Done (c', []) \<and>
     length (out_bytes c') = 1000 \<and> c_local_window_max ex_full = 20"
proof -
  have full: "window_full ex_full" "c_local_maxpacket ex_full = 50" "c_local_window_max ex_full = 20"
    "out_bytes ex_full = []" "sb_max_size (c_output ex_full) = 1024"
    by (simp_all add: window_full_def ex_full_def ex_receiver_def channel_zero_def ex_data_ok)
  have p: "sshbuf_inv (ex_data [0, 0, 0, 2, 104, 105])" "sshbuf_inv (ex_data [0, 0, 0, 0])"
    "sshbuf_contents (ex_data [0, 0, 0, 2, 104, 105]) = enc_string [104, 105]"
    "sshbuf_contents (ex_data [0, 0, 0, 0]) = enc_string []"
    by (simp_all add: ex_data_ok enc_string_def POKE_U32_def)
  show ?thesis
    using window_grace_reset [OF full(1), of "\<lambda>_. 4096", OF _ p(1,3) _ p(2,4), of 500 "{}"] full
    by (auto simp: STRING_MAX_def)
qed

end
