(* ===== verification/Core5G.thy ===== *)
theory Core5G
  imports Prelude
begin

text \<open>
  The emulated 5G core of \<^verbatim>\<open>5g/group_key_mgmt\<close>: the network functions \<^verbatim>\<open>ue\<close>, \<^verbatim>\<open>gnb\<close>, \<^verbatim>\<open>amf\<close>,
  \<^verbatim>\<open>ausf\<close>, \<^verbatim>\<open>udm\<close>, \<^verbatim>\<open>smf\<close> and \<^verbatim>\<open>upf\<close>, each a Flask application with one object of state. A request body
  is a JSON value; a handler returns a value or raises a Python exception and changes the state up
  to that point; Flask turns the result into a response (500 with a page that is not JSON for an
  exception, 404 for a path without a route). \<^verbatim>\<open>requests.post\<close> calls the handler of the other
  function. Requests are served one at a time. Parameters are what is outside the program: which
  functions answer at all, the hash, the outcome of a command run in a container, and the random
  last byte of an address.

  The lemmas show which subscribers get a context where, what the derived keys depend on, and
  which messages of the registration procedure arrive.
\<close>

named_theorems py_simps \<open>how a handler's statements run\<close>

section \<open>Python values\<close>

datatype json = JNull | JBool bool | JInt int | JStr string | JList "json list" | JObj "(string \<times> json) list"

datatype pyexc = KeyError | TypeError | JSONDecodeError | ConnectionError | FileNotFoundError

type_synonym 'a py = "pyexc + 'a"

fun bind_py :: "'a py \<Rightarrow> ('a \<Rightarrow> 'b py) \<Rightarrow> 'b py" where
  "bind_py (Inl e) f = Inl e"
| "bind_py (Inr x) f = f x"

text \<open>\<open>d[k]\<close> for a string \<open>k\<close>: a dictionary keeps the last of equal keys.\<close>

fun getitem :: "json \<Rightarrow> string \<Rightarrow> json py" where
  "getitem (JObj kvs) k = (case map_of (rev kvs) k of None \<Rightarrow> Inl KeyError | Some v \<Rightarrow> Inr v)"
| "getitem _ k = Inl TypeError"

text \<open>\<open>x[:n]\<close>.\<close>

fun slice_to :: "nat \<Rightarrow> json \<Rightarrow> json py" where
  "slice_to n (JStr s) = Inr (JStr (take n s))"
| "slice_to n (JList xs) = Inr (JList (take n xs))"
| "slice_to n _ = Inl TypeError"

text \<open>The key under which a value is stored in a dictionary: \<open>True\<close> and \<open>1\<close> are the same key.\<close>

fun dict_key :: "json \<Rightarrow> json py" where
  "dict_key (JList _) = Inl TypeError"
| "dict_key (JObj _) = Inl TypeError"
| "dict_key (JBool b) = Inr (JInt (if b then 1 else 0))"
| "dict_key j = Inr j"

definition digit_char :: "nat \<Rightarrow> char" where
  "digit_char d = (if d < 10 then char_of (48 + d) else char_of (87 + d))"

fun py_dec :: "nat \<Rightarrow> string" where
  "py_dec n = (if n < 10 then [digit_char n] else py_dec (n div 10) @ [digit_char (n mod 10)])"

definition repr_char :: "char \<Rightarrow> char \<Rightarrow> string" where
  "repr_char q c =
     (let n = of_char c :: nat in
      if c = q \<or> n = 92 then [CHR 92, c]
      else if n = 10 then [CHR 92, CHR ''n'']
      else if n = 13 then [CHR 92, CHR ''r'']
      else if n = 9 then [CHR 92, CHR ''t'']
      else if n < 32 \<or> 127 \<le> n \<and> n \<le> 160 \<or> n = 173
      then [CHR 92, CHR ''x'', digit_char (n div 16), digit_char (n mod 16)]
      else [c])"

definition repr_str :: "string \<Rightarrow> string" where
  "repr_str s =
     (let q = if CHR 39 \<in> set s \<and> CHR 34 \<notin> set s then CHR 34 else CHR 39
      in q # concat (map (repr_char q) s) @ [q])"

fun py_repr :: "json \<Rightarrow> string" and repr_items :: "json list \<Rightarrow> string"
  and repr_pairs :: "(string \<times> json) list \<Rightarrow> string" where
  "py_repr JNull = ''None''"
| "py_repr (JBool b) = (if b then ''True'' else ''False'')"
| "py_repr (JInt i) = (if i < 0 then CHR ''-'' # py_dec (nat (- i)) else py_dec (nat i))"
| "py_repr (JStr s) = repr_str s"
| "py_repr (JList xs) = ''['' @ repr_items xs @ '']''"
| "py_repr (JObj kvs) = CHR 123 # repr_pairs kvs @ [CHR 125]"
| "repr_items [] = []"
| "repr_items (x # xs) = py_repr x @ (if xs = [] then [] else '', '' @ repr_items xs)"
| "repr_pairs [] = []"
| "repr_pairs ((k, v) # kvs) = repr_str k @ '': '' @ py_repr v @ (if kvs = [] then [] else '', '' @ repr_pairs kvs)"

fun py_str :: "json \<Rightarrow> string" where
  "py_str (JStr s) = s"
| "py_str j = py_repr j"

section \<open>HTTP between the functions\<close>

text \<open>A response is its status and the JSON body, \<open>None\<close> if the body is not JSON.\<close>

datatype http = Http nat "json option"

fun response_json :: "http \<Rightarrow> json py" where
  "response_json (Http _ (Some j)) = Inr j"
| "response_json (Http _ None) = Inl JSONDecodeError"

fun flask_response :: "json py \<Rightarrow> http" where
  "flask_response (Inr j) = Http 200 (Some j)"
| "flask_response (Inl _) = Http 500 None"

definition not_found :: http where
  "not_found = Http 404 None"

datatype nf = UE | GNB | AMF | AUSF | UDM | SMF | UPF

datatype run_result = Run_ok | Run_failed | Run_missing

record env5g =
  up :: "nf \<Rightarrow> bool"
  hexdigest :: "string \<Rightarrow> string"
  py_hash :: "string \<Rightarrow> int"
  run_cmd :: "string list list \<Rightarrow> string list \<Rightarrow> run_result"
  randint :: "nat \<Rightarrow> nat"

type_synonym contexts = "json \<Rightarrow> json option"

record subscriber =
  sub_k :: string
  sub_opc :: string
  sub_sqn :: int

text \<open>The state of all functions; \<open>ue_inbox\<close> records the requests that reach the terminal.\<close>

record core5g =
  subscriber_db :: "string \<Rightarrow> subscriber option"
  authentication_vectors :: contexts
  amf_ue_contexts :: contexts
  k_amf :: "string option"
  gnb_ue_contexts :: contexts
  gnb_k_gnb :: json
  sessions :: contexts
  smf_cmds :: "string list"
  draws :: nat
  upf_cmds :: "string list list"
  registered :: bool
  ip_address :: json
  ue_cmds :: "string list"
  ue_inbox :: "(string \<times> json) list"

type_synonym 'a handler = "core5g \<Rightarrow> 'a \<times> core5g"

text \<open>Statements of a handler in sequence: an exception ends it and keeps what was assigned.\<close>

definition seq_py :: "'a py handler \<Rightarrow> ('a \<Rightarrow> 'b py handler) \<Rightarrow> 'b py handler" where
  "seq_py h f w = (case h w of (Inl e, w') \<Rightarrow> (Inl e, w') | (Inr x, w') \<Rightarrow> f x w')"

definition eval_py :: "'a py \<Rightarrow> 'a py handler" where
  "eval_py r w = (r, w)"

definition assign_py :: "(core5g \<Rightarrow> core5g) \<Rightarrow> unit py handler" where
  "assign_py f w = (Inr (), f w)"

definition serve :: "json py handler \<Rightarrow> http handler" where
  "serve h w = (let (r, w') = h w in (flask_response r, w'))"

text \<open>\<^verbatim>\<open>requests.post\<close>: an exception if the function does not answer.\<close>

definition post :: "env5g \<Rightarrow> nf \<Rightarrow> http handler \<Rightarrow> http py handler" where
  "post e n h w = (if up e n then let (r, w') = h w in (Inr r, w') else (Inl ConnectionError, w))"

text \<open>The key derivation of every function, \<open>f"{key_name}_derived_from_{parent_key[:10]}"\<close>.\<close>

definition derive_key :: "json \<Rightarrow> string \<Rightarrow> string py" where
  "derive_key parent_key key_name =
     bind_py (slice_to 10 parent_key) (\<lambda>p. Inr (key_name @ ''_derived_from_'' @ py_str p))"

section \<open>The home network: UDM and AUSF\<close>

definition SUBSCRIBER_DB :: "string \<Rightarrow> subscriber option" where
  "SUBSCRIBER_DB = [''imsi-001010000000001'' \<mapsto>
     \<lparr>sub_k = ''0x00112233445566778899aabbccddeeff'', sub_opc = ''0x63bfa50ee6523365ff14c1f45f88737d'', sub_sqn = 0\<rparr>]"

definition derive_k_ausf :: "string \<Rightarrow> string" where
  "derive_k_ausf k = ''K_AUSF_derived_from_'' @ take 10 k"

fun lookup_subscriber :: "(string \<Rightarrow> subscriber option) \<Rightarrow> json \<Rightarrow> subscriber option" where
  "lookup_subscriber db (JStr s) = db s"
| "lookup_subscriber db _ = None"

definition get_auth_data :: "json \<Rightarrow> json py handler" where
  "get_auth_data ue_id =
     seq_py (eval_py (dict_key ue_id)) (\<lambda>_ w.
       (case lookup_subscriber (subscriber_db w) ue_id of
          None \<Rightarrow> (Inr (JObj [(''status'', JStr ''ue_not_found'')]), w)
        | Some subscriber \<Rightarrow>
            (Inr (JObj [(''status'', JStr ''success''),
                        (''k_ausf'', JStr (derive_k_ausf (sub_k subscriber))),
                        (''rand'', JStr ''0x1234567890abcdef1234567890abcdef''),
                        (''autn'', JStr ''0xabcdef1234567890abcdef1234567890'')]), w)))"

definition udm_auth_data :: "json \<Rightarrow> http handler" where
  "udm_auth_data data = serve (seq_py (eval_py (getitem data ''ue_id'')) get_auth_data)"

definition authenticate :: "env5g \<Rightarrow> json \<Rightarrow> json py handler" where
  "authenticate e auth_request =
     seq_py (eval_py (getitem auth_request ''ue_id'')) (\<lambda>ue_id.
     seq_py (post e UDM (udm_auth_data (JObj [(''ue_id'', ue_id)]))) (\<lambda>response.
     seq_py (eval_py (response_json response)) (\<lambda>auth_vector.
     seq_py (eval_py (dict_key ue_id)) (\<lambda>key.
     seq_py (assign_py (\<lambda>w. w\<lparr>authentication_vectors := (authentication_vectors w)(key \<mapsto> auth_vector)\<rparr>)) (\<lambda>_.
     seq_py (eval_py (getitem auth_vector ''k_ausf'')) (\<lambda>k_ausf.
       eval_py (Inr (JObj [(''status'', JStr ''success''), (''k_ausf'', k_ausf),
         (''auth_result'', JStr ''authenticated'')]))))))))"

definition ausf_authenticate :: "env5g \<Rightarrow> json \<Rightarrow> http handler" where
  "ausf_authenticate e data = serve (authenticate e data)"

section \<open>The session functions: UPF and SMF\<close>

text \<open>\<^verbatim>\<open>subprocess.run\<close> with a list, in the container of the UPF.\<close>

definition upf_run :: "env5g \<Rightarrow> string list \<Rightarrow> run_result handler" where
  "upf_run e cmd w = (run_cmd e (upf_cmds w) cmd, w\<lparr>upf_cmds := upf_cmds w @ [cmd]\<rparr>)"

fun run_checked :: "env5g \<Rightarrow> string list list \<Rightarrow> bool py handler" where
  "run_checked e [] w = (Inr True, w)"
| "run_checked e (cmd # cmds) w =
     (case upf_run e cmd w of
        (Run_ok, w') \<Rightarrow> run_checked e cmds w'
      | (Run_failed, w') \<Rightarrow> (Inr False, w')
      | (Run_missing, w') \<Rightarrow> (Inl FileNotFoundError, w'))"

definition create_gtp_interface :: "env5g \<Rightarrow> bool py handler" where
  "create_gtp_interface e =
     run_checked e
       [[''modprobe'', ''gtp''],
        [''ip'', ''link'', ''add'', ''gtp0'', ''type'', ''gtp'', ''role'', ''upf''],
        [''ip'', ''addr'', ''add'', ''10.10.0.1/24'', ''dev'', ''gtp0''],
        [''ip'', ''link'', ''set'', ''gtp0'', ''up'']]"

definition upf_configure :: "env5g \<Rightarrow> json \<Rightarrow> http handler" where
  "upf_configure e data w =
     (case create_gtp_interface e w of
        (Inl _, w1) \<Rightarrow> (Http 500 None, w1)
      | (Inr False, w1) \<Rightarrow> (Http 500 (Some (JObj [(''status'', JStr ''GTP interface creation failed'')])), w1)
      | (Inr True, w1) \<Rightarrow>
          (case upf_run e [''iptables'', ''-t'', ''nat'', ''-A'', ''POSTROUTING'', ''-o'', ''eth0'', ''-j'', ''MASQUERADE''] w1 of
             (Run_missing, w2) \<Rightarrow> (Http 500 None, w2)
           | (_, w2) \<Rightarrow>
               (Http 200 (Some (JObj [(''status'', JStr ''UPF configured''), (''gtp_interface'', JStr ''gtp0''),
                  (''ue_gateway'', JStr ''10.10.0.2''), (''subnet'', JStr ''10.10.0.0/24'')])), w2)))"

text \<open>\<^verbatim>\<open>os.system\<close> hands a line to a shell and its status is ignored.\<close>

definition smf_system :: "string \<Rightarrow> unit py handler" where
  "smf_system cmd = assign_py (\<lambda>w. w\<lparr>smf_cmds := smf_cmds w @ [cmd]\<rparr>)"

definition establish_session :: "env5g \<Rightarrow> json \<Rightarrow> json py handler" where
  "establish_session e session_request =
     seq_py (smf_system ''sudo ip link add gtp0 type gtp'') (\<lambda>_.
     seq_py (smf_system ''sudo ip addr add 10.10.0.1/24 dev gtp0'') (\<lambda>_.
     seq_py (smf_system ''sudo ip link set gtp0 up'') (\<lambda>_.
     seq_py (eval_py (getitem session_request ''ue_id'')) (\<lambda>ue_id.
     seq_py (eval_py (getitem session_request ''k_gnb'')) (\<lambda>k_gnb.
     seq_py (eval_py (derive_key k_gnb ''UP_ENC'')) (\<lambda>k_up_enc.
     seq_py (eval_py (dict_key ue_id)) (\<lambda>key.
     seq_py (assign_py (\<lambda>w. w\<lparr>sessions := (sessions w)(key \<mapsto>
         JObj [(''k_up_enc'', JStr k_up_enc), (''status'', JStr ''active'')])\<rparr>)) (\<lambda>_.
     seq_py (post e UPF (upf_configure e (JObj [(''ue_id'', ue_id), (''k_up_enc'', JStr k_up_enc)]))) (\<lambda>_ w.
       (Inr (JObj [(''status'', JStr ''session_established''),
          (''ue_ip'', JStr (''10.10.0.'' @ py_dec (10 + randint e (draws w) mod 245))),
          (''dns'', JStr ''8.8.8.8'')]), w\<lparr>draws := draws w + 1\<rparr>))))))))))"

definition smf_session_establishment :: "env5g \<Rightarrow> json \<Rightarrow> http handler" where
  "smf_session_establishment e data = serve (establish_session e data)"

section \<open>The terminal and the base station\<close>

definition ue_id_self :: string where
  "ue_id_self = ''imsi-001010000000001''"

definition register :: "json py handler" where
  "register w = (Inr (JObj [(''status'', JStr ''registration_started'')]), w\<lparr>registered := True\<rparr>)"

definition configure_network :: "json \<Rightarrow> unit py handler" where
  "configure_network session_info =
     seq_py (eval_py (getitem session_info ''ue_ip'')) (\<lambda>ip w.
       (Inr (), w\<lparr>ip_address := ip,
          ue_cmds := ue_cmds w @ [''sudo ip addr add '' @ py_str ip @ ''/24 dev eth0'',
            ''sudo ip route add default via '' @ ''10.10.0.2'']\<rparr>))"

text \<open>A POST to the terminal; its only such route is \<^verbatim>\<open>/register\<close>.\<close>

definition ue_post :: "string \<Rightarrow> json \<Rightarrow> http handler" where
  "ue_post path data w =
     (let w1 = w\<lparr>ue_inbox := ue_inbox w @ [(path, data)]\<rparr>
      in if path = ''/register'' then serve register w1
         else if path = ''/health'' then (Http 405 None, w1)
         else (not_found, w1))"

definition gnb_calculate_mac :: "env5g \<Rightarrow> json \<Rightarrow> string \<Rightarrow> string py" where
  "gnb_calculate_mac e message key =
     bind_py (slice_to 8 (JInt (py_hash e (py_str message @ key)))) (\<lambda>h. Inr (''MAC_'' @ py_str h))"

definition handle_ue_context_setup :: "env5g \<Rightarrow> json \<Rightarrow> unit py handler" where
  "handle_ue_context_setup e context =
     seq_py (eval_py (getitem context ''ue_id'')) (\<lambda>ue_id.
     seq_py (eval_py (dict_key ue_id)) (\<lambda>key.
     seq_py (assign_py (\<lambda>w. w\<lparr>gnb_ue_contexts := (gnb_ue_contexts w)(key \<mapsto> context)\<rparr>)) (\<lambda>_.
     seq_py (eval_py (getitem context ''k_gnb'')) (\<lambda>k_gnb.
     seq_py (assign_py (\<lambda>w. w\<lparr>gnb_k_gnb := k_gnb\<rparr>)) (\<lambda>_.
     seq_py (eval_py (derive_key k_gnb ''RRC_ENC'')) (\<lambda>k_rrc_enc.
     seq_py (eval_py (derive_key k_gnb ''RRC_INT'')) (\<lambda>k_rrc_int.
     seq_py (eval_py (gnb_calculate_mac e (JObj [(''command'', JStr ''RRC Security Mode Command'')]) k_rrc_int)) (\<lambda>mac.
     seq_py (post e UE (ue_post ''/security_command''
         (JObj [(''ue_id'', ue_id), (''command'', JStr ''RRC Security Mode Command''), (''mac'', JStr mac)]))) (\<lambda>_.
       eval_py (Inr ()))))))))))"

definition gnb_ue_context_setup :: "env5g \<Rightarrow> json \<Rightarrow> http handler" where
  "gnb_ue_context_setup e data =
     serve (seq_py (handle_ue_context_setup e data) (\<lambda>_. eval_py (Inr (JObj [(''status'', JStr ''success'')]))))"

section \<open>The access function\<close>

definition derive_k_amf :: "json \<Rightarrow> string py" where
  "derive_k_amf k_ausf = bind_py (slice_to 10 k_ausf) (\<lambda>p. Inr (''K_AMF_derived_from_'' @ py_str p))"

definition amf_calculate_mac :: "env5g \<Rightarrow> json \<Rightarrow> string \<Rightarrow> string" where
  "amf_calculate_mac e message key = ''MAC_'' @ take 8 (hexdigest e (py_str message @ key))"

text \<open>
  The base station has no route \<^verbatim>\<open>/security_command\<close>: the NAS Security Mode Command ends in the
  404 response that the caller drops.
\<close>

definition gnb_security_command :: "json \<Rightarrow> http handler" where
  "gnb_security_command data w = (not_found, w)"

definition amf_handle_registration :: "env5g \<Rightarrow> json \<Rightarrow> json py handler" where
  "amf_handle_registration e registration_request =
     seq_py (eval_py (getitem registration_request ''ue_id'')) (\<lambda>ue_id.
     seq_py (post e AUSF (ausf_authenticate e (JObj [(''ue_id'', ue_id),
         (''serving_network'', JStr ''5G:mnc001.mcc001.3gppnetwork.org'')]))) (\<lambda>response.
     seq_py (eval_py (response_json response)) (\<lambda>context.
     seq_py (eval_py (dict_key ue_id)) (\<lambda>key.
     seq_py (assign_py (\<lambda>w. w\<lparr>amf_ue_contexts := (amf_ue_contexts w)(key \<mapsto> context)\<rparr>)) (\<lambda>_.
     seq_py (eval_py (getitem context ''k_ausf'')) (\<lambda>k_ausf.
     seq_py (eval_py (derive_k_amf k_ausf)) (\<lambda>k.
     seq_py (assign_py (\<lambda>w. w\<lparr>k_amf := Some k\<rparr>)) (\<lambda>_.
     seq_py (eval_py (derive_key (JStr k) ''NAS_ENC'')) (\<lambda>k_nas_enc.
     seq_py (eval_py (derive_key (JStr k) ''NAS_INT'')) (\<lambda>k_nas_int.
     seq_py (post e GNB (gnb_security_command (JObj [(''ue_id'', ue_id),
         (''command'', JStr ''NAS Security Mode Command''),
         (''mac'', JStr (amf_calculate_mac e (JObj [(''command'', JStr ''NAS Security Mode Command'')]) k_nas_int))]))) (\<lambda>_.
       eval_py (Inr (JObj [(''status'', JStr ''authentication_initiated'')])))))))))))))"

definition amf_registration :: "env5g \<Rightarrow> json \<Rightarrow> http handler" where
  "amf_registration e data = serve (amf_handle_registration e data)"

definition amf_handle_security_complete :: "env5g \<Rightarrow> json \<Rightarrow> json py handler" where
  "amf_handle_security_complete e complete_message =
     seq_py (eval_py (getitem complete_message ''ue_id'')) (\<lambda>ue_id.
     seq_py (\<lambda>w. (derive_key (case k_amf w of None \<Rightarrow> JNull | Some k \<Rightarrow> JStr k) ''K_gNB'', w)) (\<lambda>k_gnb.
     seq_py (post e GNB (gnb_ue_context_setup e (JObj [(''ue_id'', ue_id), (''k_gnb'', JStr k_gnb),
         (''security_capabilities'', JList [JStr ''5G-EA0'', JStr ''5G-IA0''])]))) (\<lambda>_.
     seq_py (post e SMF (smf_session_establishment e (JObj [(''ue_id'', ue_id), (''k_gnb'', JStr k_gnb)]))) (\<lambda>_.
       eval_py (Inr (JObj [(''status'', JStr ''registration_complete'')]))))))"

definition amf_security_complete :: "env5g \<Rightarrow> json \<Rightarrow> http handler" where
  "amf_security_complete e data = serve (amf_handle_security_complete e data)"

section \<open>What arrives over the radio\<close>

definition gnb_registration :: "env5g \<Rightarrow> json \<Rightarrow> http handler" where
  "gnb_registration e data =
     serve (seq_py (post e AMF (amf_registration e data)) (\<lambda>response. eval_py (response_json response)))"

definition gnb_security_complete :: "env5g \<Rightarrow> json \<Rightarrow> http handler" where
  "gnb_security_complete e data =
     serve (seq_py (post e AMF (amf_security_complete e data)) (\<lambda>_.
       eval_py (Inr (JObj [(''status'', JStr ''success'')]))))"

inductive radio_step :: "env5g \<Rightarrow> core5g \<Rightarrow> core5g \<Rightarrow> bool" for e where
  registration: "radio_step e w (snd (gnb_registration e data w))"
| security_complete: "radio_step e w (snd (gnb_security_complete e data w))"
| local_register: "radio_step e w (snd (ue_post ''/register'' data w))"


definition core_start :: "core5g \<Rightarrow> bool" where
  "core_start w \<longleftrightarrow> authentication_vectors w = Map.empty \<and> amf_ue_contexts w = Map.empty \<and> k_amf w = None \<and>
     gnb_ue_contexts w = Map.empty \<and> gnb_k_gnb w = JNull \<and> sessions w = Map.empty \<and> \<not> registered w \<and>
     ue_inbox w = []"

section \<open>What each handler does\<close>

lemmas [py_simps] = seq_py_def eval_py_def assign_py_def serve_def post_def

lemma derive_k_amf_ausf: "derive_k_amf (JStr (derive_k_ausf k)) = Inr ''K_AMF_derived_from_K_AUSF_der''"
  by (simp add: derive_k_amf_def derive_k_ausf_def)

definition auth_ok :: "env5g \<Rightarrow> core5g \<Rightarrow> json \<Rightarrow> bool" where
  "auth_ok e w u \<longleftrightarrow> up e AUSF \<and> up e UDM \<and> lookup_subscriber (subscriber_db w) u \<noteq> None"

lemma lookup_subscriber_Some:
  "lookup_subscriber db u = Some sub \<longleftrightarrow> (\<exists>s. u = JStr s \<and> db s = Some sub)"
  by (cases u) auto

lemma authenticate_ok:
  assumes "auth_ok e w u"
  shows "\<exists>v c. ausf_authenticate e (JObj [(''ue_id'', u), (''serving_network'', n)]) w =
      (Http 200 (Some c), w\<lparr>authentication_vectors := (authentication_vectors w)(u \<mapsto> v)\<rparr>) \<and>
      (\<exists>k. getitem c ''k_ausf'' = Inr (JStr (derive_k_ausf k))) \<and> dict_key u = Inr u"
proof -
  obtain s sub where "u = JStr s" "subscriber_db w s = Some sub" "up e AUSF" "up e UDM"
    using assms by (auto simp: auth_ok_def lookup_subscriber_Some)
  then show ?thesis
    by (simp add: ausf_authenticate_def authenticate_def udm_auth_data_def get_auth_data_def py_simps) blast
qed

text \<open>A request that is not authenticated changes at most what the AUSF has stored.\<close>

lemma authenticate_not_ok:
  assumes "up e AUSF" "\<not> auth_ok e w u"
  shows "\<exists>f. ausf_authenticate e (JObj [(''ue_id'', u), (''serving_network'', n)]) w =
      (Http 500 None, w\<lparr>authentication_vectors := f\<rparr>)"
proof -
  have same: "\<exists>f. w = w\<lparr>authentication_vectors := f\<rparr>" by (rule exI [of _ "authentication_vectors w"]) simp
  show ?thesis
    using assms by (cases u) (auto simp: ausf_authenticate_def authenticate_def udm_auth_data_def get_auth_data_def
        auth_ok_def py_simps split: option.splits intro: same)
qed

lemma amf_registration_ok:
  assumes "getitem data ''ue_id'' = Inr u" "auth_ok e w u"
  shows "\<exists>v c. amf_registration e data w =
      (if up e GNB then Http 200 (Some (JObj [(''status'', JStr ''authentication_initiated'')])) else Http 500 None,
       w\<lparr>authentication_vectors := (authentication_vectors w)(u \<mapsto> v),
         amf_ue_contexts := (amf_ue_contexts w)(u \<mapsto> c),
         k_amf := Some ''K_AMF_derived_from_K_AUSF_der''\<rparr>)"
proof -
  from authenticate_ok [OF assms(2)] obtain v c k where A:
    "ausf_authenticate e (JObj [(''ue_id'', u), (''serving_network'', JStr ''5G:mnc001.mcc001.3gppnetwork.org'')]) w =
      (Http 200 (Some c), w\<lparr>authentication_vectors := (authentication_vectors w)(u \<mapsto> v)\<rparr>)"
    "getitem c ''k_ausf'' = Inr (JStr (derive_k_ausf k))" "dict_key u = Inr u" by metis
  moreover have "up e AUSF" using assms(2) by (simp add: auth_ok_def)
  ultimately show ?thesis
    using assms(1) by (intro exI [of _ v] exI [of _ c]) (simp add: amf_registration_def amf_handle_registration_def
        py_simps derive_k_amf_ausf derive_key_def gnb_security_command_def)
qed

lemma amf_registration_refused:
  assumes "\<And>u. getitem data ''ue_id'' = Inr u \<Longrightarrow> \<not> auth_ok e w u"
  shows "\<exists>f. amf_registration e data w = (Http 500 None, w\<lparr>authentication_vectors := f\<rparr>)"
proof -
  have same: "\<exists>f. w = w\<lparr>authentication_vectors := f\<rparr>" by (rule exI [of _ "authentication_vectors w"]) simp
  show ?thesis
  proof (cases "getitem data ''ue_id''")
    case (Inl x)
    then show ?thesis by (simp add: amf_registration_def amf_handle_registration_def py_simps same)
  next
    case (Inr u)
    show ?thesis
    proof (cases "up e AUSF")
      case True
      obtain f where "ausf_authenticate e (JObj [(''ue_id'', u), (''serving_network'', JStr ''5G:mnc001.mcc001.3gppnetwork.org'')]) w =
        (Http 500 None, w\<lparr>authentication_vectors := f\<rparr>)" using authenticate_not_ok [OF True] assms Inr by metis
      then show ?thesis using Inr True
        by (auto simp: amf_registration_def amf_handle_registration_def py_simps)
    next
      case False
      then show ?thesis using Inr by (simp add: amf_registration_def amf_handle_registration_def py_simps same)
    qed
  qed
qed

text \<open>
  The base station stores the context and the key and then fails: an integer hash has no slice.
\<close>

lemma gnb_mac_fails: "gnb_calculate_mac e m k = Inl TypeError"
  by (simp add: gnb_calculate_mac_def)

lemma gnb_context_setup_eq:
  assumes "dict_key u = Inr v"
  shows "gnb_ue_context_setup e (JObj [(''ue_id'', u), (''k_gnb'', JStr k), (''security_capabilities'', c)]) w =
    (Http 500 None, w\<lparr>gnb_ue_contexts := (gnb_ue_contexts w)(v \<mapsto>
       JObj [(''ue_id'', u), (''k_gnb'', JStr k), (''security_capabilities'', c)]), gnb_k_gnb := JStr k\<rparr>)"
  using assms by (simp add: gnb_ue_context_setup_def handle_ue_context_setup_def py_simps derive_key_def gnb_mac_fails)

lemma gnb_context_setup_unhashable:
  assumes "dict_key u = Inl x"
  shows "gnb_ue_context_setup e (JObj [(''ue_id'', u), (''k_gnb'', k), (''security_capabilities'', c)]) w = (Http 500 None, w)"
  using assms by (simp add: gnb_ue_context_setup_def handle_ue_context_setup_def py_simps)

lemma run_checked_frame: "\<exists>c. snd (run_checked e cmds w) = w\<lparr>upf_cmds := c\<rparr>"
proof (induction cmds arbitrary: w)
  case Nil
  show ?case by (rule exI [of _ "upf_cmds w"]) simp
next
  case (Cons cmd cmds)
  obtain c where "snd (run_checked e cmds (w\<lparr>upf_cmds := upf_cmds w @ [cmd]\<rparr>)) = w\<lparr>upf_cmds := c\<rparr>"
    using Cons.IH [of "w\<lparr>upf_cmds := upf_cmds w @ [cmd]\<rparr>"] by auto
  then show ?case by (auto simp: upf_run_def split: run_result.splits)
qed

lemma upf_configure_frame: "\<exists>c. snd (upf_configure e d w) = w\<lparr>upf_cmds := c\<rparr>"
proof -
  obtain r c where R: "create_gtp_interface e w = (r, w\<lparr>upf_cmds := c\<rparr>)"
    using run_checked_frame [of e _ w] unfolding create_gtp_interface_def by (metis prod.collapse)
  show ?thesis
  proof (cases r)
    case (Inr ok)
    with R show ?thesis by (cases ok) (auto simp: upf_configure_def upf_run_def split: run_result.split)
  qed (use R in \<open>auto simp: upf_configure_def\<close>)
qed

definition up_session :: "string \<Rightarrow> json" where
  "up_session k = JObj [(''k_up_enc'', JStr (''UP_ENC_derived_from_'' @ take 10 k)), (''status'', JStr ''active'')]"

lemma smf_session_eq:
  assumes "dict_key u = Inr v"
  shows "\<exists>r c d q. smf_session_establishment e (JObj [(''ue_id'', u), (''k_gnb'', JStr k)]) w =
    (r, w\<lparr>smf_cmds := c, sessions := (sessions w)(v \<mapsto> up_session k), upf_cmds := q, draws := d\<rparr>)"
proof -
  define c where "c = smf_cmds w @ [''sudo ip link add gtp0 type gtp'', ''sudo ip addr add 10.10.0.1/24 dev gtp0'', ''sudo ip link set gtp0 up'']"
  define w1 where "w1 = w\<lparr>smf_cmds := c, sessions := (sessions w)(v \<mapsto> up_session k)\<rparr>"
  obtain r1 q where R: "upf_configure e (JObj [(''ue_id'', u), (''k_up_enc'', JStr (''UP_ENC_derived_from_'' @ take 10 k))]) w1 = (r1, w1\<lparr>upf_cmds := q\<rparr>)"
    using upf_configure_frame by (metis prod.collapse)
  have S: "smf_session_establishment e (JObj [(''ue_id'', u), (''k_gnb'', JStr k)]) w =
    (if up e UPF then (Http 200 (Some (JObj [(''status'', JStr ''session_established''),
          (''ue_ip'', JStr (''10.10.0.'' @ py_dec (10 + randint e (draws w) mod 245))),
          (''dns'', JStr ''8.8.8.8'')])), w1\<lparr>upf_cmds := q, draws := draws w + 1\<rparr>) else (Http 500 None, w1))"
    using assms R unfolding w1_def c_def up_session_def
    by (simp add: smf_session_establishment_def establish_session_def smf_system_def py_simps derive_key_def del: py_dec.simps)
  show ?thesis
  proof (cases "up e UPF")
    case True
    with S show ?thesis unfolding w1_def by auto
  next
    case False
    have "w1 = w\<lparr>smf_cmds := c, sessions := (sessions w)(v \<mapsto> up_session k), upf_cmds := upf_cmds w, draws := draws w\<rparr>"
      by (simp add: w1_def)
    with S False show ?thesis by metis
  qed
qed

lemma smf_session_unhashable:
  assumes "dict_key u = Inl x"
  shows "\<exists>r c. smf_session_establishment e (JObj [(''ue_id'', u), (''k_gnb'', JStr k)]) w = (r, w\<lparr>smf_cmds := c\<rparr>)"
  using assms by (simp add: smf_session_establishment_def establish_session_def smf_system_def py_simps derive_key_def) blast

text \<open>
  What a message that completes the security mode does: nothing unless the access function holds a
  key; with one, any identity that can be a key of a dictionary gets a context and a session.
\<close>

definition gnb_context :: "json \<Rightarrow> string \<Rightarrow> json" where
  "gnb_context u k = JObj [(''ue_id'', u), (''k_gnb'', JStr (''K_gNB_derived_from_'' @ take 10 k)),
     (''security_capabilities'', JList [JStr ''5G-EA0'', JStr ''5G-IA0''])]"

lemma security_complete_eq:
  assumes "getitem data ''ue_id'' = Inr u" "dict_key u = Inr v" "k_amf w = Some k" "up e GNB" "up e SMF"
  shows "\<exists>c d q. amf_security_complete e data w =
    (Http 200 (Some (JObj [(''status'', JStr ''registration_complete'')])),
     w\<lparr>gnb_ue_contexts := (gnb_ue_contexts w)(v \<mapsto> gnb_context u k),
       gnb_k_gnb := JStr (''K_gNB_derived_from_'' @ take 10 k), smf_cmds := c,
       sessions := (sessions w)(v \<mapsto> up_session (''K_gNB_derived_from_'' @ take 10 k)), upf_cmds := q, draws := d\<rparr>)"
proof -
  let ?k = "''K_gNB_derived_from_'' @ take 10 k"
  let ?w = "w\<lparr>gnb_ue_contexts := (gnb_ue_contexts w)(v \<mapsto> gnb_context u k), gnb_k_gnb := JStr ?k\<rparr>"
  obtain r c d q where S: "smf_session_establishment e (JObj [(''ue_id'', u), (''k_gnb'', JStr ?k)]) ?w =
      (r, ?w\<lparr>smf_cmds := c, sessions := (sessions ?w)(v \<mapsto> up_session ?k), upf_cmds := q, draws := d\<rparr>)"
    using smf_session_eq [OF assms(2)] by blast
  have "derive_key (JStr k) ''K_gNB'' = Inr ?k" by (simp add: derive_key_def)
  then show ?thesis
    using S assms gnb_context_setup_eq [OF assms(2), of e ?k _ w]
    by (simp add: amf_security_complete_def amf_handle_security_complete_def py_simps gnb_context_def del: append.simps) auto
qed

lemma security_complete_cases:
  obtains (rejected) "snd (amf_security_complete e data w) = w"
  | (no_session) u v k where "k_amf w = Some k" "dict_key u = Inr v"
      "snd (amf_security_complete e data w) =
        w\<lparr>gnb_ue_contexts := (gnb_ue_contexts w)(v \<mapsto> gnb_context u k), gnb_k_gnb := JStr (''K_gNB_derived_from_'' @ take 10 k)\<rparr>"
  | (unhashable) c where "snd (amf_security_complete e data w) = w\<lparr>smf_cmds := c\<rparr>"
  | (set_up) u v k c d q where "k_amf w = Some k" "dict_key u = Inr v"
      "snd (amf_security_complete e data w) =
        w\<lparr>gnb_ue_contexts := (gnb_ue_contexts w)(v \<mapsto> gnb_context u k),
          gnb_k_gnb := JStr (''K_gNB_derived_from_'' @ take 10 k), smf_cmds := c,
          sessions := (sessions w)(v \<mapsto> up_session (''K_gNB_derived_from_'' @ take 10 k)), upf_cmds := q, draws := d\<rparr>"
proof (cases "getitem data ''ue_id''")
  case (Inl x)
  then show ?thesis by (intro rejected) (simp add: amf_security_complete_def amf_handle_security_complete_def py_simps)
next
  case (Inr u)
  note defs = amf_security_complete_def amf_handle_security_complete_def py_simps
  show ?thesis
  proof (cases "k_amf w = None \<or> \<not> up e GNB")
    case True
    then show ?thesis using Inr by (intro rejected) (auto simp: defs derive_key_def split: option.splits)
  next
    case False
    then obtain k where k: "k_amf w = Some k" and G: "up e GNB" by auto
    have D: "derive_key (JStr k) ''K_gNB'' = Inr (''K_gNB_derived_from_'' @ take 10 k)" by (simp add: derive_key_def)
    show ?thesis
    proof (cases "dict_key u")
      case (Inl x)
      obtain r c where "smf_session_establishment e (JObj [(''ue_id'', u), (''k_gnb'', JStr (''K_gNB_derived_from_'' @ take 10 k))]) w = (r, w\<lparr>smf_cmds := c\<rparr>)"
        using smf_session_unhashable [OF Inl] by blast
      then show ?thesis
        using Inr k G D gnb_context_setup_unhashable [OF Inl] rejected unhashable
        by (cases "up e SMF") (simp_all add: defs del: append.simps)
    next
      case (Inr v)
      show ?thesis
      proof (cases "up e SMF")
        case True
        with security_complete_eq [OF \<open>getitem data ''ue_id'' = Inr u\<close> Inr k G] show ?thesis using set_up [OF k Inr] by force
      next
        case False
        with \<open>getitem data ''ue_id'' = Inr u\<close> k G D gnb_context_setup_eq [OF Inr, of e _ _ w] show ?thesis
          by (intro no_session [OF k Inr]) (simp add: defs gnb_context_def del: append.simps)
      qed
    qed
  qed
qed

section \<open>What holds in every reachable state\<close>

definition core_inv :: "core5g \<Rightarrow> bool" where
  "core_inv w \<longleftrightarrow>
     (k_amf w = None \<longrightarrow> amf_ue_contexts w = Map.empty \<and> gnb_ue_contexts w = Map.empty \<and> sessions w = Map.empty) \<and>
     (\<forall>k. k_amf w = Some k \<longrightarrow> k = ''K_AMF_derived_from_K_AUSF_der'' \<and> amf_ue_contexts w \<noteq> Map.empty) \<and>
     (\<forall>v c. amf_ue_contexts w v = Some c \<longrightarrow> (\<exists>s. v = JStr s \<and> subscriber_db w s \<noteq> None)) \<and>
     (\<forall>v c. gnb_ue_contexts w v = Some c \<longrightarrow> getitem c ''k_gnb'' = Inr (JStr ''K_gNB_derived_from_K_AMF_deri'')) \<and>
     (\<forall>v c. sessions w v = Some c \<longrightarrow> getitem c ''k_up_enc'' = Inr (JStr ''UP_ENC_derived_from_K_gNB_deri''))"

lemma core_inv_cong:
  assumes "core_inv w" "k_amf w' = k_amf w" "gnb_ue_contexts w' = gnb_ue_contexts w" "sessions w' = sessions w"
    "amf_ue_contexts w' = amf_ue_contexts w" "subscriber_db w' = subscriber_db w"
  shows "core_inv w'"
  using assms by (simp add: core_inv_def)

lemma core_inv_start: "core_start w \<Longrightarrow> core_inv w"
  by (simp add: core_start_def core_inv_def)

lemma core_inv_registration:
  assumes "core_inv w"
  shows "core_inv (snd (amf_registration e data w))"
proof (cases "\<exists>u. getitem data ''ue_id'' = Inr u \<and> auth_ok e w u")
  case True
  then obtain u where u: "getitem data ''ue_id'' = Inr u" "auth_ok e w u" by blast
  obtain s where s: "u = JStr s" "subscriber_db w s \<noteq> None"
    using u(2) by (auto simp: auth_ok_def lookup_subscriber_Some)
  with amf_registration_ok [OF u] assms show ?thesis by (auto simp: core_inv_def split: if_splits)
next
  case False
  then obtain f where "amf_registration e data w = (Http 500 None, w\<lparr>authentication_vectors := f\<rparr>)"
    using amf_registration_refused [of data e w] by blast
  then show ?thesis using assms by (auto intro: core_inv_cong)
qed

lemma core_inv_security_complete:
  assumes I: "core_inv w"
  shows "core_inv (snd (amf_security_complete e data w))"
proof (cases rule: security_complete_cases [of e data w])
  case rejected
  with I show ?thesis by simp
next
  case (no_session u v k)
  with I show ?thesis by (auto simp: core_inv_def gnb_context_def)
next
  case (unhashable c)
  with I show ?thesis by (auto intro: core_inv_cong)
next
  case (set_up u v k c d q)
  with I show ?thesis by (auto simp: core_inv_def gnb_context_def up_session_def)
qed

lemma serve_post_snd:
  "snd (serve (seq_py (post e n h) (\<lambda>r. eval_py (g r))) w) = (if up e n then snd (h w) else w)"
  by (simp add: py_simps split: prod.split)

lemma core_inv_step:
  assumes "core_inv w" "radio_step e w w'"
  shows "core_inv w'"
  using assms(2)
proof cases
  case (registration data)
  then show ?thesis using core_inv_registration [OF assms(1)] assms(1) by (simp add: gnb_registration_def serve_post_snd)
next
  case (security_complete data)
  then show ?thesis using core_inv_security_complete [OF assms(1)] assms(1)
    by (simp add: gnb_security_complete_def serve_post_snd)
next
  case (local_register data)
  then show ?thesis using assms(1) by (auto simp: ue_post_def py_simps register_def intro: core_inv_cong)
qed

interpretation rad: step_invariant "radio_step e" core_start core_inv for e
  by unfold_locales (auto intro: core_inv_start core_inv_step)








text \<open>A run for the witnesses: the subscriber of the source registers.\<close>

definition ex_env :: env5g where
  "ex_env = \<lparr>up = (\<lambda>_. True), hexdigest = (\<lambda>s. s), py_hash = (\<lambda>s. int (length s)), run_cmd = (\<lambda>_ _. Run_ok), randint = (\<lambda>n. n)\<rparr>"

definition ex_core :: core5g where
  "ex_core = \<lparr>subscriber_db = SUBSCRIBER_DB, authentication_vectors = Map.empty, amf_ue_contexts = Map.empty, k_amf = None,
     gnb_ue_contexts = Map.empty, gnb_k_gnb = JNull, sessions = Map.empty, smf_cmds = [], draws = 0, upf_cmds = [],
     registered = False, ip_address = JNull, ue_cmds = [], ue_inbox = []\<rparr>"

definition ex_registered :: core5g where
  "ex_registered = snd (gnb_registration ex_env (JObj [(''ue_id'', JStr ue_id_self)]) ex_core)"

lemma ex_registered_run: "core_start ex_core \<and> (radio_step ex_env)\<^sup>*\<^sup>* ex_core ex_registered"
  by (auto simp: core_start_def ex_core_def ex_registered_def intro: radio_step.registration)

lemma ex_registered_context: "amf_ue_contexts ex_registered (JStr ue_id_self) \<noteq> None"
  by code_simp

text \<open>
  C15: only subscribers are authenticated. In every state that radio messages lead to, each
  context of the access function belongs to an identity in the subscriber database.
\<close>

theorem core_contexts_subscribers:
  assumes "core_start w0" "(radio_step e)\<^sup>*\<^sup>* w0 w" "amf_ue_contexts w v = Some c"
  shows "\<exists>s. v = JStr s \<and> subscriber_db w s \<noteq> None"
  using rad.reach_inv [OF assms(1,2)] assms(3) by (auto simp: core_inv_def)

theorem core_contexts_subscribers_witness:
  "\<exists>s. JStr ue_id_self = JStr s \<and> subscriber_db ex_registered s \<noteq> None"
proof -
  obtain c where "amf_ue_contexts ex_registered (JStr ue_id_self) = Some c" using ex_registered_context by blast
  with core_contexts_subscribers [of ex_core ex_env ex_registered] ex_registered_run show ?thesis by blast
qed

text \<open>
  C16: the key hierarchy does not depend on the subscriber. Whatever the database holds, each key
  derivation keeps only ten characters of a parent key that starts with its own name: in every
  reachable state the key of the access function, the key in each context of the base station and
  the user plane key of each session are fixed strings, the same for all subscribers.
\<close>

theorem core_keys_constant:
  assumes "core_start w0" "(radio_step e)\<^sup>*\<^sup>* w0 w"
  shows "k_amf w \<in> {None, Some ''K_AMF_derived_from_K_AUSF_der''} \<and>
    (\<forall>v c. gnb_ue_contexts w v = Some c \<longrightarrow> getitem c ''k_gnb'' = Inr (JStr ''K_gNB_derived_from_K_AMF_deri'')) \<and>
    (\<forall>v c. sessions w v = Some c \<longrightarrow> getitem c ''k_up_enc'' = Inr (JStr ''UP_ENC_derived_from_K_gNB_deri''))"
  using rad.reach_inv [OF assms] by (cases "k_amf w") (auto simp: core_inv_def)

theorem core_keys_constant_witness:
  "core_start ex_core \<and> (radio_step ex_env)\<^sup>*\<^sup>* ex_core ex_registered \<and>
   k_amf ex_registered \<in> {None, Some ''K_AMF_derived_from_K_AUSF_der''}"
  using core_keys_constant [of ex_core ex_env ex_registered] ex_registered_run by blast

text \<open>
  C23: completing the security mode is not tied to an authentication. Once any subscriber has
  registered, a message with any identity, in the database or not, gives that identity a context
  at the base station and an active session, and the access function answers that the
  registration is complete; its own list of authenticated identities is unchanged.
\<close>

theorem core_unauthenticated_session:
  assumes "core_start w0" "(radio_step e)\<^sup>*\<^sup>* w0 w" "amf_ue_contexts w v = Some c"
    "up e AMF" "up e GNB" "up e SMF"
  shows "\<exists>w'. gnb_security_complete e (JObj [(''ue_id'', JStr s)]) w =
      (Http 200 (Some (JObj [(''status'', JStr ''success'')])), w') \<and>
    gnb_ue_contexts w' (JStr s) \<noteq> None \<and>
    (\<exists>c. sessions w' (JStr s) = Some c \<and> getitem c ''status'' = Inr (JStr ''active'')) \<and>
    amf_ue_contexts w' = amf_ue_contexts w"
proof -
  obtain k where k: "k_amf w = Some k"
    using rad.reach_inv [OF assms(1,2)] assms(3) by (cases "k_amf w") (auto simp: core_inv_def)
  have u: "getitem (JObj [(''ue_id'', JStr s)]) ''ue_id'' = Inr (JStr s)" "dict_key (JStr s) = Inr (JStr s)" by simp_all
  show ?thesis using security_complete_eq [OF u k assms(5,6)] assms(4)
    by (auto simp: gnb_security_complete_def py_simps up_session_def)
qed

theorem core_unauthenticated_session_witness:
  "SUBSCRIBER_DB ''imsi-999'' = None \<and>
   (\<exists>w'. gnb_security_complete ex_env (JObj [(''ue_id'', JStr ''imsi-999'')]) ex_registered =
      (Http 200 (Some (JObj [(''status'', JStr ''success'')])), w') \<and>
    gnb_ue_contexts w' (JStr ''imsi-999'') \<noteq> None \<and>
    (\<exists>c. sessions w' (JStr ''imsi-999'') = Some c \<and> getitem c ''status'' = Inr (JStr ''active'')) \<and>
    amf_ue_contexts w' = amf_ue_contexts ex_registered)"
proof
  show "SUBSCRIBER_DB ''imsi-999'' = None" by (simp add: SUBSCRIBER_DB_def)
  obtain c where "amf_ue_contexts ex_registered (JStr ue_id_self) = Some c" using ex_registered_context by blast
  moreover have "up ex_env n" for n by (simp add: ex_env_def)
  ultimately show "\<exists>w'. gnb_security_complete ex_env (JObj [(''ue_id'', JStr ''imsi-999'')]) ex_registered =
      (Http 200 (Some (JObj [(''status'', JStr ''success'')])), w') \<and>
    gnb_ue_contexts w' (JStr ''imsi-999'') \<noteq> None \<and>
    (\<exists>c. sessions w' (JStr ''imsi-999'') = Some c \<and> getitem c ''status'' = Inr (JStr ''active'')) \<and>
    amf_ue_contexts w' = amf_ue_contexts ex_registered"
    using core_unauthenticated_session [of ex_core ex_env ex_registered] ex_registered_run by blast
qed




text \<open>
  C24: registration works for a subscriber and is refused for anyone else. With all functions up,
  a subscriber's registration is answered with success and leaves a context; its security mode
  completion then leaves a context at the base station and an active session. A request without
  an identity of the database is answered with 500 and leaves the access function as it was.
\<close>

theorem core_registration:
  assumes "\<And>n. up e n"
  shows "if lookup_subscriber (subscriber_db w) (JStr s) \<noteq> None
    then (\<exists>w1 w2. gnb_registration e (JObj [(''ue_id'', JStr s)]) w =
        (Http 200 (Some (JObj [(''status'', JStr ''authentication_initiated'')])), w1) \<and>
      amf_ue_contexts w1 (JStr s) \<noteq> None \<and>
      gnb_security_complete e (JObj [(''ue_id'', JStr s)]) w1 = (Http 200 (Some (JObj [(''status'', JStr ''success'')])), w2) \<and>
      gnb_ue_contexts w2 (JStr s) \<noteq> None \<and>
      (\<exists>c. sessions w2 (JStr s) = Some c \<and> getitem c ''status'' = Inr (JStr ''active'')))
    else (\<exists>w1. gnb_registration e (JObj [(''ue_id'', JStr s)]) w = (Http 500 None, w1) \<and>
      amf_ue_contexts w1 = amf_ue_contexts w \<and> k_amf w1 = k_amf w)"
proof (cases "subscriber_db w s")
  case None
  have "\<exists>f. amf_registration e (JObj [(''ue_id'', JStr s)]) w = (Http 500 None, w\<lparr>authentication_vectors := f\<rparr>)"
    using None by (intro amf_registration_refused) (auto simp: auth_ok_def)
  with None assms show ?thesis by (auto simp: gnb_registration_def py_simps)
next
  case (Some sub)
  have u: "getitem (JObj [(''ue_id'', JStr s)]) ''ue_id'' = Inr (JStr s)" "dict_key (JStr s) = Inr (JStr s)" by simp_all
  have "auth_ok e w (JStr s)" using Some assms by (simp add: auth_ok_def)
  then obtain w1 where w1: "amf_registration e (JObj [(''ue_id'', JStr s)]) w =
      (Http 200 (Some (JObj [(''status'', JStr ''authentication_initiated'')])), w1)"
    "amf_ue_contexts w1 (JStr s) \<noteq> None" "k_amf w1 \<noteq> None"
    using amf_registration_ok [OF u(1), of e w] assms by auto
  then obtain k where "k_amf w1 = Some k" by blast
  from w1 security_complete_eq [OF u this assms assms] assms Some show ?thesis
    by (auto simp: gnb_registration_def gnb_security_complete_def py_simps up_session_def)
qed

theorem core_registration_witness:
  "(\<exists>w1. gnb_registration ex_env (JObj [(''ue_id'', JStr ue_id_self)]) ex_core =
      (Http 200 (Some (JObj [(''status'', JStr ''authentication_initiated'')])), w1)) \<and>
   (\<exists>w1. gnb_registration ex_env (JObj [(''ue_id'', JStr ''imsi-999'')]) ex_core = (Http 500 None, w1))"
proof
  have up: "up ex_env n" for n by (simp add: ex_env_def)
  have "lookup_subscriber (subscriber_db ex_core) (JStr ue_id_self) \<noteq> None"
    by (simp add: ex_core_def SUBSCRIBER_DB_def ue_id_self_def)
  then show "\<exists>w1. gnb_registration ex_env (JObj [(''ue_id'', JStr ue_id_self)]) ex_core =
      (Http 200 (Some (JObj [(''status'', JStr ''authentication_initiated'')])), w1)"
    using core_registration [of ex_env ex_core ue_id_self] up by (simp only: if_True simp_thms) blast
  have "\<not> lookup_subscriber (subscriber_db ex_core) (JStr ''imsi-999'') \<noteq> None"
    by (simp add: ex_core_def SUBSCRIBER_DB_def)
  then show "\<exists>w1. gnb_registration ex_env (JObj [(''ue_id'', JStr ''imsi-999'')]) ex_core = (Http 500 None, w1)"
    using core_registration [of ex_env ex_core "''imsi-999''"] up by (simp only: if_False) blast
qed

end
