(* ===== verification/Multicast5G.thy ===== *)
theory Multicast5G
  imports Core5G
begin

text \<open>
  The multicast base station of \<^verbatim>\<open>5g/5g-physical-multicast/gnb-multicast.py\<close>: the RRC layer with
  its table of terminals and the group identity G-RNTI, the MAC scheduler, the PHY transmission
  and the simulator that drives them. The table is a Python dictionary, which keeps its insertion
  order; a parameter gives the outcome of each draw \<open>random.random() < channel_reliability\<close>.

  The lemmas show that only connected terminals are members of the group, that a transmission
  reaches exactly the members, each once and in slots counted up from 0, and what a failed
  configuration leaves behind.
\<close>

section \<open>State\<close>

datatype rrc_state_val = IDLE | CONNECTED

record ue_rec =
  rec_ue_id :: int
  rrc_state :: rrc_state_val
  g_rnti :: int
  last_ack :: bool

record mc_packet =
  packet_id :: nat
  pkt_data :: string
  pkt_size :: int
  pkt_slot :: nat

record rrc_layer =
  ues :: "(int \<times> ue_rec) list"
  group_g_rnti :: int
  multicast_configured :: bool

record mac_layer =
  slot_number :: nat
  resource_blocks :: int
  multicast_tb_size :: int

record gnb_sim =
  rrc :: rrc_layer
  mac :: mac_layer
  packet_counter :: nat
  phy_draws :: nat

definition gnb_init :: gnb_sim where
  "gnb_init = \<lparr>rrc = \<lparr>ues = [], group_g_rnti = 1000, multicast_configured = False\<rparr>,
     mac = \<lparr>slot_number = 0, resource_blocks = 100, multicast_tb_size = 1000\<rparr>, packet_counter = 0, phy_draws = 0\<rparr>"

text \<open>Assignment to a dictionary: an old key keeps its place, a new one goes last.\<close>

fun dict_set :: "int \<Rightarrow> 'v \<Rightarrow> (int \<times> 'v) list \<Rightarrow> (int \<times> 'v) list" where
  "dict_set k v [] = [(k, v)]"
| "dict_set k v ((k', v') # kvs) = (if k = k' then (k, v) # kvs else (k', v') # dict_set k v kvs)"

section \<open>The layers\<close>

definition connect_ue :: "int \<Rightarrow> rrc_layer \<Rightarrow> bool \<times> rrc_layer" where
  "connect_ue u r =
     (let r1 = (if map_of (ues r) u = None
                then r\<lparr>ues := dict_set u \<lparr>rec_ue_id = u, rrc_state = IDLE, g_rnti = 0, last_ack = False\<rparr> (ues r)\<rparr>
                else r)
      in case map_of (ues r1) u of
           Some x \<Rightarrow>
             if rrc_state x = IDLE then (True, r1\<lparr>ues := dict_set u (x\<lparr>rrc_state := CONNECTED\<rparr>) (ues r1)\<rparr>)
             else (False, r1)
         | None \<Rightarrow> (False, r1))"

fun configure_members :: "int list \<Rightarrow> rrc_layer \<Rightarrow> bool \<times> rrc_layer" where
  "configure_members [] r = (True, r)"
| "configure_members (u # us) r =
     (case map_of (ues r) u of
        Some x \<Rightarrow>
          if rrc_state x = CONNECTED
          then configure_members us (r\<lparr>ues := dict_set u (x\<lparr>g_rnti := group_g_rnti r\<rparr>) (ues r)\<rparr>)
          else (False, r)
      | None \<Rightarrow> (False, r))"

definition configure_multicast_group :: "int list \<Rightarrow> rrc_layer \<Rightarrow> bool \<times> rrc_layer" where
  "configure_multicast_group ue_ids r =
     (if multicast_configured r then (False, r)
      else case configure_members ue_ids r of
          (True, r1) \<Rightarrow> (True, r1\<lparr>multicast_configured := True\<rparr>)
        | (False, r1) \<Rightarrow> (False, r1))"

definition schedule_multicast :: "mc_packet \<Rightarrow> mac_layer \<Rightarrow> bool \<times> mc_packet \<times> mac_layer" where
  "schedule_multicast p m =
     (if resource_blocks m \<ge> 20
      then (let m1 = m\<lparr>resource_blocks := resource_blocks m - 20\<rparr>;
                p1 = p\<lparr>pkt_slot := slot_number m1\<rparr>
            in (True, p1, m1\<lparr>slot_number := slot_number m1 + 1, resource_blocks := 100\<rparr>))
      else (False, p, m))"

text \<open>The \<open>n\<close>-th draw of the run decides whether the \<open>n\<close>-th reception succeeds.\<close>

fun transmit_multicast :: "(nat \<Rightarrow> bool) \<Rightarrow> nat \<Rightarrow> ue_rec list \<Rightarrow> (int \<times> bool) list \<Rightarrow> ue_rec list \<times> (int \<times> bool) list" where
  "transmit_multicast ok n [] results = ([], results)"
| "transmit_multicast ok n (x # xs) results =
     (let (xs', results') = transmit_multicast ok (n + 1) xs (dict_set (rec_ue_id x) (ok n) results)
      in (x\<lparr>last_ack := ok n\<rparr> # xs', results'))"

section \<open>The simulator\<close>

fun connect_all :: "int list \<Rightarrow> rrc_layer \<Rightarrow> rrc_layer" where
  "connect_all [] r = r"
| "connect_all (u # us) r = connect_all us (snd (connect_ue u r))"

definition setup_multicast_group :: "int list \<Rightarrow> gnb_sim \<Rightarrow> gnb_sim" where
  "setup_multicast_group ue_ids g =
     g\<lparr>rrc := snd (configure_multicast_group ue_ids (connect_all ue_ids (rrc g)))\<rparr>"

definition group_members :: "rrc_layer \<Rightarrow> ue_rec list" where
  "group_members r = filter (\<lambda>x. g_rnti x = group_g_rnti r) (map snd (ues r))"

text \<open>The terminals are objects: what the transmission writes shows in the table.\<close>

definition write_back :: "ue_rec list \<Rightarrow> rrc_layer \<Rightarrow> rrc_layer" where
  "write_back xs r = r\<lparr>ues := foldl (\<lambda>d x. dict_set (rec_ue_id x) x d) (ues r) xs\<rparr>"

definition send_multicast_packet :: "(nat \<Rightarrow> bool) \<Rightarrow> string \<Rightarrow> int \<Rightarrow> gnb_sim \<Rightarrow>
    ((int \<times> bool) list \<times> mc_packet option) \<times> gnb_sim" where
  "send_multicast_packet ok data sz g =
     (let g1 = g\<lparr>packet_counter := packet_counter g + 1\<rparr>;
          p = \<lparr>packet_id = packet_counter g1, pkt_data = data, pkt_size = sz, pkt_slot = 0\<rparr>
      in case schedule_multicast p (mac g1) of
           (False, _, m) \<Rightarrow> (([], None), g1\<lparr>mac := m\<rparr>)
         | (True, p1, m) \<Rightarrow>
             let members = group_members (rrc g1);
                 (xs, results) = transmit_multicast ok (phy_draws g1) members []
             in ((results, Some p1),
                 g1\<lparr>mac := m, rrc := write_back xs (rrc g1), phy_draws := phy_draws g1 + length members\<rparr>))"

fun send_packets :: "(nat \<Rightarrow> bool) \<Rightarrow> (string \<times> int) list \<Rightarrow> gnb_sim \<Rightarrow> ((int \<times> bool) list \<times> mc_packet option) list \<times> gnb_sim" where
  "send_packets ok [] g = ([], g)"
| "send_packets ok ((d, n) # ps) g =
     (let (r, g1) = send_multicast_packet ok d n g; (rs, g2) = send_packets ok ps g1 in (r # rs, g2))"

definition run_simulation :: "(nat \<Rightarrow> bool) \<Rightarrow> nat \<Rightarrow> ((int \<times> bool) list \<times> mc_packet option) list \<times> gnb_sim" where
  "run_simulation ok num_packets =
     send_packets ok (map (\<lambda>i. (''Multicast data packet '' @ py_dec (i + 1), 1000)) [0..<num_packets])
       (setup_multicast_group [1, 2, 3, 4, 5] gnb_init)"

section \<open>The table of terminals\<close>

lemma map_of_dict_set [simp]: "map_of (dict_set k v d) = (map_of d)(k \<mapsto> v)"
  by (induction d) auto

lemma keys_dict_set: "map fst (dict_set k v d) = (if k \<in> fst ` set d then map fst d else map fst d @ [k])"
  by (induction d) (auto simp: rev_image_eqI)

lemma distinct_dict_set: "distinct (map fst d) \<Longrightarrow> distinct (map fst (dict_set k v d))"
  by (auto simp: keys_dict_set)

definition rrc_ok :: "rrc_layer \<Rightarrow> bool" where
  "rrc_ok r \<longleftrightarrow> group_g_rnti r = 1000 \<and> distinct (map fst (ues r)) \<and>
     (\<forall>u x. map_of (ues r) u = Some x \<longrightarrow> rec_ue_id x = u \<and> (g_rnti x = group_g_rnti r \<longrightarrow> rrc_state x = CONNECTED))"

definition member :: "rrc_layer \<Rightarrow> int \<Rightarrow> bool" where
  "member r u \<longleftrightarrow> (\<exists>x. map_of (ues r) u = Some x \<and> g_rnti x = group_g_rnti r)"

definition connected :: "rrc_layer \<Rightarrow> int \<Rightarrow> bool" where
  "connected r u \<longleftrightarrow> (\<exists>x. map_of (ues r) u = Some x \<and> rrc_state x = CONNECTED)"

lemma rrc_ok_dict_set:
  "rrc_ok r \<Longrightarrow> rec_ue_id x = u \<Longrightarrow> (g_rnti x = 1000 \<Longrightarrow> rrc_state x = CONNECTED) \<Longrightarrow> rrc_ok (r\<lparr>ues := dict_set u x (ues r)\<rparr>)"
  by (auto simp: rrc_ok_def distinct_dict_set)

lemma connect_ue_ok:
  assumes "rrc_ok r"
  shows "rrc_ok (snd (connect_ue u r)) \<and> connected (snd (connect_ue u r)) u \<and>
    (\<forall>v. connected r v \<longrightarrow> connected (snd (connect_ue u r)) v) \<and>
    multicast_configured (snd (connect_ue u r)) = multicast_configured r"
proof (cases "map_of (ues r) u")
  case None
  let ?x = "\<lparr>rec_ue_id = u, rrc_state = IDLE, g_rnti = 0, last_ack = False\<rparr>"
  let ?r = "r\<lparr>ues := dict_set u ?x (ues r)\<rparr>"
  have "rrc_ok ?r" using assms by (intro rrc_ok_dict_set) simp_all
  from rrc_ok_dict_set [OF this, of "?x\<lparr>rrc_state := CONNECTED\<rparr>" u] None show ?thesis
    by (simp add: connect_ue_def connected_def)
next
  case (Some x)
  have x: "rec_ue_id x = u" "rrc_state x \<noteq> CONNECTED \<Longrightarrow> rrc_state x = IDLE"
    using assms Some by (auto simp: rrc_ok_def intro: rrc_state_val.exhaust)
  show ?thesis
  proof (cases "rrc_state x = IDLE")
    case True
    with Some assms x rrc_ok_dict_set [OF assms, of "x\<lparr>rrc_state := CONNECTED\<rparr>" u] show ?thesis
      by (simp add: connect_ue_def connected_def)
  next
    case False
    with Some assms x show ?thesis by (auto simp: connect_ue_def connected_def)
  qed
qed

lemma connect_all_ok:
  assumes "rrc_ok r"
  shows "rrc_ok (connect_all us r) \<and> (\<forall>u\<in>set us. connected (connect_all us r) u) \<and>
    (\<forall>v. connected r v \<longrightarrow> connected (connect_all us r) v) \<and>
    multicast_configured (connect_all us r) = multicast_configured r"
  using assms
proof (induction us arbitrary: r)
  case (Cons u us)
  with connect_ue_ok [OF Cons.prems, of u] show ?case by auto
qed simp

lemma configure_step_ok:
  fixes r x u
  defines "r1 \<equiv> r\<lparr>ues := dict_set u (x\<lparr>g_rnti := group_g_rnti r\<rparr>) (ues r)\<rparr>"
  assumes "rrc_ok r" "map_of (ues r) u = Some x" "rrc_state x = CONNECTED"
  shows "rrc_ok r1" "member r1 u" "\<And>v. member r v \<Longrightarrow> member r1 v" "connected r1 = connected r"
proof -
  have "rec_ue_id x = u" using assms(2,3) by (simp add: rrc_ok_def)
  then show "rrc_ok r1" unfolding r1_def using assms(4) by (intro rrc_ok_dict_set [OF assms(2)]) simp_all
  show "member r1 u" "\<And>v. member r v \<Longrightarrow> member r1 v" by (auto simp: r1_def member_def)
  show "connected r1 = connected r" using assms(3,4) by (auto simp: r1_def connected_def fun_eq_iff)
qed

lemma configure_members_ok:
  assumes "rrc_ok r"
  shows "rrc_ok (snd (configure_members us r)) \<and> connected (snd (configure_members us r)) = connected r \<and>
    (\<forall>v. member r v \<longrightarrow> member (snd (configure_members us r)) v) \<and>
    multicast_configured (snd (configure_members us r)) = multicast_configured r"
  using assms
proof (induction us arbitrary: r)
  case (Cons u us)
  show ?case
  proof (cases "map_of (ues r) u")
    case (Some x)
    show ?thesis
    proof (cases "rrc_state x = CONNECTED")
      case True
      note S = configure_step_ok [OF Cons.prems Some True]
      from Cons.IH [OF S(1)] S(3,4) Some True show ?thesis by auto
    qed (use Some Cons.prems in simp)
  qed (use Cons.prems in simp)
qed simp

lemma configure_members_all:
  assumes "rrc_ok r" "\<forall>u\<in>set us. connected r u"
  shows "fst (configure_members (us @ vs) r) = fst (configure_members vs (snd (configure_members us r))) \<and>
    snd (configure_members (us @ vs) r) = snd (configure_members vs (snd (configure_members us r))) \<and>
    fst (configure_members us r) \<and> (\<forall>u\<in>set us. member (snd (configure_members us r)) u)"
  using assms
proof (induction us arbitrary: r)
  case (Cons u us)
  then obtain x where x: "map_of (ues r) u = Some x" "rrc_state x = CONNECTED" by (auto simp: connected_def)
  note S = configure_step_ok [OF Cons.prems(1) x]
  let ?r = "r\<lparr>ues := dict_set u (x\<lparr>g_rnti := group_g_rnti r\<rparr>) (ues r)\<rparr>"
  have "\<forall>v\<in>set us. connected ?r v" using Cons.prems(2) S(4) by simp
  with Cons.IH [OF S(1)] configure_members_ok [OF S(1), of us] S(2) x show ?case by auto
qed simp

section \<open>Transmissions\<close>

definition acked :: "(nat \<Rightarrow> bool) \<Rightarrow> nat \<Rightarrow> ue_rec list \<Rightarrow> ue_rec list" where
  "acked ok n xs = map2 (\<lambda>x i. x\<lparr>last_ack := ok i\<rparr>) xs [n..<n + length xs]"

lemma acked_Cons: "acked ok n (x # xs) = x\<lparr>last_ack := ok n\<rparr> # acked ok (n + 1) xs"
  by (simp add: acked_def upt_conv_Cons del: upt_Suc)

lemma acked_props:
  "map rec_ue_id (acked ok n xs) = map rec_ue_id xs"
  "y \<in> set (acked ok n xs) \<Longrightarrow> \<exists>x\<in>set xs. \<exists>b. y = x\<lparr>last_ack := b\<rparr>"
  by (induction xs arbitrary: n) (auto simp: acked_Cons acked_def [of _ _ "[]"])

lemma dict_set_new: "k \<notin> fst ` set d \<Longrightarrow> dict_set k v d = d @ [(k, v)]"
  by (induction d) auto

lemma transmit_eq:
  assumes "distinct (map rec_ue_id xs)" "\<forall>x\<in>set xs. rec_ue_id x \<notin> fst ` set results"
  shows "transmit_multicast ok n xs results =
    (acked ok n xs, results @ map (\<lambda>x. (rec_ue_id x, last_ack x)) (acked ok n xs))"
  using assms
proof (induction xs arbitrary: n results)
  case Nil
  show ?case by (simp add: acked_def)
next
  case (Cons x xs)
  then have "dict_set (rec_ue_id x) (ok n) results = results @ [(rec_ue_id x, ok n)]" by (simp add: dict_set_new)
  moreover have "\<forall>y\<in>set xs. rec_ue_id y \<notin> fst ` set (results @ [(rec_ue_id x, ok n)])" using Cons.prems by (auto simp: rev_image_eqI)
  ultimately show ?case using Cons by (simp add: acked_Cons)
qed

lemma write_back_other:
  "u \<notin> rec_ue_id ` set xs \<Longrightarrow> map_of (ues (write_back xs r)) u = map_of (ues r) u"
  unfolding write_back_def by (induction xs arbitrary: r rule: rev_induct) auto

lemma write_back_member:
  "distinct (map rec_ue_id xs) \<Longrightarrow> x \<in> set xs \<Longrightarrow> map_of (ues (write_back xs r)) (rec_ue_id x) = Some x"
  unfolding write_back_def by (induction xs rule: rev_induct) (auto simp: rev_image_eqI)

lemma distinct_write_back:
  "distinct (map fst (ues r)) \<Longrightarrow> distinct (map fst (ues (write_back xs r)))"
  unfolding write_back_def by (induction xs rule: rev_induct) (auto simp: distinct_dict_set)

lemma write_back_rest [simp]:
  "group_g_rnti (write_back xs r) = group_g_rnti r" "multicast_configured (write_back xs r) = multicast_configured r"
  by (simp_all add: write_back_def)

lemma group_members_ids:
  assumes "rrc_ok r"
  shows "x \<in> set (group_members r) \<Longrightarrow> map_of (ues r) (rec_ue_id x) = Some x \<and> rrc_state x = CONNECTED"
    and "distinct (map rec_ue_id (group_members r))"
    and "rec_ue_id ` set (group_members r) = {u. member r u}"
proof -
  have ids: "\<And>u x. (u, x) \<in> set (ues r) \<longleftrightarrow> map_of (ues r) u = Some x"
    "\<And>u x. map_of (ues r) u = Some x \<Longrightarrow> rec_ue_id x = u" using assms by (auto simp: rrc_ok_def)
  then have "map rec_ue_id (map snd (ues r)) = map fst (ues r)" by auto
  moreover have "distinct (map fst (ues r))" using assms by (simp add: rrc_ok_def)
  ultimately have d: "distinct (map rec_ue_id (map snd (ues r)))" by (simp only:)
  show "x \<in> set (group_members r) \<Longrightarrow> map_of (ues r) (rec_ue_id x) = Some x \<and> rrc_state x = CONNECTED"
    using assms ids by (auto simp: group_members_def rrc_ok_def)
  show "distinct (map rec_ue_id (group_members r))" using d unfolding group_members_def by (rule distinct_map_filter)
  show "rec_ue_id ` set (group_members r) = {u. member r u}"
    using ids by (auto simp: group_members_def member_def image_iff) (metis ids snd_conv)+
qed

lemma write_back_acked_ok:
  assumes "rrc_ok r"
  shows "rrc_ok (write_back (acked ok n (group_members r)) r)"
proof -
  let ?xs = "acked ok n (group_members r)"
  have d: "distinct (map rec_ue_id ?xs)" using group_members_ids(2) [OF assms] by (simp add: acked_props)
  have "rec_ue_id x = u \<and> (g_rnti x = 1000 \<longrightarrow> rrc_state x = CONNECTED)"
    if u: "map_of (ues (write_back ?xs r)) u = Some x" for u x
  proof (cases "u \<in> rec_ue_id ` set ?xs")
    case True
    then obtain y where y: "y \<in> set ?xs" "u = rec_ue_id y" by blast
    with write_back_member [OF d y(1), of r] u have "x = y" by simp
    with y acked_props(2) [OF y(1)] group_members_ids(1) [OF assms] show ?thesis by auto
  next
    case False
    with u assms show ?thesis by (auto simp: write_back_other rrc_ok_def)
  qed
  then show ?thesis using assms distinct_write_back [of r ?xs] by (auto simp: rrc_ok_def)
qed

section \<open>Runs of the simulator\<close>

inductive sim_step :: "gnb_sim \<Rightarrow> gnb_sim \<Rightarrow> bool" where
  connect: "sim_step g (g\<lparr>rrc := snd (connect_ue u (rrc g))\<rparr>)"
| configure: "sim_step g (g\<lparr>rrc := snd (configure_multicast_group us (rrc g))\<rparr>)"
| set_up: "sim_step g (setup_multicast_group us g)"
| send: "sim_step g (snd (send_multicast_packet ok data sz g))"

definition sim_inv :: "gnb_sim \<Rightarrow> bool" where
  "sim_inv g \<longleftrightarrow> rrc_ok (rrc g) \<and> resource_blocks (mac g) = 100 \<and> slot_number (mac g) = packet_counter g"

lemma configure_group_ok:
  "rrc_ok r \<Longrightarrow> rrc_ok (snd (configure_multicast_group us r))"
  using configure_members_ok [of r us]
  by (auto simp: configure_multicast_group_def rrc_ok_def split: prod.splits bool.splits)

lemma send_eq:
  fixes ok
  assumes "sim_inv g"
  defines "xs \<equiv> acked ok (phy_draws g) (group_members (rrc g))"
  shows "send_multicast_packet ok data sz g =
    ((map (\<lambda>x. (rec_ue_id x, last_ack x)) xs,
      Some \<lparr>packet_id = packet_counter g + 1, pkt_data = data, pkt_size = sz, pkt_slot = packet_counter g\<rparr>),
     g\<lparr>packet_counter := packet_counter g + 1, mac := (mac g)\<lparr>resource_blocks := 100, slot_number := packet_counter g + 1\<rparr>,
       rrc := write_back xs (rrc g), phy_draws := phy_draws g + length (group_members (rrc g))\<rparr>)"
  using assms(1) transmit_eq [OF group_members_ids(2), of "rrc g" "[]" ok "phy_draws g"]
  by (simp add: send_multicast_packet_def schedule_multicast_def sim_inv_def xs_def Let_def)

lemma sim_inv_step: "sim_inv g \<Longrightarrow> sim_step g g' \<Longrightarrow> sim_inv g'"
proof (erule sim_step.cases)
  fix g1 ok data sz
  assume "sim_inv g" "g = g1" "g' = snd (send_multicast_packet ok data sz g1)"
  then show "sim_inv g'" by (simp add: send_eq) (simp add: sim_inv_def write_back_acked_ok)
qed (auto simp: sim_inv_def connect_ue_ok configure_group_ok setup_multicast_group_def connect_all_ok)

lemma gnb_init_inv: "sim_inv gnb_init"
  by (simp add: sim_inv_def gnb_init_def rrc_ok_def)

interpretation sim: step_invariant sim_step "\<lambda>g. g = gnb_init" sim_inv
  by unfold_locales (auto intro: gnb_init_inv sim_inv_step)

text \<open>
  C25: every multicast packet is sent to exactly the members of the group. In every reachable
  state of the base station a packet is scheduled, in the slot after that of the packet before
  it; the result has one entry for each terminal with the identity of the group, all of them
  connected, and it agrees with the acknowledgement stored for the terminal.
\<close>

theorem multicast_delivery:
  assumes "sim_step\<^sup>*\<^sup>* gnb_init g"
  shows "\<exists>results p g'. send_multicast_packet ok data sz g = ((results, Some p), g') \<and>
    packet_id p = packet_counter g + 1 \<and> pkt_slot p = packet_counter g \<and>
    distinct (map fst results) \<and> fst ` set results = {u. member (rrc g) u} \<and>
    (\<forall>u b. (u, b) \<in> set results \<longrightarrow> connected (rrc g) u \<and>
       (\<exists>x. map_of (ues (rrc g')) u = Some x \<and> last_ack x = b))"
proof -
  have I: "sim_inv g" using sim.reach_inv [OF refl assms] .
  then have ok: "rrc_ok (rrc g)" by (simp add: sim_inv_def)
  let ?ms = "group_members (rrc g)" and ?xs = "acked ok (phy_draws g) (group_members (rrc g))"
  have d: "distinct (map rec_ue_id ?xs)" using group_members_ids(2) [OF ok] by (simp add: acked_props)
  have ids: "rec_ue_id ` set ?xs = {u. member (rrc g) u}"
    using group_members_ids(3) [OF ok] by (metis acked_props(1) list.set_map)
  have "connected (rrc g) (rec_ue_id x)" if "x \<in> set ?xs" for x
    using acked_props(2) [OF that] group_members_ids(1) [OF ok] by (auto simp: connected_def)
  with d ids show ?thesis
    by (auto simp: send_eq [OF I] comp_def image_image write_back_member [OF d])
qed

definition ex_group :: gnb_sim where
  "ex_group = setup_multicast_group [7, 3] gnb_init"

theorem multicast_delivery_witness:
  "\<exists>results p g'. send_multicast_packet (\<lambda>n. n = 0) ''data'' 1000 ex_group = ((results, Some p), g') \<and>
    packet_id p = packet_counter ex_group + 1 \<and> fst ` set results = {u. member (rrc ex_group) u}"
proof -
  have "sim_step\<^sup>*\<^sup>* gnb_init ex_group" unfolding ex_group_def by (intro r_into_rtranclp sim_step.set_up)
  from multicast_delivery [OF this, of "\<lambda>n. n = 0" "''data''" 1000] show ?thesis by blast
qed

text \<open>
  C40: configuring a group succeeds for connected terminals and is not undone when it fails. If
  all terminals of the list are connected they all become members and the group is configured.
  If one is not connected the result is a failure and the group stays unconfigured, but the
  terminals before it have become members and receive what is sent to the group.
\<close>

theorem multicast_configure:
  assumes "sim_step\<^sup>*\<^sup>* gnb_init g" "\<not> multicast_configured (rrc g)" "\<forall>u\<in>set us. connected (rrc g) u"
  shows "(\<exists>r. configure_multicast_group us (rrc g) = (True, r) \<and> multicast_configured r \<and> (\<forall>u\<in>set us. member r u)) \<and>
    (\<not> connected (rrc g) v \<longrightarrow>
      (\<exists>r. configure_multicast_group (us @ v # vs) (rrc g) = (False, r) \<and> \<not> multicast_configured r \<and>
         (\<forall>u\<in>set us. member r u)))"
proof -
  have ok: "rrc_ok (rrc g)" using sim.reach_inv [OF refl assms(1)] by (simp add: sim_inv_def)
  note A = configure_members_all [OF ok assms(3)] and B = configure_members_ok [OF ok, of us]
  obtain r where r: "configure_members us (rrc g) = (True, r)" using A by (metis prod.collapse)
  have "configure_members (v # vs) r = (False, r)" if "\<not> connected (rrc g) v"
  proof -
    have "\<not> connected r v" using B r that by simp
    then show ?thesis by (auto simp: connected_def split: option.split)
  qed
  moreover have "configure_members (us @ v # vs) (rrc g) = configure_members (v # vs) r"
    using A [of "v # vs"] r by (metis prod.collapse snd_conv)
  ultimately show ?thesis
    using A [of "[]"] B r assms(2) by (auto simp: configure_multicast_group_def member_def)
qed

theorem multicast_configure_witness:
  "\<exists>r. configure_multicast_group ([7] @ 3 # []) (rrc (gnb_init\<lparr>rrc := snd (connect_ue 7 (rrc gnb_init))\<rparr>)) = (False, r) \<and>
     \<not> multicast_configured r \<and> member r 7"
proof -
  let ?g = "gnb_init\<lparr>rrc := snd (connect_ue 7 (rrc gnb_init))\<rparr>"
  have "sim_step\<^sup>*\<^sup>* gnb_init ?g" by (intro r_into_rtranclp sim_step.connect)
  moreover have "\<not> multicast_configured (rrc ?g)" "connected (rrc ?g) 7" "\<not> connected (rrc ?g) 3"
    by (simp_all add: gnb_init_def connect_ue_def connected_def)
  ultimately show ?thesis using multicast_configure [of ?g "[7]" 3 "[]"] by auto
qed

end
