(* ===== verification/Algorithms.thy ===== *)
theory Algorithms
  imports Compat
begin

text \<open>
  The tables of supported algorithms and the lookups by name: ciphers (\<^verbatim>\<open>cipher.c\<close>), message
  authentication codes (\<^verbatim>\<open>mac.c\<close>), digests (\<^verbatim>\<open>digest-openssl.c\<close>), key exchange methods
  (\<^verbatim>\<open>kex.c\<close>) and key types (\<^verbatim>\<open>sshkey.c\<close> with the entries of \<^verbatim>\<open>ssh-*.c\<close>). The build is the default
  one: OpenSSL with elliptic curves, security keys and sntrup761, without XMSS. A lookup that
  returns a null pointer in the code returns \<open>None\<close>. The lemmas give the meaning of the loops
  over comma separated names and the facts about the tables that negotiation relies on.
\<close>

section \<open>Lists of names\<close>

text \<open>
  The loop that \<^verbatim>\<open>ciphers_valid\<close>, \<^verbatim>\<open>mac_valid\<close>, \<^verbatim>\<open>kex_names_valid\<close> and \<^verbatim>\<open>sshkey_names_valid2\<close>
  share: every token up to the first empty one passes a test.
\<close>

function names_loop :: "(string \<Rightarrow> bool) \<Rightarrow> string option \<Rightarrow> bool" where
  "names_loop ok cp =
     (case strsep cp '','' of
        (None, _) \<Rightarrow> True
      | (Some p, cp') \<Rightarrow> if p = [] then True else if ok p then names_loop ok cp' else False)"
  by pat_completeness auto
termination
  by (relation "measure (\<lambda>(ok, cp). strsep_left cp)") (auto dest: strsep_left_less [OF sym])

declare names_loop.simps [simp del]

definition names_valid :: "allocator \<Rightarrow> (string \<Rightarrow> bool) \<Rightarrow> string option \<Rightarrow> bool" where
  "names_valid am ok names =
     (case names of
        None \<Rightarrow> False
      | Some s \<Rightarrow> if s = [] then False else if am (of_nat (length s + 1)) = NULL then False else names_loop ok (Some s))"

lemma names_loop_tokens:
  "\<forall>x\<in>set xs. CHR '','' \<notin> set x \<Longrightarrow>
     names_loop ok (tokens CHR '','' xs) \<longleftrightarrow> (\<forall>x\<in>set (takeWhile (\<lambda>x. x \<noteq> []) xs). ok x)"
proof (induction xs)
  case (Cons x xs)
  then show ?case by (auto simp: names_loop.simps [of _ "tokens _ _"] strsep_tokens)
qed (simp add: names_loop.simps [of _ "tokens _ _"] strsep_tokens)

lemma names_loop_eq: "names_loop ok (Some s) \<longleftrightarrow> (\<forall>x\<in>set (proposal_names s). ok x)"
  using names_loop_tokens [of "split_on CHR '','' s" ok] split_on_items [of _ s]
  by (simp add: proposal_names_def tokens_def)

text \<open>The names of a table with a separator between them, in a buffer that grows by each name.\<close>

fun alg_list :: "allocator \<Rightarrow> char \<Rightarrow> string list \<Rightarrow> string option \<Rightarrow> string option" where
  "alg_list am sep [] ret = ret"
| "alg_list am sep (name # names) ret =
     (let ret1 = (case ret of None \<Rightarrow> [] | Some r \<Rightarrow> r @ [sep])
      in if am (of_nat (length ret1 + length name + 2)) = NULL then None
         else alg_list am sep names (Some (ret1 @ name)))"

lemma alg_list_join:
  assumes "\<And>n. am n \<noteq> NULL"
  shows "alg_list am sep names ret =
    (case ret of None \<Rightarrow> if names = [] then None else Some (join sep names)
     | Some r \<Rightarrow> Some (join sep (r # names)))"
proof (induction names arbitrary: ret)
  case (Cons name names)
  have "join sep ((r @ sep # name) # names) = r @ sep # join sep (name # names)" for r
    by (cases names) auto
  with Cons assms show ?case by (cases ret) (auto simp: Let_def)
qed (auto split: option.split)

section \<open>Ciphers\<close>

datatype cflag = CFLAG_CBC | CFLAG_CHACHAPOLY | CFLAG_AESCTR | CFLAG_NONE

abbreviation CFLAG_INTERNAL :: cflag where "CFLAG_INTERNAL \<equiv> CFLAG_NONE"

record sshcipher =
  ciph_name :: string
  ciph_block_size :: u32
  ciph_key_len :: u32
  ciph_iv_len :: u32
  ciph_auth_len :: u32
  ciph_flags :: "cflag set"

definition cipher_entry :: "string \<Rightarrow> u32 \<Rightarrow> u32 \<Rightarrow> u32 \<Rightarrow> u32 \<Rightarrow> cflag set \<Rightarrow> sshcipher" where
  "cipher_entry n b k i a f =
     \<lparr>ciph_name = n, ciph_block_size = b, ciph_key_len = k, ciph_iv_len = i, ciph_auth_len = a, ciph_flags = f\<rparr>"

definition ciphers :: "sshcipher list" where
  "ciphers =
    [cipher_entry ''3des-cbc'' 8 24 0 0 {CFLAG_CBC},
     cipher_entry ''aes128-cbc'' 16 16 0 0 {CFLAG_CBC},
     cipher_entry ''aes192-cbc'' 16 24 0 0 {CFLAG_CBC},
     cipher_entry ''aes256-cbc'' 16 32 0 0 {CFLAG_CBC},
     cipher_entry ''aes128-ctr'' 16 16 0 0 {},
     cipher_entry ''aes192-ctr'' 16 24 0 0 {},
     cipher_entry ''aes256-ctr'' 16 32 0 0 {},
     cipher_entry ''aes128-gcm@openssh.com'' 16 16 12 16 {},
     cipher_entry ''aes256-gcm@openssh.com'' 16 32 12 16 {},
     cipher_entry ''chacha20-poly1305@openssh.com'' 8 64 0 16 {CFLAG_CHACHAPOLY},
     cipher_entry ''none'' 8 0 0 0 {CFLAG_NONE}]"

definition cipher_alg_list :: "allocator \<Rightarrow> char \<Rightarrow> bool \<Rightarrow> string option" where
  "cipher_alg_list am sep auth_only =
     alg_list am sep (map ciph_name (filter (\<lambda>c. CFLAG_INTERNAL \<notin> ciph_flags c \<and> \<not> (auth_only \<and> ciph_auth_len c = 0)) ciphers)) None"

definition compression_alg_list :: "bool \<Rightarrow> string" where
  "compression_alg_list compression =
     (if compression then ''zlib@openssh.com,zlib,none'' else ''none,zlib@openssh.com,zlib'')"

definition cipher_blocksize :: "sshcipher \<Rightarrow> u32" where
  "cipher_blocksize c = ciph_block_size c"

definition cipher_keylen :: "sshcipher \<Rightarrow> u32" where
  "cipher_keylen c = ciph_key_len c"

definition cipher_seclen :: "sshcipher \<Rightarrow> u32" where
  "cipher_seclen c = (if ciph_name c = ''3des-cbc'' then 14 else cipher_keylen c)"

definition cipher_authlen :: "sshcipher \<Rightarrow> u32" where
  "cipher_authlen c = ciph_auth_len c"

definition cipher_ivlen :: "sshcipher \<Rightarrow> u32" where
  "cipher_ivlen c =
     (if ciph_iv_len c \<noteq> 0 \<or> CFLAG_CHACHAPOLY \<in> ciph_flags c then ciph_iv_len c else ciph_block_size c)"

definition cipher_is_cbc :: "sshcipher \<Rightarrow> bool" where
  "cipher_is_cbc c \<longleftrightarrow> CFLAG_CBC \<in> ciph_flags c"

definition cipher_by_name :: "string \<Rightarrow> sshcipher option" where
  "cipher_by_name name = find (\<lambda>c. ciph_name c = name) ciphers"

definition ciphers_valid :: "allocator \<Rightarrow> string option \<Rightarrow> bool" where
  "ciphers_valid am names =
     names_valid am (\<lambda>p. case cipher_by_name p of None \<Rightarrow> False | Some c \<Rightarrow> CFLAG_INTERNAL \<notin> ciph_flags c) names"

text \<open>Block sizes are 8 or 16, and nothing in the table is larger than 64 bytes.\<close>

lemma cipher_by_name_in: "cipher_by_name n = Some c \<Longrightarrow> c \<in> set ciphers \<and> ciph_name c = n"
  by (auto simp: cipher_by_name_def find_Some_iff)

lemma cipher_sizes:
  "c \<in> set ciphers \<Longrightarrow> ciph_block_size c \<in> {8, 16} \<and> ciph_key_len c \<le> 64 \<and> cipher_ivlen c \<le> 16 \<and> ciph_auth_len c \<in> {0, 16}"
  by (auto simp: ciphers_def cipher_entry_def cipher_ivlen_def)

section \<open>Digests and message authentication codes\<close>

datatype digest_alg = SSH_DIGEST_MD5 | SSH_DIGEST_SHA1 | SSH_DIGEST_SHA256 | SSH_DIGEST_SHA384 | SSH_DIGEST_SHA512

fun ssh_digest_bytes :: "digest_alg \<Rightarrow> size_t" where
  "ssh_digest_bytes SSH_DIGEST_MD5 = 16"
| "ssh_digest_bytes SSH_DIGEST_SHA1 = 20"
| "ssh_digest_bytes SSH_DIGEST_SHA256 = 32"
| "ssh_digest_bytes SSH_DIGEST_SHA384 = 48"
| "ssh_digest_bytes SSH_DIGEST_SHA512 = 64"

definition ssh_hmac_bytes :: "digest_alg \<Rightarrow> size_t" where
  "ssh_hmac_bytes alg = ssh_digest_bytes alg"

text \<open>
  The block sizes are those of the table of \<^verbatim>\<open>digest-libc.c\<close>. In the build with OpenSSL the function asks
  the library (\<^verbatim>\<open>EVP_MD_CTX_block_size\<close>), which documents the same sizes for these digests.
\<close>

fun ssh_digest_blocksize :: "digest_alg \<Rightarrow> size_t" where
  "ssh_digest_blocksize SSH_DIGEST_MD5 = 64"
| "ssh_digest_blocksize SSH_DIGEST_SHA1 = 64"
| "ssh_digest_blocksize SSH_DIGEST_SHA256 = 64"
| "ssh_digest_blocksize SSH_DIGEST_SHA384 = 128"
| "ssh_digest_blocksize SSH_DIGEST_SHA512 = 128"

text \<open>A digest context is its algorithm, here that of the whole record, with the bytes it has absorbed.\<close>

record ssh_hmac_ctx =
  hc_alg :: digest_alg
  hc_ictx :: "byte list"
  hc_octx :: "byte list"
  hc_digest :: "byte list"
  hc_buf :: "byte list"

definition ssh_hmac_start :: "digest_alg \<Rightarrow> ssh_hmac_ctx" where
  "ssh_hmac_start alg =
     \<lparr>hc_alg = alg, hc_ictx = [], hc_octx = [], hc_digest = [], hc_buf = replicate (unat (ssh_digest_blocksize alg)) 0\<rparr>"

datatype mac_type = SSH_DIGEST | SSH_UMAC | SSH_UMAC128

record macalg =
  ma_name :: string
  ma_type :: mac_type
  ma_alg :: digest_alg
  ma_truncatebits :: u32
  ma_key_len :: u32
  ma_len :: u32
  ma_etm :: bool

definition mac_entry :: "string \<Rightarrow> mac_type \<Rightarrow> digest_alg \<Rightarrow> u32 \<Rightarrow> u32 \<Rightarrow> u32 \<Rightarrow> bool \<Rightarrow> macalg" where
  "mac_entry n t a tb k l e =
     \<lparr>ma_name = n, ma_type = t, ma_alg = a, ma_truncatebits = tb, ma_key_len = k, ma_len = l, ma_etm = e\<rparr>"

text \<open>The entries for UMAC have digest number 0, which they do not use.\<close>

definition macs :: "macalg list" where
  "macs =
    [mac_entry ''hmac-sha1'' SSH_DIGEST SSH_DIGEST_SHA1 0 0 0 False,
     mac_entry ''hmac-sha1-96'' SSH_DIGEST SSH_DIGEST_SHA1 96 0 0 False,
     mac_entry ''hmac-sha2-256'' SSH_DIGEST SSH_DIGEST_SHA256 0 0 0 False,
     mac_entry ''hmac-sha2-512'' SSH_DIGEST SSH_DIGEST_SHA512 0 0 0 False,
     mac_entry ''hmac-md5'' SSH_DIGEST SSH_DIGEST_MD5 0 0 0 False,
     mac_entry ''hmac-md5-96'' SSH_DIGEST SSH_DIGEST_MD5 96 0 0 False,
     mac_entry ''umac-64@openssh.com'' SSH_UMAC SSH_DIGEST_MD5 0 128 64 False,
     mac_entry ''umac-128@openssh.com'' SSH_UMAC128 SSH_DIGEST_MD5 0 128 128 False,
     mac_entry ''hmac-sha1-etm@openssh.com'' SSH_DIGEST SSH_DIGEST_SHA1 0 0 0 True,
     mac_entry ''hmac-sha1-96-etm@openssh.com'' SSH_DIGEST SSH_DIGEST_SHA1 96 0 0 True,
     mac_entry ''hmac-sha2-256-etm@openssh.com'' SSH_DIGEST SSH_DIGEST_SHA256 0 0 0 True,
     mac_entry ''hmac-sha2-512-etm@openssh.com'' SSH_DIGEST SSH_DIGEST_SHA512 0 0 0 True,
     mac_entry ''hmac-md5-etm@openssh.com'' SSH_DIGEST SSH_DIGEST_MD5 0 0 0 True,
     mac_entry ''hmac-md5-96-etm@openssh.com'' SSH_DIGEST SSH_DIGEST_MD5 96 0 0 True,
     mac_entry ''umac-64-etm@openssh.com'' SSH_UMAC SSH_DIGEST_MD5 0 128 64 True,
     mac_entry ''umac-128-etm@openssh.com'' SSH_UMAC128 SSH_DIGEST_MD5 0 128 128 True]"

text \<open>A UMAC context is the key it was made with.\<close>

record sshmac =
  sm_name :: "string option"
  sm_enabled :: bool
  sm_mac_len :: u32
  sm_key :: "byte list option"
  sm_key_len :: u32
  sm_type :: mac_type
  sm_etm :: bool
  sm_hmac_ctx :: "ssh_hmac_ctx option"
  sm_umac_ctx :: "byte list option"

definition sshmac_zero :: sshmac where
  "sshmac_zero = \<lparr>sm_name = None, sm_enabled = False, sm_mac_len = 0, sm_key = None, sm_key_len = 0,
     sm_type = SSH_DIGEST, sm_etm = False, sm_hmac_ctx = None, sm_umac_ctx = None\<rparr>"

definition mac_alg_list :: "allocator \<Rightarrow> char \<Rightarrow> string option" where
  "mac_alg_list am sep = alg_list am sep (map ma_name macs) None"

text \<open>\<open>hs\<close> says whether \<^verbatim>\<open>ssh_hmac_start\<close> gets the memory of a context for a digest.\<close>

definition mac_setup_by_alg :: "(digest_alg \<Rightarrow> bool) \<Rightarrow> sshmac \<Rightarrow> macalg \<Rightarrow> unit res \<times> sshmac" where
  "mac_setup_by_alg hs m alg =
     (let m1 = m\<lparr>sm_type := ma_type alg\<rparr> in
      if ma_type alg = SSH_DIGEST \<and> \<not> hs (ma_alg alg) then (Inl SSH_ERR_ALLOC_FAIL, m1\<lparr>sm_hmac_ctx := None\<rparr>)
      else
        let m2 = (if ma_type alg = SSH_DIGEST
                  then m1\<lparr>sm_hmac_ctx := Some (ssh_hmac_start (ma_alg alg)), sm_mac_len := ucast (ssh_hmac_bytes (ma_alg alg)),
                          sm_key_len := ucast (ssh_hmac_bytes (ma_alg alg))\<rparr>
                  else m1\<lparr>sm_mac_len := ma_len alg div 8, sm_key_len := ma_key_len alg div 8, sm_umac_ctx := None\<rparr>);
            m3 = (if ma_truncatebits alg \<noteq> 0 then m2\<lparr>sm_mac_len := ma_truncatebits alg div 8\<rparr> else m2)
        in (Inr (), m3\<lparr>sm_etm := ma_etm alg\<rparr>))"

definition mac_by_name :: "string \<Rightarrow> macalg option" where
  "mac_by_name name = find (\<lambda>a. ma_name a = name) macs"

definition mac_setup :: "(digest_alg \<Rightarrow> bool) \<Rightarrow> sshmac \<Rightarrow> string \<Rightarrow> unit res \<times> sshmac" where
  "mac_setup hs m name =
     (case mac_by_name name of
        None \<Rightarrow> (Inl SSH_ERR_INVALID_ARGUMENT, m)
      | Some a \<Rightarrow> mac_setup_by_alg hs m a)"

definition mac_valid :: "allocator \<Rightarrow> string option \<Rightarrow> bool" where
  "mac_valid am names = names_valid am (\<lambda>p. mac_by_name p \<noteq> None) names"

lemma mac_by_name_in: "mac_by_name n = Some a \<Longrightarrow> a \<in> set macs \<and> ma_name a = n"
  by (auto simp: mac_by_name_def find_Some_iff)

lemma mac_setup_sizes:
  assumes "mac_setup hs m name = (Inr (), m')"
  shows "sm_mac_len m' \<in> {8, 12, 16, 20, 32, 64} \<and> sm_key_len m' \<le> 64"
proof -
  obtain a where a: "a \<in> set macs" "mac_setup_by_alg hs m a = (Inr (), m')"
    using assms by (auto simp: mac_setup_def dest: mac_by_name_in split: option.splits)
  then show ?thesis
    by (auto simp: macs_def mac_entry_def mac_setup_by_alg_def ssh_hmac_bytes_def Let_def split: if_splits)
qed

section \<open>Key exchange methods\<close>

datatype kex_exchange =
    KEX_DH_GRP1_SHA1 | KEX_DH_GRP14_SHA1 | KEX_DH_GRP14_SHA256 | KEX_DH_GRP16_SHA512 | KEX_DH_GRP18_SHA512
  | KEX_DH_GEX_SHA1 | KEX_DH_GEX_SHA256 | KEX_ECDH_SHA2 | KEX_C25519_SHA256 | KEX_KEM_SNTRUP761X25519_SHA512

text \<open>The curve numbers of OpenSSL; 0 is no curve.\<close>

abbreviation (input) NID_X9_62_prime256v1 :: int where "NID_X9_62_prime256v1 \<equiv> 415"
abbreviation (input) NID_secp384r1 :: int where "NID_secp384r1 \<equiv> 715"
abbreviation (input) NID_secp521r1 :: int where "NID_secp521r1 \<equiv> 716"

record kexalg =
  ka_name :: string
  ka_type :: kex_exchange
  ka_ec_nid :: int
  ka_hash_alg :: digest_alg

definition kex_entry :: "string \<Rightarrow> kex_exchange \<Rightarrow> int \<Rightarrow> digest_alg \<Rightarrow> kexalg" where
  "kex_entry n t e h = \<lparr>ka_name = n, ka_type = t, ka_ec_nid = e, ka_hash_alg = h\<rparr>"

definition kexalgs :: "kexalg list" where
  "kexalgs =
    [kex_entry ''diffie-hellman-group1-sha1'' KEX_DH_GRP1_SHA1 0 SSH_DIGEST_SHA1,
     kex_entry ''diffie-hellman-group14-sha1'' KEX_DH_GRP14_SHA1 0 SSH_DIGEST_SHA1,
     kex_entry ''diffie-hellman-group14-sha256'' KEX_DH_GRP14_SHA256 0 SSH_DIGEST_SHA256,
     kex_entry ''diffie-hellman-group16-sha512'' KEX_DH_GRP16_SHA512 0 SSH_DIGEST_SHA512,
     kex_entry ''diffie-hellman-group18-sha512'' KEX_DH_GRP18_SHA512 0 SSH_DIGEST_SHA512,
     kex_entry ''diffie-hellman-group-exchange-sha1'' KEX_DH_GEX_SHA1 0 SSH_DIGEST_SHA1,
     kex_entry ''diffie-hellman-group-exchange-sha256'' KEX_DH_GEX_SHA256 0 SSH_DIGEST_SHA256,
     kex_entry ''ecdh-sha2-nistp256'' KEX_ECDH_SHA2 NID_X9_62_prime256v1 SSH_DIGEST_SHA256,
     kex_entry ''ecdh-sha2-nistp384'' KEX_ECDH_SHA2 NID_secp384r1 SSH_DIGEST_SHA384,
     kex_entry ''ecdh-sha2-nistp521'' KEX_ECDH_SHA2 NID_secp521r1 SSH_DIGEST_SHA512,
     kex_entry ''curve25519-sha256'' KEX_C25519_SHA256 0 SSH_DIGEST_SHA256,
     kex_entry ''curve25519-sha256@libssh.org'' KEX_C25519_SHA256 0 SSH_DIGEST_SHA256,
     kex_entry ''sntrup761x25519-sha512@openssh.com'' KEX_KEM_SNTRUP761X25519_SHA512 0 SSH_DIGEST_SHA512]"

definition kex_alg_list :: "allocator \<Rightarrow> char \<Rightarrow> string option" where
  "kex_alg_list am sep = alg_list am sep (map ka_name kexalgs) None"

definition kex_alg_by_name :: "string \<Rightarrow> kexalg option" where
  "kex_alg_by_name name = find (\<lambda>k. ka_name k = name) kexalgs"

definition kex_names_valid :: "allocator \<Rightarrow> string option \<Rightarrow> bool" where
  "kex_names_valid am names = names_valid am (\<lambda>p. kex_alg_by_name p \<noteq> None) names"

section \<open>Key types\<close>

datatype sshkey_types =
    KEY_RSA | KEY_DSA | KEY_ECDSA | KEY_ED25519 | KEY_RSA_CERT | KEY_DSA_CERT | KEY_ECDSA_CERT | KEY_ED25519_CERT
  | KEY_XMSS | KEY_XMSS_CERT | KEY_ECDSA_SK | KEY_ECDSA_SK_CERT | KEY_ED25519_SK | KEY_ED25519_SK_CERT | KEY_UNSPEC

record sshkey_impl =
  ki_name :: string
  ki_shortname :: string
  ki_sigalg :: "string option"
  ki_type :: sshkey_types
  ki_nid :: int
  ki_cert :: bool
  ki_sigonly :: bool
  ki_keybits :: int

definition key_entry :: "string \<Rightarrow> string \<Rightarrow> string option \<Rightarrow> sshkey_types \<Rightarrow> int \<Rightarrow> bool \<Rightarrow> bool \<Rightarrow> int \<Rightarrow> sshkey_impl" where
  "key_entry n s sg t e c so b =
     \<lparr>ki_name = n, ki_shortname = s, ki_sigalg = sg, ki_type = t, ki_nid = e, ki_cert = c, ki_sigonly = so, ki_keybits = b\<rparr>"

definition keyimpls_ed25519 :: "sshkey_impl list" where
  "keyimpls_ed25519 =
    [key_entry ''ssh-ed25519'' ''ED25519'' None KEY_ED25519 0 False False 256,
     key_entry ''ssh-ed25519-cert-v01@openssh.com'' ''ED25519-CERT'' None KEY_ED25519_CERT 0 True False 256]"

definition keyimpls_ed25519_sk :: "sshkey_impl list" where
  "keyimpls_ed25519_sk =
    [key_entry ''sk-ssh-ed25519@openssh.com'' ''ED25519-SK'' None KEY_ED25519_SK 0 False False 256,
     key_entry ''sk-ssh-ed25519-cert-v01@openssh.com'' ''ED25519-SK-CERT'' None KEY_ED25519_SK_CERT 0 True False 256]"

definition keyimpls_ecdsa :: "sshkey_impl list" where
  "keyimpls_ecdsa =
    [key_entry ''ecdsa-sha2-nistp256'' ''ECDSA'' None KEY_ECDSA NID_X9_62_prime256v1 False False 0,
     key_entry ''ecdsa-sha2-nistp256-cert-v01@openssh.com'' ''ECDSA-CERT'' None KEY_ECDSA_CERT NID_X9_62_prime256v1 True False 0,
     key_entry ''ecdsa-sha2-nistp384'' ''ECDSA'' None KEY_ECDSA NID_secp384r1 False False 0,
     key_entry ''ecdsa-sha2-nistp384-cert-v01@openssh.com'' ''ECDSA-CERT'' None KEY_ECDSA_CERT NID_secp384r1 True False 0,
     key_entry ''ecdsa-sha2-nistp521'' ''ECDSA'' None KEY_ECDSA NID_secp521r1 False False 0,
     key_entry ''ecdsa-sha2-nistp521-cert-v01@openssh.com'' ''ECDSA-CERT'' None KEY_ECDSA_CERT NID_secp521r1 True False 0]"

definition keyimpls_ecdsa_sk :: "sshkey_impl list" where
  "keyimpls_ecdsa_sk =
    [key_entry ''sk-ecdsa-sha2-nistp256@openssh.com'' ''ECDSA-SK'' None KEY_ECDSA_SK NID_X9_62_prime256v1 False False 256,
     key_entry ''sk-ecdsa-sha2-nistp256-cert-v01@openssh.com'' ''ECDSA-SK-CERT'' None KEY_ECDSA_SK_CERT NID_X9_62_prime256v1 True False 256,
     key_entry ''webauthn-sk-ecdsa-sha2-nistp256@openssh.com'' ''ECDSA-SK'' None KEY_ECDSA_SK NID_X9_62_prime256v1 False True 256]"

definition keyimpls_dss :: "sshkey_impl list" where
  "keyimpls_dss =
    [key_entry ''ssh-dss'' ''DSA'' None KEY_DSA 0 False False 0,
     key_entry ''ssh-dss-cert-v01@openssh.com'' ''DSA-CERT'' None KEY_DSA_CERT 0 True False 0]"

definition keyimpls_rsa :: "sshkey_impl list" where
  "keyimpls_rsa =
    [key_entry ''ssh-rsa'' ''RSA'' None KEY_RSA 0 False False 0,
     key_entry ''ssh-rsa-cert-v01@openssh.com'' ''RSA-CERT'' None KEY_RSA_CERT 0 True False 0,
     key_entry ''rsa-sha2-256'' ''RSA'' None KEY_RSA 0 False True 0,
     key_entry ''rsa-sha2-256-cert-v01@openssh.com'' ''RSA-CERT'' (Some ''rsa-sha2-256'') KEY_RSA_CERT 0 True True 0,
     key_entry ''rsa-sha2-512'' ''RSA'' None KEY_RSA 0 False True 0,
     key_entry ''rsa-sha2-512-cert-v01@openssh.com'' ''RSA-CERT'' (Some ''rsa-sha2-512'') KEY_RSA_CERT 0 True True 0]"

definition keyimpls :: "sshkey_impl list" where
  "keyimpls = keyimpls_ed25519 @ keyimpls_ed25519_sk @ keyimpls_ecdsa @ keyimpls_ecdsa_sk @ keyimpls_dss @ keyimpls_rsa"

definition sshkey_impl_from_type :: "sshkey_types \<Rightarrow> sshkey_impl option" where
  "sshkey_impl_from_type t = find (\<lambda>k. ki_type k = t) keyimpls"

definition sshkey_impl_from_type_nid :: "sshkey_types \<Rightarrow> int \<Rightarrow> sshkey_impl option" where
  "sshkey_impl_from_type_nid t nid = find (\<lambda>k. ki_type k = t \<and> (ki_nid k = 0 \<or> ki_nid k = nid)) keyimpls"

definition sshkey_ssh_name_from_type_nid :: "sshkey_types \<Rightarrow> int \<Rightarrow> string" where
  "sshkey_ssh_name_from_type_nid t nid =
     (case sshkey_impl_from_type_nid t nid of None \<Rightarrow> ''ssh-unknown'' | Some k \<Rightarrow> ki_name k)"

definition sshkey_type_is_cert :: "sshkey_types \<Rightarrow> bool" where
  "sshkey_type_is_cert t = (case sshkey_impl_from_type t of None \<Rightarrow> False | Some k \<Rightarrow> ki_cert k)"

definition strcasecmp0 :: "string \<Rightarrow> string \<Rightarrow> bool" where
  "strcasecmp0 a b \<longleftrightarrow> map tolower a = map tolower b"

definition sshkey_type_from_name :: "string \<Rightarrow> sshkey_types" where
  "sshkey_type_from_name name =
     (case find (\<lambda>k. name = ki_name k \<or> \<not> ki_cert k \<and> strcasecmp0 (ki_shortname k) name) keyimpls of
        None \<Rightarrow> KEY_UNSPEC
      | Some k \<Rightarrow> ki_type k)"

definition key_type_is_ecdsa_variant :: "sshkey_types \<Rightarrow> bool" where
  "key_type_is_ecdsa_variant t \<longleftrightarrow> t \<in> {KEY_ECDSA, KEY_ECDSA_CERT, KEY_ECDSA_SK, KEY_ECDSA_SK_CERT}"

definition sshkey_ecdsa_nid_from_name :: "string \<Rightarrow> int" where
  "sshkey_ecdsa_nid_from_name name =
     (case find (\<lambda>k. key_type_is_ecdsa_variant (ki_type k) \<and> name = ki_name k) keyimpls of
        None \<Rightarrow> - 1
      | Some k \<Rightarrow> ki_nid k)"

definition sshkey_match_keyname_to_sigalgs :: "string \<Rightarrow> string option \<Rightarrow> bool" where
  "sshkey_match_keyname_to_sigalgs keyname sigalgs =
     (case sigalgs of
        None \<Rightarrow> False
      | Some algs \<Rightarrow>
          (let ktype = sshkey_type_from_name keyname;
               hit = (\<lambda>n. match_pattern_list n algs False = 1) in
           if algs = [] \<or> ktype = KEY_UNSPEC then False
           else if ktype = KEY_RSA then hit ''ssh-rsa'' \<or> hit ''rsa-sha2-256'' \<or> hit ''rsa-sha2-512''
           else if ktype = KEY_RSA_CERT
           then hit ''ssh-rsa-cert-v01@openssh.com'' \<or> hit ''rsa-sha2-256-cert-v01@openssh.com'' \<or>
             hit ''rsa-sha2-512-cert-v01@openssh.com''
           else hit keyname))"

definition sshkey_alg_list :: "allocator \<Rightarrow> bool \<Rightarrow> bool \<Rightarrow> bool \<Rightarrow> char \<Rightarrow> string option" where
  "sshkey_alg_list am certs_only plain_only include_sigonly sep =
     alg_list am sep
       (map ki_name (filter (\<lambda>k. \<not> (\<not> include_sigonly \<and> ki_sigonly k) \<and>
          \<not> (certs_only \<and> \<not> ki_cert k \<or> plain_only \<and> ki_cert k)) keyimpls)) None"

definition sshkey_names_valid2 :: "allocator \<Rightarrow> string option \<Rightarrow> bool \<Rightarrow> bool \<Rightarrow> bool" where
  "sshkey_names_valid2 am names allow_wildcard plain_only =
     names_valid am
       (\<lambda>p. let t = sshkey_type_from_name p in
            if t = KEY_UNSPEC
            then allow_wildcard \<and> (\<exists>k\<in>set keyimpls. match_pattern_list (ki_name k) p False \<noteq> 0)
            else \<not> (plain_only \<and> sshkey_type_is_cert t))
       names"

definition sshkey_type_is_valid_ca :: "sshkey_types \<Rightarrow> bool" where
  "sshkey_type_is_valid_ca t = (case sshkey_impl_from_type t of None \<Rightarrow> False | Some k \<Rightarrow> \<not> ki_cert k)"

fun sshkey_type_plain :: "sshkey_types \<Rightarrow> sshkey_types" where
  "sshkey_type_plain KEY_RSA_CERT = KEY_RSA"
| "sshkey_type_plain KEY_DSA_CERT = KEY_DSA"
| "sshkey_type_plain KEY_ECDSA_CERT = KEY_ECDSA"
| "sshkey_type_plain KEY_ECDSA_SK_CERT = KEY_ECDSA_SK"
| "sshkey_type_plain KEY_ED25519_CERT = KEY_ED25519"
| "sshkey_type_plain KEY_ED25519_SK_CERT = KEY_ED25519_SK"
| "sshkey_type_plain KEY_XMSS_CERT = KEY_XMSS"
| "sshkey_type_plain t = t"

fun sshkey_type_certified :: "sshkey_types \<Rightarrow> sshkey_types option" where
  "sshkey_type_certified KEY_RSA = Some KEY_RSA_CERT"
| "sshkey_type_certified KEY_DSA = Some KEY_DSA_CERT"
| "sshkey_type_certified KEY_ECDSA = Some KEY_ECDSA_CERT"
| "sshkey_type_certified KEY_ECDSA_SK = Some KEY_ECDSA_SK_CERT"
| "sshkey_type_certified KEY_ED25519 = Some KEY_ED25519_CERT"
| "sshkey_type_certified KEY_ED25519_SK = Some KEY_ED25519_SK_CERT"
| "sshkey_type_certified KEY_XMSS = Some KEY_XMSS_CERT"
| "sshkey_type_certified _ = None"

definition sshkey_sigalg_by_name :: "string \<Rightarrow> string option" where
  "sshkey_sigalg_by_name name =
     (case find (\<lambda>k. ki_name k = name) keyimpls of
        None \<Rightarrow> None
      | Some k \<Rightarrow>
          (case ki_sigalg k of
             Some s \<Rightarrow> Some s
           | None \<Rightarrow> if \<not> ki_cert k then Some (ki_name k)
                     else Some (sshkey_ssh_name_from_type_nid (sshkey_type_plain (ki_type k)) (ki_nid k))))"

lemmas keyimpls_defs = keyimpls_def keyimpls_ed25519_def keyimpls_ed25519_sk_def keyimpls_ecdsa_def keyimpls_ecdsa_sk_def
  keyimpls_dss_def keyimpls_rsa_def key_entry_def

text \<open>An entry that a signature made with the entry \<open>k\<close> can name.\<close>

definition sigalg_for :: "sshkey_impl \<Rightarrow> sshkey_impl \<Rightarrow> bool" where
  "sigalg_for k k' \<longleftrightarrow>
     ki_type k' = sshkey_type_plain (ki_type k) \<and> ki_nid k' = ki_nid k \<and> \<not> ki_cert k' \<and> ki_sigalg k' = None"

lemma sigalg_table:
  "list_all (\<lambda>k. if ki_sigalg k = None \<and> ki_cert k
     then (case sshkey_impl_from_type_nid (sshkey_type_plain (ki_type k)) (ki_nid k) of None \<Rightarrow> False | Some k' \<Rightarrow> sigalg_for k k')
     else \<not> ki_cert k \<longrightarrow> sigalg_for k k) keyimpls"
  by (simp add: keyimpls_defs sshkey_impl_from_type_nid_def sigalg_for_def)

lemma sigalg_rsa:
  "list_all (\<lambda>k. ki_sigalg k \<noteq> None \<longrightarrow> (\<exists>k'\<in>set keyimpls. ki_sigalg k = Some (ki_name k') \<and> sigalg_for k k')) keyimpls"
  by (simp add: keyimpls_defs sigalg_for_def)

text \<open>
  A name without the marks of its form: the domain of the vendor and the mark of a certificate. What
  is left names the key type, the curve and, for RSA, the hash.
\<close>

definition strip_suffix :: "string \<Rightarrow> string \<Rightarrow> string" where
  "strip_suffix suf s = (if drop (length s - length suf) s = suf then take (length s - length suf) s else s)"

definition name_stem :: "string \<Rightarrow> string" where
  "name_stem s = strip_suffix ''-cert-v01'' (strip_suffix ''@openssh.com'' s)"

lemma sigalg_stem:
  "list_all (\<lambda>k. case sshkey_sigalg_by_name (ki_name k) of None \<Rightarrow> False | Some s \<Rightarrow> name_stem s = name_stem (ki_name k)) keyimpls"
  by code_simp

text \<open>
  C37: Every key algorithm has the signature algorithm of its own kind. A name outside the table has
  none; for a name of the table it is again a name of the table, of the plain type behind the
  name and on the same curve, never a certificate type, and it stands for itself. Its name is that
  of the key algorithm without the mark of a certificate, so that an RSA key with a hash in its name
  signs with this hash.
\<close>

theorem sshkey_sigalg_typed:
  "case sshkey_sigalg_by_name name of
     None \<Rightarrow> name \<notin> ki_name ` set keyimpls
   | Some s \<Rightarrow> name_stem s = name_stem name \<and>
       (\<exists>k k'. k \<in> set keyimpls \<and> k' \<in> set keyimpls \<and> ki_name k = name \<and> ki_name k' = s \<and> sigalg_for k k')"
proof (cases "find (\<lambda>k. ki_name k = name) keyimpls")
  case None
  then have "name \<notin> ki_name ` set keyimpls" by (auto simp: find_None_iff)
  with None show ?thesis by (simp add: sshkey_sigalg_by_name_def)
next
  case (Some k)
  then have k: "k \<in> set keyimpls" "ki_name k = name" by (auto simp: find_Some_iff)
  then obtain s where s: "sshkey_sigalg_by_name name = Some s" "name_stem s = name_stem name"
    using sigalg_stem by (fastforce simp: list_all_iff split: option.splits)
  have "\<exists>k k'. k \<in> set keyimpls \<and> k' \<in> set keyimpls \<and> ki_name k = name \<and> ki_name k' = s \<and> sigalg_for k k'"
  proof (cases "ki_sigalg k = None \<and> ki_cert k")
    case True
    with sigalg_table k(1) obtain k' where k': "sshkey_impl_from_type_nid (sshkey_type_plain (ki_type k)) (ki_nid k) = Some k'" "sigalg_for k k'"
      by (fastforce simp: list_all_iff split: option.splits)
    then have "k' \<in> set keyimpls" by (auto simp: sshkey_impl_from_type_nid_def find_Some_iff)
    with Some k k' True s show ?thesis by (auto simp: sshkey_sigalg_by_name_def sshkey_ssh_name_from_type_nid_def)
  next
    case False
    with sigalg_table sigalg_rsa k Some s show ?thesis
      by (fastforce simp: list_all_iff sshkey_sigalg_by_name_def split: option.splits)
  qed
  with s show ?thesis by simp
qed

end
