(* ===== verification/Kex_Names.thy ===== *)
theory Kex_Names
  imports Algorithms
begin

text \<open>
  Lists of algorithm names (\<^verbatim>\<open>kex.c\<close>): joining two lists without duplicates and assembling the
  list that a configuration asks for, from the default list and the list of all supported names.
  The lemmas show that the buffer arithmetic never cuts a name off and that the loops compute an
  ordered union of names.
\<close>

section \<open>Operations\<close>

definition strdup :: "allocator \<Rightarrow> string \<Rightarrow> string option" where
  "strdup am s = (if am (of_nat (length s + 1)) = NULL then None else Some s)"

definition has_any_alg :: "string \<Rightarrow> string \<Rightarrow> bool" where
  "has_any_alg proposal algs = (fst (match_list proposal algs) \<noteq> None)"

function names_cat_loop :: "nat \<Rightarrow> string option \<Rightarrow> string \<Rightarrow> string option" where
  "names_cat_loop len cp ret =
     (case strsep cp '','' of
        (None, _) \<Rightarrow> Some ret
      | (Some p, cp') \<Rightarrow>
          if p = [] then Some ret
          else if has_any_alg ret p then names_cat_loop len cp' ret
          else
            (case strlcat ret '','' len of (n1, ret1) \<Rightarrow>
               if n1 \<ge> len then None
               else (case strlcat ret1 p len of (n2, ret2) \<Rightarrow>
                 if n2 \<ge> len then None else names_cat_loop len cp' ret2)))"
  by pat_completeness auto
termination
  by (relation "measure (\<lambda>(len, cp, ret). strsep_left cp)") (auto dest: strsep_left_less [OF sym])

declare names_cat_loop.simps [simp del]

definition kex_names_cat :: "allocator \<Rightarrow> string option \<Rightarrow> string \<Rightarrow> string option" where
  "kex_names_cat am a b =
     (case a of
        None \<Rightarrow> strdup am b
      | Some s \<Rightarrow>
          if s = [] then strdup am b
          else if b = [] then strdup am s
          else if length b > 1024 * 1024 then None
          else
            let len = length s + length b + 2 in
            if am (of_nat (length b + 1)) = NULL \<or> am (of_nat len) = NULL then None
            else names_cat_loop len (Some b) (snd (strlcpy [] s len)))"

function assemble_loop :: "allocator \<Rightarrow> string \<Rightarrow> string option \<Rightarrow> string option \<Rightarrow> string option res" where
  "assemble_loop am all_names patterns ret =
     (case strsep patterns '','' of
        (None, _) \<Rightarrow> Inr ret
      | (Some cp, patterns') \<Rightarrow>
          if cp \<noteq> [] \<and> hd cp = CHR ''!'' then Inl SSH_ERR_INVALID_ARGUMENT
          else
            (case match_filter_allowlist am all_names cp of
               None \<Rightarrow> Inl SSH_ERR_ALLOC_FAIL
             | Some matching \<Rightarrow>
                 (case kex_names_cat am ret matching of
                    None \<Rightarrow> Inl SSH_ERR_ALLOC_FAIL
                  | Some tmp \<Rightarrow> assemble_loop am all_names patterns' (Some tmp))))"
  by pat_completeness auto
termination
  by (relation "measure (\<lambda>(am, a, p, r). strsep_left p)") (auto dest: strsep_left_less [OF sym])

declare assemble_loop.simps [simp del]

text \<open>The list after the call: the result on success, a null pointer on failure.\<close>

definition assemble_patterns :: "allocator \<Rightarrow> string \<Rightarrow> string \<Rightarrow> string res" where
  "assemble_patterns am all_names l =
     (case strdup am l of
        None \<Rightarrow> Inl SSH_ERR_ALLOC_FAIL
      | Some patterns \<Rightarrow>
          (case assemble_loop am all_names (Some patterns) None of
             Inl e \<Rightarrow> Inl e
           | Inr None \<Rightarrow> Inl SSH_ERR_INVALID_ARGUMENT
           | Inr (Some ret) \<Rightarrow> if ret = [] then Inl SSH_ERR_INVALID_ARGUMENT else Inr ret))"

definition kex_assemble_names :: "allocator \<Rightarrow> string option \<Rightarrow> string \<Rightarrow> string \<Rightarrow> string res" where
  "kex_assemble_names am listp def all_names =
     (case listp of
        None \<Rightarrow> (case strdup am def of None \<Rightarrow> Inl SSH_ERR_ALLOC_FAIL | Some d \<Rightarrow> Inr d)
      | Some [] \<Rightarrow> (case strdup am def of None \<Rightarrow> Inl SSH_ERR_ALLOC_FAIL | Some d \<Rightarrow> Inr d)
      | Some (c # l) \<Rightarrow>
          if c = CHR ''+'' then
            (case kex_names_cat am (Some def) l of
               None \<Rightarrow> Inl SSH_ERR_ALLOC_FAIL
             | Some tmp \<Rightarrow> assemble_patterns am all_names tmp)
          else if c = CHR ''-'' then
            (case match_filter_denylist am def l of None \<Rightarrow> Inl SSH_ERR_ALLOC_FAIL | Some r \<Rightarrow> Inr r)
          else if c = CHR ''^'' then
            (case kex_names_cat am (Some l) def of
               None \<Rightarrow> Inl SSH_ERR_ALLOC_FAIL
             | Some tmp \<Rightarrow> assemble_patterns am all_names tmp)
          else assemble_patterns am all_names (c # l))"

section \<open>Ordered union of names\<close>

text \<open>What the loops compute: the names of the second list that are new go to the end.\<close>

fun add_names :: "'a list \<Rightarrow> 'a list \<Rightarrow> 'a list" where
  "add_names xs [] = xs"
| "add_names xs (y # ys) = add_names (if y \<in> set xs then xs else xs @ [y]) ys"

lemma set_add_names [simp]: "set (add_names xs ys) = set xs \<union> set ys"
  by (induction xs ys rule: add_names.induct) auto

lemma distinct_add_names: "distinct xs \<Longrightarrow> distinct (add_names xs ys)"
  by (induction xs ys rule: add_names.induct) auto

lemma add_names_Nil_iff [simp]: "add_names xs ys = [] \<longleftrightarrow> xs = [] \<and> ys = []"
  using set_add_names [of xs ys] by (metis Un_empty set_empty)

definition names :: "string \<Rightarrow> string list" where
  "names s = split_on CHR '','' s"

abbreviation commas :: "string list \<Rightarrow> string" where
  "commas xs \<equiv> join CHR '','' xs"

text \<open>Lists whose items can be written between commas.\<close>

definition clean :: "string list \<Rightarrow> bool" where
  "clean xs \<longleftrightarrow> (\<forall>x\<in>set xs. x \<noteq> [] \<and> CHR '','' \<notin> set x)"

lemma clean_simps [simp]:
  "clean []" "clean (x # xs) \<longleftrightarrow> x \<noteq> [] \<and> CHR '','' \<notin> set x \<and> clean xs" "clean (xs @ ys) \<longleftrightarrow> clean xs \<and> clean ys"
  by (auto simp: clean_def)

lemma clean_subset: "clean ys \<Longrightarrow> set xs \<subseteq> set ys \<Longrightarrow> clean xs"
  by (auto simp: clean_def)

lemma names_commas: "clean xs \<Longrightarrow> xs \<noteq> [] \<Longrightarrow> names (commas xs) = xs"
  by (auto simp: names_def clean_def split_on_join)

lemma commas_names [simp]: "commas (names s) = s"
  by (simp add: names_def)

lemma clean_names: "clean (names s) \<longleftrightarrow> [] \<notin> set (names s)"
  using split_on_items [of _ s] by (auto simp: clean_def names_def)

lemma proposal_names_commas: "clean xs \<Longrightarrow> proposal_names (commas xs) = xs"
proof (cases "xs = []")
  case True
  then show ?thesis by (simp add: proposal_names_def)
next
  case False
  assume "clean xs"
  with False names_commas [of xs] show ?thesis by (simp add: proposal_names_def names_def clean_def takeWhile_eq_all_conv)
qed

lemma has_any_alg_single:
  assumes "clean xs" "p \<noteq> []" "CHR '','' \<notin> set p"
  shows "has_any_alg (commas xs) p \<longleftrightarrow> p \<in> set xs"
proof -
  have "proposal_names p = [p]" using proposal_names_commas [of "[p]"] assms(2,3) by simp
  then show ?thesis
    using proposal_names_commas [OF assms(1)]
    by (auto simp: has_any_alg_def match_list_eq MAX_PROP_def find_None_iff)
qed

lemma commas_snoc: "xs \<noteq> [] \<Longrightarrow> commas (xs @ [p]) = commas xs @ '','' @ p"
  by (simp add: join_append)

lemma names_cat_loop_tokens:
  assumes "clean xs" "xs \<noteq> []" "clean ys" "length (commas xs) + 1 + length (commas ys) < len"
  shows "names_cat_loop len (tokens CHR '','' ys) (commas xs) = Some (commas (add_names xs ys))"
  using assms
proof (induction xs ys rule: add_names.induct)
  case (1 xs)
  then show ?case by (simp add: names_cat_loop.simps [of _ "tokens _ _"] strsep_tokens)
next
  case (2 xs y ys)
  have t: "strsep (tokens CHR '','' (y # ys)) '','' = (Some y, tokens CHR '','' ys)"
    using 2(4) by (subst strsep_tokens) (auto simp: clean_def)
  have l: "length (commas ys) \<le> length (commas (y # ys))" "ys \<noteq> [] \<Longrightarrow> length (commas (y # ys)) = length y + 1 + length (commas ys)"
    by (cases ys; simp)+
  have h: "has_any_alg (commas xs) y \<longleftrightarrow> y \<in> set xs" using 2(2,4) by (intro has_any_alg_single) simp_all
  show ?case
  proof (cases "y \<in> set xs")
    case True
    with 2 l h show ?thesis by (simp add: names_cat_loop.simps [of _ "tokens _ (y # ys)"] t)
  next
    case False
    have yl: "length y \<le> length (commas (y # ys))" by (cases ys) simp_all
    have "strlcat (commas xs) '','' len = (length (commas xs) + 1, commas xs @ '','')"
      using 2(5) by (subst strlcat_fits) simp_all
    moreover have "strlcat (commas xs @ '','') y len = (length (commas xs) + 1 + length y, commas (xs @ [y]))"
      using 2(3,5) yl by (subst strlcat_fits) (simp_all add: commas_snoc)
    ultimately have "names_cat_loop len (tokens CHR '','' (y # ys)) (commas xs) =
        names_cat_loop len (tokens CHR '','' ys) (commas (xs @ [y]))"
      using 2(4,5) False h yl by (simp add: names_cat_loop.simps [of _ "tokens _ (y # ys)"] t)
    moreover have "length (commas (xs @ [y])) + 1 + length (commas ys) < len" if "ys \<noteq> []"
      using 2(3,5) l(2) that by (simp add: commas_snoc)
    ultimately show ?thesis
      using 2 False by (cases "ys = []") (simp_all add: names_cat_loop.simps [of _ "tokens _ []"] strsep_tokens)
  qed
qed

lemma add_names_disjoint: "distinct ys \<Longrightarrow> set xs \<inter> set ys = {} \<Longrightarrow> add_names xs ys = xs @ ys"
  by (induction xs ys rule: add_names.induct) auto

lemma clean_add_names [simp]: "clean (add_names xs ys) \<longleftrightarrow> clean xs \<and> clean ys"
  by (auto simp: clean_def)

lemma commas_Nil_iff: "clean xs \<Longrightarrow> commas xs = [] \<longleftrightarrow> xs = []"
  using join_Nil_iff [of xs] by (auto simp: clean_def)

lemma kex_names_cat_eq:
  assumes "\<And>n. am n \<noteq> NULL" "clean xs" "clean ys" "distinct ys" "length (commas ys) \<le> 1024 * 1024"
  shows "kex_names_cat am (Some (commas xs)) (commas ys) = Some (commas (add_names xs ys))"
proof (cases "xs = [] \<or> ys = []")
  case True
  then show ?thesis
    using assms add_names_disjoint [of ys "[]"] by (auto simp: kex_names_cat_def strdup_def)
next
  case False
  let ?len = "length (commas xs) + length (commas ys) + 2"
  have "snd (strlcpy [] (commas xs) ?len) = commas xs" by (simp add: strlcpy_eq)
  moreover have "names_cat_loop ?len (Some (commas ys)) (commas xs) = Some (commas (add_names xs ys))"
    using names_cat_loop_tokens [of xs ys ?len] assms(2,3) False by (simp add: tokens_def)
  ultimately show ?thesis
    using assms False by (simp add: kex_names_cat_def Let_def commas_Nil_iff)
qed

lemma kex_names_cat_None: "kex_names_cat am None b = kex_names_cat am (Some []) b"
  by (simp add: kex_names_cat_def)

section \<open>Assembling a list\<close>

definition matching :: "string list \<Rightarrow> string \<Rightarrow> string list" where
  "matching alls p = filter (\<lambda>x. match_pattern_list x p False = 1) alls"

definition negated :: "string \<Rightarrow> bool" where
  "negated p \<longleftrightarrow> p \<noteq> [] \<and> hd p = CHR ''!''"

fun assembled :: "string list \<Rightarrow> string list \<Rightarrow> string list \<Rightarrow> string list res" where
  "assembled alls acc [] = Inr acc"
| "assembled alls acc (p # ps) =
     (if negated p then Inl SSH_ERR_INVALID_ARGUMENT else assembled alls (add_names acc (matching alls p)) ps)"

lemma length_commas_filter: "length (commas (filter P xs)) \<le> length (commas xs)"
proof -
  have "sum_list (map length (filter P xs)) \<le> sum_list (map length xs)" by (induction xs) auto
  then show ?thesis unfolding length_join by (intro add_mono diff_le_mono length_filter_le)
qed

lemma allowlist_eq:
  assumes "\<And>n. am n \<noteq> NULL" "clean (names al)"
  shows "match_filter_allowlist am al p = Some (commas (matching (names al) p))"
proof -
  obtain s where s: "filter_list am al p False = Some s" using assms(1) by (auto simp: filter_list_def Let_def)
  have "[] \<notin> set (split_on CHR '','' al)" using assms(2) by (auto simp: clean_def names_def)
  moreover have "filter_keeps p False = (\<lambda>x. match_pattern_list x p False = 1)" by (auto simp: filter_keeps_def)
  ultimately show ?thesis
    using filter_list_eq [OF _ s] s by (simp add: match_filter_allowlist_def matching_def names_def)
qed

lemma assemble_loop_tokens:
  assumes am: "\<And>n. am n \<noteq> NULL" and al: "clean (names al)" "distinct (names al)" "length al \<le> 1024 * 1024"
    and "\<forall>p\<in>set ps. CHR '','' \<notin> set p" "clean acc"
  shows "assemble_loop am al (tokens CHR '','' ps) (Some (commas acc)) =
    map_sum id (\<lambda>xs. Some (commas xs)) (assembled (names al) acc ps)"
  using assms(5,6)
proof (induction ps arbitrary: acc)
  case Nil
  then show ?case by (simp add: assemble_loop.simps [of _ _ "tokens _ _"] strsep_tokens)
next
  case (Cons p ps)
  have t: "strsep (tokens CHR '','' (p # ps)) '','' = (Some p, tokens CHR '','' ps)"
    using Cons.prems(1) by (subst strsep_tokens) auto
  have m: "clean (matching (names al) p)" "distinct (matching (names al) p)"
    using al by (auto simp: matching_def clean_def)
  have "length (commas (matching (names al) p)) \<le> 1024 * 1024"
    using al(3) length_commas_filter [of _ "names al"] by (auto simp: matching_def intro: order_trans)
  then have "kex_names_cat am (Some (commas acc)) (commas (matching (names al) p)) =
      Some (commas (add_names acc (matching (names al) p)))"
    using am Cons.prems(2) m by (intro kex_names_cat_eq)
  then show ?case
    using Cons m allowlist_eq [OF am al(1)]
    by (subst assemble_loop.simps) (simp add: t negated_def id_def)
qed

lemma assemble_patterns_eq:
  assumes am: "\<And>n. am n \<noteq> NULL" and al: "clean (names al)" "distinct (names al)" "length al \<le> 1024 * 1024"
  shows "assemble_patterns am al l =
    (case assembled (names al) [] (names l) of
       Inl e \<Rightarrow> Inl e
     | Inr xs \<Rightarrow> if xs = [] then Inl SSH_ERR_INVALID_ARGUMENT else Inr (commas xs))"
proof -
  have first: "assemble_loop am al (Some q) None = assemble_loop am al (Some q) (Some [])" for q
    by (subst (1 2) assemble_loop.simps) (simp add: strsep_def kex_names_cat_None split: prod.split option.split)
  have cl: "clean xs" if "assembled (names al) acc ps = Inr xs" "clean acc" for acc ps xs
    using that
  proof (induction ps arbitrary: acc)
    case (Cons p ps)
    have "clean (matching (names al) p)" using al(1) by (auto simp: matching_def clean_def)
    with Cons show ?case by (auto split: if_splits)
  qed simp
  have "assemble_loop am al (Some l) (Some (commas [])) = map_sum id (\<lambda>xs. Some (commas xs)) (assembled (names al) [] (names l))"
    using assemble_loop_tokens [OF am al, where ps = "names l" and acc = "[]"] split_on_items [of _ l]
    by (simp add: tokens_def names_def)
  moreover have "strdup am l = Some l" using am by (simp add: strdup_def)
  ultimately show ?thesis
    using first cl [of "[]" "names l"]
    by (auto simp: assemble_patterns_def commas_Nil_iff split: sum.split)
qed

lemma assembled_names:
  assumes "distinct acc"
  shows "assembled alls acc ps =
    (if \<exists>p\<in>set ps. negated p then Inl SSH_ERR_INVALID_ARGUMENT
     else Inr (foldl (\<lambda>xs p. add_names xs (matching alls p)) acc ps))"
  using assms by (induction ps arbitrary: acc) (auto simp: distinct_add_names)

text \<open>The first occurrence of each item, in order.\<close>

definition keep_first :: "'a list \<Rightarrow> 'a list" where
  "keep_first xs = rev (remdups (rev xs))"

lemma keep_first_simps [simp]:
  "keep_first [] = []" "set (keep_first xs) = set xs" "distinct (keep_first xs)" "keep_first xs = [] \<longleftrightarrow> xs = []"
  by (simp_all add: keep_first_def)

lemma keep_first_snoc: "keep_first (xs @ [y]) = (if y \<in> set xs then keep_first xs else keep_first xs @ [y])"
  by (simp add: keep_first_def)

lemma keep_first_distinct: "distinct xs \<Longrightarrow> keep_first xs = xs"
  by (simp add: keep_first_def distinct_remdups_id)

lemma add_names_keep_first: "add_names (keep_first xs) ys = keep_first (xs @ ys)"
proof (induction ys arbitrary: xs)
  case (Cons y ys)
  have "add_names (keep_first xs) (y # ys) = add_names (keep_first (xs @ [y])) ys" by (simp add: keep_first_snoc)
  with Cons [of "xs @ [y]"] show ?case by simp
qed simp

lemma foldl_add_names: "foldl (\<lambda>xs p. add_names xs (f p)) (keep_first acc) ps = keep_first (acc @ concat (map f ps))"
  by (induction ps arbitrary: acc) (simp_all add: add_names_keep_first)

text \<open>
  What a list of patterns selects: the supported names that the first pattern matches, in the order
  of the supported names, then those of the second that are new, and so on.
\<close>

definition selection :: "string list \<Rightarrow> string list \<Rightarrow> string list" where
  "selection alls pats = keep_first (concat (map (matching alls) pats))"

definition selected :: "string list \<Rightarrow> string list \<Rightarrow> string res" where
  "selected alls pats =
     (if (\<exists>p\<in>set pats. negated p) \<or> selection alls pats = [] then Inl SSH_ERR_INVALID_ARGUMENT
      else Inr (commas (selection alls pats)))"

lemma assemble_patterns_selected:
  assumes "\<And>n. am n \<noteq> NULL" "clean (names al)" "distinct (names al)" "length al \<le> 1024 * 1024"
  shows "assemble_patterns am al s = selected (names al) (names s)"
  using assembled_names [of "[]" "names al" "names s"] foldl_add_names [of "matching (names al)" "[]" "names s"]
  by (simp add: assemble_patterns_eq [OF assms] selected_def selection_def)

text \<open>
  C36: the algorithms that a configuration line selects, in their order of preference. A list of
  patterns gives the supported names that its first pattern matches, then those that the next one
  adds, each name once; a negated pattern or a list that matches nothing is refused. After a plus
  sign the patterns come after the default list, after a caret before it. After a minus sign the
  result is the default list without the names that match, in its order.
\<close>

theorem kex_assemble_names_spec:
  assumes am: "\<And>n. am n \<noteq> NULL"
    and al: "[] \<notin> set (names al)" "distinct (names al)" "length al \<le> 1024 * 1024"
    and def: "[] \<notin> set (names def)" "distinct (names def)" "length def \<le> 1024 * 1024"
    and l: "[] \<notin> set (names l)" "distinct (names l)" "length l \<le> 1024 * 1024"
  shows "kex_assemble_names am None def al = Inr def \<and>
    kex_assemble_names am (Some (CHR ''-'' # l)) def al =
       Inr (commas (filter (\<lambda>x. match_pattern_list x l False \<noteq> 1) (names def))) \<and>
    kex_assemble_names am (Some (CHR ''+'' # l)) def al = selected (names al) (keep_first (names def @ names l)) \<and>
    kex_assemble_names am (Some (CHR ''^'' # l)) def al = selected (names al) (keep_first (names l @ names def)) \<and>
    (hd l \<notin> {CHR ''+'', CHR ''-'', CHR ''^''} \<longrightarrow> kex_assemble_names am (Some l) def al = selected (names al) (names l))"
proof (intro conjI impI)
  have cl: "clean (names al)" "clean (names def)" "clean (names l)" using al def l by (simp_all add: clean_names)
  note sel = assemble_patterns_selected [OF am cl(1) al(2,3)]
  have k: "add_names (names def) (names l) = keep_first (names def @ names l)" "add_names (names l) (names def) = keep_first (names l @ names def)"
    using add_names_keep_first [of "names def"] add_names_keep_first [of "names l"] def(2) l(2) by (simp_all add: keep_first_distinct)
  have "kex_names_cat am (Some def) l = Some (commas (keep_first (names def @ names l)))"
    "kex_names_cat am (Some l) def = Some (commas (keep_first (names l @ names def)))"
    using kex_names_cat_eq [OF am cl(2,3) l(2)] kex_names_cat_eq [OF am cl(3,2) def(2)] l(3) def(3) k by simp_all
  moreover have "names (commas (keep_first (xs @ ys))) = keep_first (xs @ ys)" if "clean xs" "clean ys" "xs \<noteq> []" for xs ys
    using that by (intro names_commas) (auto intro: clean_subset [of "xs @ ys"])
  moreover have "names s \<noteq> []" for s by (simp add: names_def)
  ultimately show
    "kex_assemble_names am (Some (CHR ''+'' # l)) def al = selected (names al) (keep_first (names def @ names l))"
    "kex_assemble_names am (Some (CHR ''^'' # l)) def al = selected (names al) (keep_first (names l @ names def))"
    using sel cl by (simp_all add: kex_assemble_names_def)
  show "kex_assemble_names am None def al = Inr def" using am by (simp add: kex_assemble_names_def strdup_def)
  have "l \<noteq> []" using l(1) by (auto simp: names_def)
  then show "kex_assemble_names am (Some l) def al = selected (names al) (names l)" if "hd l \<notin> {CHR ''+'', CHR ''-'', CHR ''^''}"
    using sel [where s = l] that by (cases l) (simp_all add: kex_assemble_names_def)
  obtain s where s: "filter_list am def l True = Some s" using am by (auto simp: filter_list_def Let_def)
  moreover have "filter_keeps l True = (\<lambda>x. match_pattern_list x l False \<noteq> 1)" by (auto simp: filter_keeps_def)
  ultimately show "kex_assemble_names am (Some (CHR ''-'' # l)) def al =
       Inr (commas (filter (\<lambda>x. match_pattern_list x l False \<noteq> 1) (names def)))"
    using filter_list_eq [OF _ s] def(1) by (simp add: kex_assemble_names_def match_filter_denylist_def names_def)
qed

theorem kex_assemble_names_spec_witness:
  "kex_assemble_names (\<lambda>_. 1) (Some ''+*d*'') ''aes'' ''des,aes,3des'' = Inr ''aes,des,3des'' \<and>
   kex_assemble_names (\<lambda>_. 1) (Some ''^*d*'') ''aes'' ''des,aes,3des'' = Inr ''des,3des,aes''"
proof -
  have n: "names ''des,aes,3des'' = [''des'', ''aes'', ''3des'']" "names ''aes'' = [''aes'']" "names ''*d*'' = [''*d*'']"
    by code_simp+
  have "selected [''des'', ''aes'', ''3des''] (keep_first ([''aes''] @ [''*d*''])) = Inr ''aes,des,3des''"
    "selected [''des'', ''aes'', ''3des''] (keep_first ([''*d*''] @ [''aes''])) = Inr ''des,3des,aes''"
    by code_simp+
  then show ?thesis
    using kex_assemble_names_spec [of "\<lambda>_. 1" "''des,aes,3des''" "''aes''" "''*d*''"] unfolding n by simp
qed

end
