(* ===== verification/Kex.thy ===== *)
theory Kex
  imports Kex_Names Sshbuf_Misc
begin

text \<open>
  Negotiation of algorithms (\<^verbatim>\<open>kex.c\<close>): the proposal of each side on the wire, the choice of one
  algorithm of each kind by both sides from the two proposals, and the derivation of the keys.
  The state of an exchange is the record \<open>kex\<close>; an array of ten proposal strings is a list of
  length ten. A choice that fails returns the error with the state it leaves; a violation of the
  strict order of the first exchange ends the connection. The digest is a parameter.
\<close>

section \<open>State\<close>

datatype comp_type = COMP_NONE | COMP_ZLIB | COMP_DELAYED

record sshenc =
  en_name :: "string option"
  en_cipher :: "sshcipher option"
  en_enabled :: bool
  en_key_len :: u32
  en_iv_len :: u32
  en_block_size :: u32
  en_key :: "byte list option"
  en_iv :: "byte list option"

record sshcomp =
  co_type :: comp_type
  co_enabled :: bool
  co_name :: "string option"

record newkeys =
  nk_enc :: sshenc
  nk_mac :: sshmac
  nk_comp :: sshcomp

text \<open>\<^verbatim>\<open>calloc(1, sizeof(struct newkeys))\<close>.\<close>

definition newkeys_zero :: newkeys where
  "newkeys_zero =
     \<lparr>nk_enc = \<lparr>en_name = None, en_cipher = None, en_enabled = False, en_key_len = 0, en_iv_len = 0, en_block_size = 0,
                en_key = None, en_iv = None\<rparr>,
      nk_mac = sshmac_zero, nk_comp = \<lparr>co_type = COMP_NONE, co_enabled = False, co_name = None\<rparr>\<rparr>"

datatype kex_flag =
    KEX_INIT_SENT | KEX_INITIAL | KEX_HAS_PUBKEY_HOSTBOUND | KEX_RSA_SHA2_256_SUPPORTED | KEX_RSA_SHA2_512_SUPPORTED
  | KEX_HAS_PING | KEX_HAS_EXT_INFO_IN_AUTH

datatype kex_mode = MODE_IN | MODE_OUT

record kex =
  kx_newkeys :: "kex_mode \<Rightarrow> newkeys option"
  kx_we_need :: u32
  kx_dh_need :: u32
  kx_server :: bool
  kx_name :: "string option"
  kx_hostkey_alg :: "string option"
  kx_hostkey_type :: sshkey_types
  kx_hostkey_nid :: int
  kx_kex_type :: kex_exchange
  kx_server_sig_algs :: "string option"
  kx_ext_info_c :: bool
  kx_ext_info_s :: bool
  kx_kex_strict :: bool
  kx_ext_info_received :: int
  kx_my :: sshbuf
  kx_peer :: sshbuf
  kx_session_id :: sshbuf
  kx_done :: bool
  kx_flags :: "kex_flag set"
  kx_hash_alg :: digest_alg
  kx_ec_nid :: int
  kx_failed_choice :: "string option"

abbreviation (input) PROPOSAL_KEX_ALGS :: nat where "PROPOSAL_KEX_ALGS \<equiv> 0"
abbreviation (input) PROPOSAL_SERVER_HOST_KEY_ALGS :: nat where "PROPOSAL_SERVER_HOST_KEY_ALGS \<equiv> 1"
abbreviation (input) PROPOSAL_ENC_ALGS_CTOS :: nat where "PROPOSAL_ENC_ALGS_CTOS \<equiv> 2"
abbreviation (input) PROPOSAL_ENC_ALGS_STOC :: nat where "PROPOSAL_ENC_ALGS_STOC \<equiv> 3"
abbreviation (input) PROPOSAL_MAC_ALGS_CTOS :: nat where "PROPOSAL_MAC_ALGS_CTOS \<equiv> 4"
abbreviation (input) PROPOSAL_MAC_ALGS_STOC :: nat where "PROPOSAL_MAC_ALGS_STOC \<equiv> 5"
abbreviation (input) PROPOSAL_COMP_ALGS_CTOS :: nat where "PROPOSAL_COMP_ALGS_CTOS \<equiv> 6"
abbreviation (input) PROPOSAL_COMP_ALGS_STOC :: nat where "PROPOSAL_COMP_ALGS_STOC \<equiv> 7"
abbreviation (input) PROPOSAL_MAX :: nat where "PROPOSAL_MAX \<equiv> 10"
abbreviation (input) KEX_COOKIE_LEN :: nat where "KEX_COOKIE_LEN \<equiv> 16"

section \<open>Proposals\<close>

definition KEX_DEFAULT_KEX :: string where
  "KEX_DEFAULT_KEX = commas [''sntrup761x25519-sha512@openssh.com'', ''curve25519-sha256'', ''curve25519-sha256@libssh.org'',
     ''ecdh-sha2-nistp256'', ''ecdh-sha2-nistp384'', ''ecdh-sha2-nistp521'', ''diffie-hellman-group-exchange-sha256'',
     ''diffie-hellman-group16-sha512'', ''diffie-hellman-group18-sha512'', ''diffie-hellman-group14-sha256'']"

definition KEX_DEFAULT_PK_ALG :: string where
  "KEX_DEFAULT_PK_ALG = commas [''ssh-ed25519-cert-v01@openssh.com'', ''ecdsa-sha2-nistp256-cert-v01@openssh.com'',
     ''ecdsa-sha2-nistp384-cert-v01@openssh.com'', ''ecdsa-sha2-nistp521-cert-v01@openssh.com'',
     ''sk-ssh-ed25519-cert-v01@openssh.com'', ''sk-ecdsa-sha2-nistp256-cert-v01@openssh.com'',
     ''rsa-sha2-512-cert-v01@openssh.com'', ''rsa-sha2-256-cert-v01@openssh.com'', ''ssh-ed25519'',
     ''ecdsa-sha2-nistp256'', ''ecdsa-sha2-nistp384'', ''ecdsa-sha2-nistp521'', ''sk-ssh-ed25519@openssh.com'',
     ''sk-ecdsa-sha2-nistp256@openssh.com'', ''rsa-sha2-512'', ''rsa-sha2-256'']"

definition KEX_DEFAULT_ENCRYPT :: string where
  "KEX_DEFAULT_ENCRYPT = commas [''chacha20-poly1305@openssh.com'', ''aes128-ctr'', ''aes192-ctr'', ''aes256-ctr'',
     ''aes128-gcm@openssh.com'', ''aes256-gcm@openssh.com'']"

definition KEX_DEFAULT_MAC :: string where
  "KEX_DEFAULT_MAC = commas [''umac-64-etm@openssh.com'', ''umac-128-etm@openssh.com'', ''hmac-sha2-256-etm@openssh.com'',
     ''hmac-sha2-512-etm@openssh.com'', ''hmac-sha1-etm@openssh.com'', ''umac-64@openssh.com'', ''umac-128@openssh.com'',
     ''hmac-sha2-256'', ''hmac-sha2-512'', ''hmac-sha1'']"

text \<open>\<^verbatim>\<open>KEX_CLIENT\<close> and \<^verbatim>\<open>KEX_SERVER\<close> are the same ten lists.\<close>

definition KEX_DEFAULTS :: "string list" where
  "KEX_DEFAULTS = [KEX_DEFAULT_KEX, KEX_DEFAULT_PK_ALG, KEX_DEFAULT_ENCRYPT, KEX_DEFAULT_ENCRYPT,
     KEX_DEFAULT_MAC, KEX_DEFAULT_MAC, ''none,zlib@openssh.com'', ''none,zlib@openssh.com'', [], []]"

text \<open>\<open>None\<close> where the code is fatal.\<close>

definition kex_proposal_populate_entries :: "allocator \<Rightarrow> compat_flag set \<Rightarrow> bool \<Rightarrow> string option \<Rightarrow> string option \<Rightarrow>
    string option \<Rightarrow> string option \<Rightarrow> string option \<Rightarrow> string list option" where
  "kex_proposal_populate_entries am ssh_compat server kexalgos ciphs ms cmp hkalgs =
     (let kexalgos1 = (case kexalgos of None \<Rightarrow> KEX_DEFAULTS ! PROPOSAL_KEX_ALGS | Some k \<Rightarrow> k);
          pick = (\<lambda>opt i. case opt of None \<Rightarrow> KEX_DEFAULTS ! i | Some s \<Rightarrow> s)
      in case kex_names_cat am (Some kexalgos1)
                (if server then ''ext-info-s,kex-strict-s-v00@openssh.com''
                 else ''ext-info-c,kex-strict-c-v00@openssh.com'') of
           None \<Rightarrow> None
         | Some cp \<Rightarrow>
             (case compat_kex_proposal am ssh_compat cp of
                None \<Rightarrow> None
              | Some p0 \<Rightarrow>
                  Some [p0, pick hkalgs PROPOSAL_SERVER_HOST_KEY_ALGS, pick ciphs PROPOSAL_ENC_ALGS_CTOS,
                    pick ciphs PROPOSAL_ENC_ALGS_STOC, pick ms PROPOSAL_MAC_ALGS_CTOS, pick ms PROPOSAL_MAC_ALGS_STOC,
                    pick cmp PROPOSAL_COMP_ALGS_CTOS, pick cmp PROPOSAL_COMP_ALGS_STOC,
                    KEX_DEFAULTS ! 8, KEX_DEFAULTS ! 9]))"

definition kex_prop2buf :: "allocator \<Rightarrow> sshbuf \<Rightarrow> string list \<Rightarrow> unit res \<times> sshbuf" where
  "kex_prop2buf am b proposal =
     (case put_all (sshbuf_put_u8 am) (sshbuf_reset am b) (replicate KEX_COOKIE_LEN 0) of
        (Inl r, b1) \<Rightarrow> (Inl r, b1)
      | (Inr _, b1) \<Rightarrow>
          (case put_all (\<lambda>b p. sshbuf_put_cstring am b (Some (map chr_byte p))) b1 proposal of
             (Inl r, b2) \<Rightarrow> (Inl r, b2)
           | (Inr _, b2) \<Rightarrow>
               (case sshbuf_put_u8 am b2 0 of
                  (Inl r, b3) \<Rightarrow> (Inl r, b3)
                | (Inr _, b3) \<Rightarrow> sshbuf_put_u32 am b3 0)))"

text \<open>
  The child buffer of \<^verbatim>\<open>sshbuf_fromb\<close>, which lives only during the call: a read-only buffer over
  the bytes of its parent.
\<close>

definition sshbuf_view :: "allocator \<Rightarrow> sshbuf \<Rightarrow> sshbuf option" where
  "sshbuf_view am raw =
     (if sshbuf_check_sanity raw \<noteq> Inr () then None
      else sshbuf_from am (sshbuf_ptr raw) (drop (unat (sb_off raw)) (sb_mem raw)) (sshbuf_len raw))"

text \<open>The C string in the bytes that \<^verbatim>\<open>sshbuf_get_cstring\<close> returns.\<close>

definition c_string :: "byte list \<Rightarrow> string" where
  "c_string v = map byte_chr (takeWhile (\<lambda>x. x \<noteq> 0) v)"

definition kex_buf2prop :: "allocator \<Rightarrow> sshbuf \<Rightarrow> (bool \<times> string list) res" where
  "kex_buf2prop am raw =
     (if am (of_nat PROPOSAL_MAX * 8) = NULL then Inl SSH_ERR_ALLOC_FAIL
      else case sshbuf_view am raw of
        None \<Rightarrow> Inl SSH_ERR_ALLOC_FAIL
      | Some b \<Rightarrow>
          (case sshbuf_consume b (of_nat KEX_COOKIE_LEN) of
             (Inl r, _) \<Rightarrow> Inl r
           | (Inr _, b1) \<Rightarrow>
               (case get_all (\<lambda>b _. sshbuf_get_cstring am b) b1 (replicate PROPOSAL_MAX ()) of
                  (Inl r, _) \<Rightarrow> Inl r
                | (Inr ps, b2) \<Rightarrow>
                    (case sshbuf_get_u8 b2 of
                       (Inl r, _) \<Rightarrow> Inl r
                     | (Inr v, b3) \<Rightarrow>
                         (case sshbuf_get_u32 b3 of
                            (Inl r, _) \<Rightarrow> Inl r
                          | (Inr i, _) \<Rightarrow> Inr (v \<noteq> 0, map c_string ps))))))"

section \<open>Choosing\<close>

definition choose_enc :: "sshenc \<Rightarrow> string \<Rightarrow> string \<Rightarrow> unit res \<times> sshenc" where
  "choose_enc enc client server =
     (case fst (match_list client server) of
        None \<Rightarrow> (Inl SSH_ERR_NO_CIPHER_ALG_MATCH, enc)
      | Some name \<Rightarrow>
          (case cipher_by_name name of
             None \<Rightarrow> (Inl SSH_ERR_INTERNAL_ERROR, enc\<lparr>en_cipher := None\<rparr>)
           | Some c \<Rightarrow>
               (Inr (), enc\<lparr>en_cipher := Some c, en_name := Some name, en_enabled := False, en_iv := None,
                  en_iv_len := cipher_ivlen c, en_key := None, en_key_len := cipher_keylen c,
                  en_block_size := cipher_blocksize c\<rparr>)))"

definition choose_mac :: "(digest_alg \<Rightarrow> bool) \<Rightarrow> sshmac \<Rightarrow> string \<Rightarrow> string \<Rightarrow> unit res \<times> sshmac" where
  "choose_mac hs m client server =
     (case fst (match_list client server) of
        None \<Rightarrow> (Inl SSH_ERR_NO_MAC_ALG_MATCH, m)
      | Some name \<Rightarrow>
          (case mac_setup hs m name of
             (Inl _, m1) \<Rightarrow> (Inl SSH_ERR_INTERNAL_ERROR, m1)
           | (Inr _, m1) \<Rightarrow> (Inr (), m1\<lparr>sm_name := Some name, sm_key := None, sm_enabled := False\<rparr>)))"

definition choose_comp :: "sshcomp \<Rightarrow> string \<Rightarrow> string \<Rightarrow> unit res \<times> sshcomp" where
  "choose_comp cmp client server =
     (case fst (match_list client server) of
        None \<Rightarrow> (Inl SSH_ERR_NO_COMPRESS_ALG_MATCH, cmp)
      | Some name \<Rightarrow>
          if name = ''zlib@openssh.com'' then (Inr (), cmp\<lparr>co_type := COMP_DELAYED, co_name := Some name\<rparr>)
          else if name = ''zlib'' then (Inr (), cmp\<lparr>co_type := COMP_ZLIB, co_name := Some name\<rparr>)
          else if name = ''none'' then (Inr (), cmp\<lparr>co_type := COMP_NONE, co_name := Some name\<rparr>)
          else (Inl SSH_ERR_INTERNAL_ERROR, cmp))"

definition choose_kex :: "kex \<Rightarrow> string \<Rightarrow> string \<Rightarrow> unit res \<times> kex" where
  "choose_kex k client server =
     (let k1 = k\<lparr>kx_name := fst (match_list client server)\<rparr> in
      case kx_name k1 of
        None \<Rightarrow> (Inl SSH_ERR_NO_KEX_ALG_MATCH, k1)
      | Some name \<Rightarrow>
          (case kex_alg_by_name name of
             None \<Rightarrow> (Inl SSH_ERR_INTERNAL_ERROR, k1)
           | Some a \<Rightarrow> (Inr (), k1\<lparr>kx_kex_type := ka_type a, kx_hash_alg := ka_hash_alg a, kx_ec_nid := ka_ec_nid a\<rparr>)))"

definition choose_hostkeyalg :: "kex \<Rightarrow> string \<Rightarrow> string \<Rightarrow> unit res \<times> kex" where
  "choose_hostkeyalg k client server =
     (let k1 = k\<lparr>kx_hostkey_alg := fst (match_list client server)\<rparr> in
      case kx_hostkey_alg k1 of
        None \<Rightarrow> (Inl SSH_ERR_NO_HOSTKEY_ALG_MATCH, k1)
      | Some name \<Rightarrow>
          (let k2 = k1\<lparr>kx_hostkey_type := sshkey_type_from_name name\<rparr> in
           if kx_hostkey_type k2 = KEY_UNSPEC then (Inl SSH_ERR_INTERNAL_ERROR, k2)
           else (Inr (), k2\<lparr>kx_hostkey_nid := sshkey_ecdsa_nid_from_name name\<rparr>)))"

definition first_name :: "string \<Rightarrow> string" where
  "first_name s = takeWhile (\<lambda>c. c \<noteq> CHR '','') s"

definition proposals_match :: "string list \<Rightarrow> string list \<Rightarrow> bool" where
  "proposals_match my peer \<longleftrightarrow>
     first_name (my ! PROPOSAL_KEX_ALGS) = first_name (peer ! PROPOSAL_KEX_ALGS) \<and>
     first_name (my ! PROPOSAL_SERVER_HOST_KEY_ALGS) = first_name (peer ! PROPOSAL_SERVER_HOST_KEY_ALGS)"

definition kexalgs_contains :: "string list \<Rightarrow> string \<Rightarrow> bool" where
  "kexalgs_contains peer ext = has_any_alg (peer ! PROPOSAL_KEX_ALGS) ext"

text \<open>
  One direction of the loop over the modes: the new keys, and on failure the number of the
  proposal that has no match.
\<close>

definition choose_mode :: "(digest_alg \<Rightarrow> bool) \<Rightarrow> bool \<Rightarrow> string list \<Rightarrow> string list \<Rightarrow> (ssherr \<times> nat + unit) \<times> newkeys" where
  "choose_mode hs ctos cprop sprop =
     (let nenc = (if ctos then PROPOSAL_ENC_ALGS_CTOS else PROPOSAL_ENC_ALGS_STOC);
          nmac = (if ctos then PROPOSAL_MAC_ALGS_CTOS else PROPOSAL_MAC_ALGS_STOC);
          ncomp = (if ctos then PROPOSAL_COMP_ALGS_CTOS else PROPOSAL_COMP_ALGS_STOC);
          nk = newkeys_zero
      in case choose_enc (nk_enc nk) (cprop ! nenc) (sprop ! nenc) of
           (Inl r, e) \<Rightarrow> (Inl (r, nenc), nk\<lparr>nk_enc := e\<rparr>)
         | (Inr _, e) \<Rightarrow>
             (let nk1 = nk\<lparr>nk_enc := e\<rparr>;
                  authlen = (case en_cipher e of Some c \<Rightarrow> cipher_authlen c | None \<Rightarrow> 0)
              in case (if authlen = 0 then choose_mac hs (nk_mac nk1) (cprop ! nmac) (sprop ! nmac)
                       else (Inr (), nk_mac nk1)) of
                   (Inl r, m) \<Rightarrow> (Inl (r, nmac), nk1\<lparr>nk_mac := m\<rparr>)
                 | (Inr _, m) \<Rightarrow>
                     (case choose_comp (nk_comp nk1) (cprop ! ncomp) (sprop ! ncomp) of
                        (Inl r, c) \<Rightarrow> (Inl (r, ncomp), nk1\<lparr>nk_mac := m, nk_comp := c\<rparr>)
                      | (Inr _, c) \<Rightarrow> (Inr (), nk1\<lparr>nk_mac := m, nk_comp := c\<rparr>))))"

definition newkeys_need :: "newkeys \<Rightarrow> u32 \<Rightarrow> u32" where
  "newkeys_need nk need =
     max (max (max (max need (en_key_len (nk_enc nk))) (en_block_size (nk_enc nk))) (en_iv_len (nk_enc nk)))
       (sm_key_len (nk_mac nk))"

definition newkeys_dh_need :: "newkeys \<Rightarrow> u32 \<Rightarrow> u32" where
  "newkeys_dh_need nk need =
     max (max (max (max need (case en_cipher (nk_enc nk) of Some c \<Rightarrow> cipher_seclen c | None \<Rightarrow> 0)) (en_block_size (nk_enc nk)))
       (en_iv_len (nk_enc nk))) (sm_key_len (nk_mac nk))"

text \<open>The flags that the first exchange learns from the peer's proposal.\<close>

definition kex_learn_peer :: "kex \<Rightarrow> string list \<Rightarrow> kex" where
  "kex_learn_peer k peer =
     (if KEX_INITIAL \<in> kx_flags k then
        if kx_server k
        then k\<lparr>kx_ext_info_c := kexalgs_contains peer ''ext-info-c'',
               kx_kex_strict := kexalgs_contains peer ''kex-strict-c-v00@openssh.com''\<rparr>
        else k\<lparr>kx_ext_info_s := kexalgs_contains peer ''ext-info-s'',
               kx_kex_strict := kexalgs_contains peer ''kex-strict-s-v00@openssh.com''\<rparr>
      else k)"

definition kex_learn_rsa :: "kex \<Rightarrow> string list \<Rightarrow> kex" where
  "kex_learn_rsa k peer =
     (if kx_server k \<and> KEX_INITIAL \<in> kx_flags k
      then k\<lparr>kx_flags := kx_flags k \<union>
          (if has_any_alg (peer ! PROPOSAL_SERVER_HOST_KEY_ALGS) ''rsa-sha2-256,rsa-sha2-256-cert-v01@openssh.com''
           then {KEX_RSA_SHA2_256_SUPPORTED} else {}) \<union>
          (if has_any_alg (peer ! PROPOSAL_SERVER_HOST_KEY_ALGS) ''rsa-sha2-512,rsa-sha2-512-cert-v01@openssh.com''
           then {KEX_RSA_SHA2_512_SUPPORTED} else {})\<rparr>
      else k)"

definition SIZEOF_NEWKEYS :: size_t where "SIZEOF_NEWKEYS = 112"

fun choose_modes :: "allocator \<Rightarrow> (digest_alg \<Rightarrow> bool) \<Rightarrow> kex_mode list \<Rightarrow> kex \<Rightarrow> string list \<Rightarrow> string list \<Rightarrow> string list \<Rightarrow>
    unit res \<times> kex" where
  "choose_modes am hs [] k peer cprop sprop = (Inr (), k)"
| "choose_modes am hs (mode # modes) k peer cprop sprop =
     (if am SIZEOF_NEWKEYS = NULL then (Inl SSH_ERR_ALLOC_FAIL, k) else
      let ctos = (\<not> kx_server k \<and> mode = MODE_OUT \<or> kx_server k \<and> mode = MODE_IN)
      in case choose_mode hs ctos cprop sprop of
           (Inl (r, i), nk) \<Rightarrow> (Inl r, k\<lparr>kx_newkeys := (kx_newkeys k)(mode \<mapsto> nk), kx_failed_choice := Some (peer ! i)\<rparr>)
         | (Inr _, nk) \<Rightarrow> choose_modes am hs modes (k\<lparr>kx_newkeys := (kx_newkeys k)(mode \<mapsto> nk)\<rparr>) peer cprop sprop)"

text \<open>
  From the two parsed proposals. The second component of the result is
  \<^verbatim>\<open>dispatch_skip_packets\<close>, the third the state after the call.
\<close>

definition kex_choose_props :: "allocator \<Rightarrow> (digest_alg \<Rightarrow> bool) \<Rightarrow> kex \<Rightarrow> u32 \<Rightarrow> string list \<Rightarrow> string list \<Rightarrow> bool \<Rightarrow>
    (unit res \<times> bool \<times> kex) outcome" where
  "kex_choose_props am hs k seq my peer first_kex_follows =
     (let cprop = (if kx_server k then peer else my);
          sprop = (if kx_server k then my else peer);
          k1 = kex_learn_peer k peer
      in if KEX_INITIAL \<in> kx_flags k \<and> kx_kex_strict k1 \<and> seq \<noteq> 0 then Disconnect
         else
           let k2 = kex_learn_rsa k1 peer in
           case choose_kex k2 (cprop ! PROPOSAL_KEX_ALGS) (sprop ! PROPOSAL_KEX_ALGS) of
             (Inl r, k3) \<Rightarrow> Done (Inl r, False, k3\<lparr>kx_failed_choice := Some (peer ! PROPOSAL_KEX_ALGS)\<rparr>)
           | (Inr _, k3) \<Rightarrow>
               (case choose_hostkeyalg k3 (cprop ! PROPOSAL_SERVER_HOST_KEY_ALGS) (sprop ! PROPOSAL_SERVER_HOST_KEY_ALGS) of
                  (Inl r, k4) \<Rightarrow> Done (Inl r, False, k4\<lparr>kx_failed_choice := Some (peer ! PROPOSAL_SERVER_HOST_KEY_ALGS)\<rparr>)
                | (Inr _, k4) \<Rightarrow>
                    (case choose_modes am hs [MODE_IN, MODE_OUT] k4 peer cprop sprop of
                       (Inl r, k5) \<Rightarrow> Done (Inl r, False, k5)
                     | (Inr _, k5) \<Rightarrow>
                         let nks = map (\<lambda>m. the (kx_newkeys k5 m)) [MODE_IN, MODE_OUT];
                             k6 = k5\<lparr>kx_we_need := fold newkeys_need nks 0, kx_dh_need := fold newkeys_dh_need nks 0\<rparr>
                         in Done (Inr (), first_kex_follows \<and> \<not> proposals_match my peer, k6))))"

definition kex_choose_conf :: "allocator \<Rightarrow> (digest_alg \<Rightarrow> bool) \<Rightarrow> kex \<Rightarrow> u32 \<Rightarrow> (unit res \<times> bool \<times> kex) outcome" where
  "kex_choose_conf am hs k seq =
     (case kex_buf2prop am (kx_my k) of
        Inl r \<Rightarrow> Done (Inl r, False, k)
      | Inr (_, my) \<Rightarrow>
          (case kex_buf2prop am (kx_peer k) of
             Inl r \<Rightarrow> Done (Inl r, False, k)
           | Inr (follows, peer) \<Rightarrow> kex_choose_props am hs k seq my peer follows))"

section \<open>Deriving the keys\<close>

text \<open>\<open>dg\<close> is the digest of the exchange, \<open>None\<close> when the library fails.\<close>

type_synonym digest_fn = "digest_alg \<Rightarrow> byte list \<Rightarrow> byte list option"

function kdf_loop :: "digest_fn \<Rightarrow> digest_alg \<Rightarrow> byte list \<Rightarrow> nat \<Rightarrow> nat \<Rightarrow> byte list \<Rightarrow> byte list res" where
  "kdf_loop dg alg prefix need have_len digest =
     (if need > have_len
      then case dg alg (prefix @ digest) of
             None \<Rightarrow> Inl SSH_ERR_LIBCRYPTO_ERROR
           | Some d \<Rightarrow> kdf_loop dg alg prefix need (have_len + unat (ssh_digest_bytes alg)) (digest @ d)
      else Inr digest)"
  by pat_completeness auto
termination
proof (relation "measure (\<lambda>(dg, alg, p, need, have_len, d). need - have_len)")
  fix need have_len :: nat and dg :: digest_fn and alg p digest d
  assume "have_len < need"
  moreover have "0 < unat (ssh_digest_bytes alg)" by (cases alg) simp_all
  ultimately show "((dg, alg, p, need, have_len + unat (ssh_digest_bytes alg), digest @ d), dg, alg, p, need, have_len, digest)
      \<in> measure (\<lambda>(dg, alg, p, need, have_len, d). need - have_len)" by simp
qed simp

declare kdf_loop.simps [simp del]

definition kex_derive_key :: "allocator \<Rightarrow> digest_fn \<Rightarrow> kex \<Rightarrow> byte \<Rightarrow> u32 \<Rightarrow> byte list \<Rightarrow> sshbuf \<Rightarrow> byte list res" where
  "kex_derive_key am dg k key_id need hash shared_secret =
     (let mdsz = ssh_digest_bytes (kx_hash_alg k);
          prefix = sshbuf_bytes shared_secret @ hash
      in if am (ROUNDUP (ucast need) mdsz) = NULL then Inl SSH_ERR_ALLOC_FAIL
         else case dg (kx_hash_alg k) (prefix @ [key_id] @ sshbuf_bytes (kx_session_id k)) of
             None \<Rightarrow> Inl SSH_ERR_LIBCRYPTO_ERROR
           | Some d \<Rightarrow> kdf_loop dg (kx_hash_alg k) prefix (unat need) (unat mdsz) d)"

fun derive_all :: "(byte \<Rightarrow> byte list res) \<Rightarrow> byte list \<Rightarrow> byte list list res" where
  "derive_all f [] = Inr []"
| "derive_all f (c # cs) =
     (case f c of
        Inl r \<Rightarrow> Inl r
      | Inr key \<Rightarrow> (case derive_all f cs of Inl r \<Rightarrow> Inl r | Inr keys \<Rightarrow> Inr (key # keys)))"

definition newkeys_set_keys :: "byte list list \<Rightarrow> bool \<Rightarrow> newkeys \<Rightarrow> newkeys" where
  "newkeys_set_keys keys ctos nk =
     nk\<lparr>nk_enc := (nk_enc nk)\<lparr>en_iv := Some (keys ! (if ctos then 0 else 1)), en_key := Some (keys ! (if ctos then 2 else 3))\<rparr>,
        nk_mac := (nk_mac nk)\<lparr>sm_key := Some (keys ! (if ctos then 4 else 5))\<rparr>\<rparr>"

definition kex_derive_keys :: "allocator \<Rightarrow> digest_fn \<Rightarrow> kex \<Rightarrow> byte list \<Rightarrow> sshbuf \<Rightarrow> unit res \<times> kex" where
  "kex_derive_keys am dg k hash shared_secret =
     (case (if KEX_INITIAL \<in> kx_flags k
            then if sshbuf_len (kx_session_id k) \<noteq> 0 then (Inl SSH_ERR_INTERNAL_ERROR, kx_session_id k)
                 else sshbuf_put am (kx_session_id k) hash
            else if sshbuf_len (kx_session_id k) = 0 then (Inl SSH_ERR_INTERNAL_ERROR, kx_session_id k)
            else (Inr (), kx_session_id k)) of
        (Inl r, sid) \<Rightarrow> (Inl r, k\<lparr>kx_session_id := sid\<rparr>)
      | (Inr _, sid) \<Rightarrow>
          (let k1 = k\<lparr>kx_session_id := sid\<rparr> in
           case derive_all (\<lambda>c. kex_derive_key am dg k1 c (kx_we_need k1) hash shared_secret) [65, 66, 67, 68, 69, 70] of
             Inl r \<Rightarrow> (Inl r, k1)
           | Inr keys \<Rightarrow>
               (Inr (), k1\<lparr>kx_newkeys := (\<lambda>mode. map_option
                  (newkeys_set_keys keys (\<not> kx_server k1 \<and> mode = MODE_OUT \<or> kx_server k1 \<and> mode = MODE_IN))
                  (kx_newkeys k1 mode))\<rparr>)))"

end
