(* ===== verification/Kex_Agree.thy ===== *)
theory Kex_Agree
  imports Kex "HOL-Library.Monad_Syntax"
begin

text \<open>
  The two sides of a negotiation together. Each side chooses on its own, from the bytes of its
  own proposal and those it received; the lemmas show that the choice is a function of the two
  proposals alone, so that both sides come to the same algorithms, the same amount of key
  material, and from the same shared secret to the same keys for each direction.
\<close>

section \<open>Reading is a function of the contents\<close>

definition same_bytes :: "sshbuf \<Rightarrow> sshbuf \<Rightarrow> bool" where
  "same_bytes a b \<longleftrightarrow> sshbuf_inv a \<and> sshbuf_inv b \<and> sshbuf_contents a = sshbuf_contents b"

text \<open>Two reads that return the same and leave the same bytes.\<close>

definition same_read :: "'a res \<times> sshbuf \<Rightarrow> 'a res \<times> sshbuf \<Rightarrow> bool" where
  "same_read r s \<longleftrightarrow> fst r = fst s \<and> same_bytes (snd r) (snd s)"

lemma same_readI: "r = (x, a) \<Longrightarrow> s = (x, b) \<Longrightarrow> same_bytes a b \<Longrightarrow> same_read r s"
  by (simp add: same_read_def)

lemma same_readD: "same_read (x, a) (y, b) \<Longrightarrow> x = y \<and> same_bytes a b"
  by (simp add: same_read_def)

lemma same_bytes_read_to: "same_bytes a b \<Longrightarrow> sshbuf_read_to a n a' \<Longrightarrow> sshbuf_read_to b n b' \<Longrightarrow> same_bytes a' b'"
  by (simp add: same_bytes_def sshbuf_read_to_def)

lemma same_get: "same_bytes a b \<Longrightarrow> same_read (sshbuf_get a n) (sshbuf_get b n)"
  using sshbuf_get_eq [of a n] sshbuf_get_eq [of b n]
  by (cases "unat n \<le> length (sshbuf_contents a)") (auto simp: same_bytes_def same_read_def sshbuf_read_to_def)

lemma same_consume: "same_bytes a b \<Longrightarrow> same_read (sshbuf_consume a n) (sshbuf_consume b n)"
  using sshbuf_consume_read_to [of a n] sshbuf_consume_read_to [of b n] sshbuf_consume_eq(1) [of a n] sshbuf_consume_eq(1) [of b n]
  by (cases "unat n \<le> length (sshbuf_contents a)") (auto simp: same_bytes_def same_read_def sshbuf_read_to_def)

lemma same_read_map: "same_read r s \<Longrightarrow> same_read (apfst f r) (apfst f s)"
  by (cases r; cases s) (simp add: same_read_def)

lemma same_get_int:
  assumes "same_bytes a b"
  shows "same_read (sshbuf_get_u8 a) (sshbuf_get_u8 b)" "same_read (sshbuf_get_u32 a) (sshbuf_get_u32 b)"
  using same_get [OF assms] assms by (auto simp: same_bytes_def sshbuf_get_int_eq intro: same_read_map)

lemma same_get_cstring:
  assumes "same_bytes a b" "\<And>n. am n \<noteq> NULL" "\<And>n. am' n \<noteq> NULL"
  shows "same_read (sshbuf_get_cstring am a) (sshbuf_get_cstring am' b)"
proof -
  have inv: "sshbuf_inv a" "sshbuf_inv b" using assms(1) by (simp_all add: same_bytes_def)
  have peek: "sshbuf_peek_string_direct a = sshbuf_peek_string_direct b"
    using assms(1) by (simp add: same_bytes_def sshbuf_peek_string_direct_eq)
  show ?thesis
  proof (cases "sshbuf_peek_string_direct a")
    case (Inl r)
    have "sshbuf_get_cstring am a = (Inl r, a)" "sshbuf_get_cstring am' b = (Inl r, b)"
      using Inl peek sshbuf_get_cstring_eq(1) inv by metis+
    with assms show ?thesis by (simp add: same_read_def)
  next
    case (Inr v)
    show ?thesis
    proof (cases "nul_only_last v")
      case True
      from sshbuf_get_cstring_eq(3) [OF inv(1) Inr True, of am] sshbuf_get_cstring_eq(3) [OF inv(2) Inr [unfolded peek] True, of am']
      show ?thesis using assms(2,3) by (auto intro: same_readI same_bytes_read_to [OF assms(1)])
    next
      case False
      have "sshbuf_get_cstring am a = (Inl SSH_ERR_INVALID_FORMAT, a)" "sshbuf_get_cstring am' b = (Inl SSH_ERR_INVALID_FORMAT, b)"
        using Inr False peek sshbuf_get_cstring_eq(2) inv by metis+
      with assms show ?thesis by (simp add: same_read_def)
    qed
  qed
qed

lemma same_get_all:
  assumes "\<And>a b. same_bytes a b \<Longrightarrow> same_read (g a) (h b)" "same_bytes a b"
  shows "same_read (get_all (\<lambda>b _. g b) a ks) (get_all (\<lambda>b _. h b) b ks)"
  using assms(2)
proof (induction ks arbitrary: a b)
  case Nil
  then show ?case by (simp add: same_read_def)
next
  case (Cons k ks)
  obtain x a1 y b1 where g: "g a = (x, a1)" "h b = (y, b1)" by (metis surj_pair)
  with same_readD assms(1) [OF Cons.prems] have s: "x = y" "same_bytes a1 b1" by auto
  obtain xs a2 ys b2 where "get_all (\<lambda>b _. g b) a1 ks = (xs, a2)" "get_all (\<lambda>b _. h b) b1 ks = (ys, b2)" by (metis surj_pair)
  with same_readD Cons.IH [OF s(2)] have "xs = ys" "same_bytes a2 b2" by fastforce+
  with g s \<open>get_all _ a1 ks = _\<close> \<open>get_all _ b1 ks = _\<close> show ?case by (auto simp: same_read_def split: sum.split)
qed

lemma sshbuf_view_ok:
  assumes inv: "sshbuf_inv raw" and "sshbuf_ptr raw \<noteq> NULL" "\<And>n. am n \<noteq> NULL"
  shows "\<exists>b. sshbuf_view am raw = Some b \<and> sshbuf_inv b \<and> sshbuf_contents b = sshbuf_contents raw"
proof -
  let ?m = "drop (unat (sb_off raw)) (sb_mem raw)"
  have len: "unat (sshbuf_len raw) \<le> length ?m"
    using inv sshbuf_inv_bounds [OF inv] by (simp add: length_contents)
  have "sshbuf_len raw \<le> SSHBUF_SIZE_MAX"
    using sshbuf_inv_bounds(4) [OF inv] length_contents_le_max [OF inv] 
    by (simp add: word_le_nat_alt SSHBUF_SIZE_MAX_def unat_sshbuf_len [OF inv])
  then obtain b where b: "sshbuf_from am (sshbuf_ptr raw) ?m (sshbuf_len raw) = Some b"
    using assms by (auto simp: sshbuf_from_def not_less)
  note new = sshbuf_from_ok [OF b len]
  have "sshbuf_contents b = sshbuf_contents raw"
    unfolding new(2) unat_sshbuf_len [OF inv] length_contents [OF inv]
    by (simp add: sshbuf_contents_def mem_read_def)
  with b new(1) inv show ?thesis by (simp add: sshbuf_view_def)
qed

lemma kex_buf2prop_same:
  assumes "same_bytes a b" "sshbuf_ptr a \<noteq> NULL" "sshbuf_ptr b \<noteq> NULL" "\<And>n. am n \<noteq> NULL" "\<And>n. am' n \<noteq> NULL"
  shows "kex_buf2prop am a = kex_buf2prop am' b"
proof -
  obtain a0 b0 where v: "sshbuf_view am a = Some a0" "sshbuf_view am' b = Some b0" "same_bytes a0 b0"
    using sshbuf_view_ok [of a am] sshbuf_view_ok [of b am'] assms by (auto simp: same_bytes_def)
  obtain x a1 y b1 where c: "sshbuf_consume a0 16 = (x, a1)" "sshbuf_consume b0 16 = (y, b1)" by (metis surj_pair)
  with same_readD same_consume [OF v(3), of 16] have s1: "x = y" "same_bytes a1 b1" by fastforce+
  have cs: "\<And>a b. same_bytes a b \<Longrightarrow> same_read (sshbuf_get_cstring am a) (sshbuf_get_cstring am' b)"
    using assms(4,5) by (blast intro: same_get_cstring)
  let ?g = "\<lambda>am b. get_all (\<lambda>b _. sshbuf_get_cstring am b) b (replicate 10 ())"
  obtain xs a2 ys b2 where g: "?g am a1 = (xs, a2)" "?g am' b1 = (ys, b2)" by (metis surj_pair)
  with same_readD same_get_all [of "sshbuf_get_cstring am" "sshbuf_get_cstring am'", OF cs s1(2), of "replicate 10 ()"] have s2: "xs = ys" "same_bytes a2 b2" by fastforce+
  obtain u a3 w b3 where t: "sshbuf_get_u8 a2 = (u, a3)" "sshbuf_get_u8 b2 = (w, b3)" by (metis surj_pair)
  with same_readD same_get_int(1) [OF s2(2)] have s3: "u = w" "same_bytes a3 b3" by fastforce+
  obtain p a4 q b4 where z: "sshbuf_get_u32 a3 = (p, a4)" "sshbuf_get_u32 b3 = (q, b4)" by (metis surj_pair)
  with same_readD same_get_int(2) [OF s3(2)] have s4: "p = q" by fastforce
  show ?thesis
    using v(1,2) c g t z s1(1) s2(1) s3(1) s4 assms(4,5) by (simp add: kex_buf2prop_def split: sum.split)
qed

section \<open>Writing a proposal and reading it back\<close>

text \<open>The fields of the payload of a proposal message, in their order, and their bytes.\<close>

definition kexinit_fields :: "byte list \<Rightarrow> string list \<Rightarrow> byte \<Rightarrow> u32 \<Rightarrow> wire_field list" where
  "kexinit_fields cookie ps follows reserved =
     map F8 cookie @ map (\<lambda>p. FString (map chr_byte p)) ps @ [F8 follows, F32 reserved]"

definition enc_kexinit :: "byte list \<Rightarrow> string list \<Rightarrow> byte \<Rightarrow> u32 \<Rightarrow> byte list" where
  "enc_kexinit cookie ps follows reserved = concat (map enc_field (kexinit_fields cookie ps follows reserved))"

lemma concat_bytes [simp]: "concat (map (\<lambda>x. [x]) xs) = xs"
  by (induction xs) auto

lemma enc_kexinit_eq:
  "enc_kexinit cookie ps follows reserved =
     cookie @ concat (map (\<lambda>p. enc_string (map chr_byte p)) ps) @ [follows] @ POKE_U32 reserved"
  by (simp add: enc_kexinit_def kexinit_fields_def o_def)

lemma put_all_append:
  "put_all put b (xs @ ys) = (case put_all put b xs of (Inl r, b1) \<Rightarrow> (Inl r, b1) | (Inr _, b1) \<Rightarrow> put_all put b1 ys)"
  by (induction xs arbitrary: b) (auto split: prod.split sum.split)

lemma put_all_map: "put_all put b (map f xs) = put_all (\<lambda>b x. put b (f x)) b xs"
  by (induction xs arbitrary: b) (auto split: prod.split sum.split)

lemma put_all_single: "put_all put b [x] = put b x"
  "put_all put b [x, y] = (case put b x of (Inl r, b1) \<Rightarrow> (Inl r, b1) | (Inr _, b1) \<Rightarrow> put b1 y)"
  by (auto split: prod.split sum.split)

lemma kex_prop2buf_fields:
  "kex_prop2buf am b ps = put_all (put_field am) (sshbuf_reset am b) (kexinit_fields (replicate 16 0) ps 0 0)"
  by (simp add: kex_prop2buf_def kexinit_fields_def put_all_append put_all_map put_all_single sshbuf_put_cstring_def
      del: map_replicate put_all.simps(2) split: prod.split sum.split)

text \<open>A string without a zero character that fits a buffer.\<close>

definition wire_cstring :: "string \<Rightarrow> bool" where
  "wire_cstring p \<longleftrightarrow> CHR 0x00 \<notin> set p \<and> length p \<le> STRING_MAX"

lemma chr_byte_eq_0 [simp]: "chr_byte c = 0 \<longleftrightarrow> c = CHR 0x00"
proof -
  have "chr_byte CHR 0x00 = 0" by (simp add: chr_byte_def)
  then show ?thesis by (metis byte_chr_chr_byte)
qed

lemma c_string_chr [simp]: "CHR 0x00 \<notin> set p \<Longrightarrow> c_string (map chr_byte p) = p"
proof -
  assume "CHR 0x00 \<notin> set p"
  then have "takeWhile (\<lambda>x. x \<noteq> 0) (map chr_byte p) = map chr_byte p" by (auto simp: takeWhile_eq_all_conv)
  then show ?thesis unfolding c_string_def by (simp only:) (simp add: o_def)
qed

lemma get_cstring_enc:
  assumes "sshbuf_inv b" "sshbuf_contents b = enc_string (map chr_byte p) @ rest" "wire_cstring p" "\<And>n. am n \<noteq> NULL"
  shows "\<exists>b'. sshbuf_get_cstring am b = (Inr (map chr_byte p), b') \<and> sshbuf_inv b' \<and> sshbuf_contents b' = rest"
proof -
  have "sshbuf_peek_string_direct b = Inr (map chr_byte p)"
    using peek_string_enc [OF assms(1,2)] assms(3) by (simp add: wire_cstring_def)
  moreover have "nul_only_last (map chr_byte p)"
    using assms(3) by (auto simp: nul_only_last_def wire_cstring_def dest!: in_set_butlastD)
  ultimately obtain b' where "sshbuf_get_cstring am b = (Inr (map chr_byte p), b')" "sshbuf_read_to b (length p + 4) b'"
    using sshbuf_get_cstring_eq(3) [OF assms(1), of "map chr_byte p" am] assms(4) by auto
  then show ?thesis using assms(2) by (auto simp: sshbuf_read_to_def enc_string_def)
qed

lemma get_cstrings_enc:
  assumes "sshbuf_inv b" "sshbuf_contents b = concat (map (\<lambda>p. enc_string (map chr_byte p)) ps) @ rest"
    "list_all wire_cstring ps" "\<And>n. am n \<noteq> NULL"
  shows "\<exists>b'. get_all (\<lambda>b _. sshbuf_get_cstring am b) b (replicate (length ps) ()) = (Inr (map (map chr_byte) ps), b') \<and>
    sshbuf_inv b' \<and> sshbuf_contents b' = rest"
  using assms(1-3)
proof (induction ps arbitrary: b)
  case (Cons p ps)
  obtain b1 where b1: "sshbuf_get_cstring am b = (Inr (map chr_byte p), b1)" "sshbuf_inv b1"
    "sshbuf_contents b1 = concat (map (\<lambda>p. enc_string (map chr_byte p)) ps) @ rest"
    using get_cstring_enc [OF Cons.prems(1), of p "concat (map (\<lambda>p. enc_string (map chr_byte p)) ps) @ rest" am] Cons.prems(2,3) assms(4) by auto
  from Cons.IH [OF b1(2,3)] Cons.prems(3) b1(1) show ?case by auto
qed simp

lemma kex_buf2prop_enc:
  assumes raw: "sshbuf_inv raw" "sshbuf_ptr raw \<noteq> NULL" "\<And>n. am n \<noteq> NULL"
    and c: "sshbuf_contents raw = enc_kexinit cookie ps follows reserved" "length cookie = 16" "length ps = 10"
      "list_all wire_cstring ps"
  shows "kex_buf2prop am raw = Inr (follows \<noteq> 0, ps)"
proof -
  obtain b where b: "sshbuf_view am raw = Some b" "sshbuf_inv b" "sshbuf_contents b = sshbuf_contents raw"
    using sshbuf_view_ok [of raw am] raw by blast
  obtain b1 where b1: "sshbuf_consume b 16 = (Inr (), b1)" "sshbuf_inv b1"
    "sshbuf_contents b1 = concat (map (\<lambda>p. enc_string (map chr_byte p)) ps) @ [follows] @ POKE_U32 reserved"
    using sshbuf_consume_read_to [OF b(2), of 16] b(3) c(1,2) by (auto simp: enc_kexinit_eq sshbuf_read_to_def)
  obtain b2 where b2: "get_all (\<lambda>b _. sshbuf_get_cstring am b) b1 (replicate 10 ()) = (Inr (map (map chr_byte) ps), b2)"
    "sshbuf_inv b2" "sshbuf_contents b2 = [follows] @ POKE_U32 reserved"
    using get_cstrings_enc [OF b1(2,3) c(4), of am] raw(3) c(3) by auto
  obtain b3 where b3: "sshbuf_get_u8 b2 = (Inr follows, b3)" "sshbuf_inv b3" "sshbuf_contents b3 = POKE_U32 reserved"
    using get_raw_front [OF b2(2,3), of 1] by (auto simp: sshbuf_get_int_eq [OF b2(2)])
  obtain b4 where b4: "sshbuf_get_u32 b3 = (Inr reserved, b4)"
    using get_raw_front [OF b3(2), of "POKE_U32 reserved" "[]" 4] b3(3) by (auto simp: sshbuf_get_int_eq [OF b3(2)])
  have "map (c_string \<circ> map chr_byte) ps = ps"
    using c(4) by (induction ps) (auto simp: wire_cstring_def)
  then show ?thesis
    using b(1) b1(1) b2(1) b3(1) b4 raw(3) by (simp add: kex_buf2prop_def)
qed

section \<open>The choice as a function of the two proposals\<close>

text \<open>What a negotiation settles, independent of the side that computes it.\<close>

record agreed =
  ag_name :: string
  ag_alg :: kexalg
  ag_hostkey :: string
  ag_ctos :: newkeys
  ag_stoc :: newkeys

definition chosen_mode :: "(digest_alg \<Rightarrow> bool) \<Rightarrow> bool \<Rightarrow> string list \<Rightarrow> string list \<Rightarrow> newkeys option" where
  "chosen_mode hs ctos c s = (case choose_mode hs ctos c s of (Inr _, nk) \<Rightarrow> Some nk | (Inl _, _) \<Rightarrow> None)"

definition negotiated :: "(digest_alg \<Rightarrow> bool) \<Rightarrow> string list \<Rightarrow> string list \<Rightarrow> agreed option" where
  "negotiated hs c s = do {
     name \<leftarrow> fst (match_list (c ! PROPOSAL_KEX_ALGS) (s ! PROPOSAL_KEX_ALGS));
     alg \<leftarrow> kex_alg_by_name name;
     hostkey \<leftarrow> fst (match_list (c ! PROPOSAL_SERVER_HOST_KEY_ALGS) (s ! PROPOSAL_SERVER_HOST_KEY_ALGS));
     (if sshkey_type_from_name hostkey = KEY_UNSPEC then None else Some ());
     ctos \<leftarrow> chosen_mode hs True c s;
     stoc \<leftarrow> chosen_mode hs False c s;
     Some \<lparr>ag_name = name, ag_alg = alg, ag_hostkey = hostkey, ag_ctos = ctos, ag_stoc = stoc\<rparr>}"

text \<open>The direction of a mode as each side sees it.\<close>

definition dir_mode :: "bool \<Rightarrow> bool \<Rightarrow> kex_mode" where
  "dir_mode server ctos = (if server = ctos then MODE_IN else MODE_OUT)"

definition holds_agreed :: "kex \<Rightarrow> agreed \<Rightarrow> bool" where
  "holds_agreed k a \<longleftrightarrow>
     kx_name k = Some (ag_name a) \<and> kx_kex_type k = ka_type (ag_alg a) \<and> kx_hash_alg k = ka_hash_alg (ag_alg a) \<and>
     kx_ec_nid k = ka_ec_nid (ag_alg a) \<and> kx_hostkey_alg k = Some (ag_hostkey a) \<and>
     kx_hostkey_type k = sshkey_type_from_name (ag_hostkey a) \<and> kx_hostkey_nid k = sshkey_ecdsa_nid_from_name (ag_hostkey a) \<and>
     kx_newkeys k (dir_mode (kx_server k) True) = Some (ag_ctos a) \<and>
     kx_newkeys k (dir_mode (kx_server k) False) = Some (ag_stoc a) \<and>
     kx_we_need k = fold newkeys_need [ag_ctos a, ag_stoc a] 0 \<and>
     kx_dh_need k = fold newkeys_dh_need [ag_ctos a, ag_stoc a] 0"

lemma newkeys_need_commute:
  "newkeys_need a (newkeys_need b n) = newkeys_need b (newkeys_need a n)"
  "newkeys_dh_need a (newkeys_dh_need b n) = newkeys_dh_need b (newkeys_dh_need a n)"
  unfolding newkeys_need_def newkeys_dh_need_def by (simp_all only: max.assoc max.commute max.left_commute)

lemma kex_learn_server [simp]: "kx_server (kex_learn_rsa (kex_learn_peer k peer) peer) = kx_server k"
  by (simp add: kex_learn_rsa_def kex_learn_peer_def)

lemma choose_kex_cases:
  "choose_kex k c s = (case fst (match_list c s) of
     None \<Rightarrow> (Inl SSH_ERR_NO_KEX_ALG_MATCH, k\<lparr>kx_name := None\<rparr>)
   | Some name \<Rightarrow> (case kex_alg_by_name name of
       None \<Rightarrow> (Inl SSH_ERR_INTERNAL_ERROR, k\<lparr>kx_name := Some name\<rparr>)
     | Some a \<Rightarrow> (Inr (), k\<lparr>kx_name := Some name, kx_kex_type := ka_type a, kx_hash_alg := ka_hash_alg a, kx_ec_nid := ka_ec_nid a\<rparr>)))"
  by (simp add: choose_kex_def split: option.split)

lemma choose_hostkeyalg_cases:
  "choose_hostkeyalg k c s = (case fst (match_list c s) of
     None \<Rightarrow> (Inl SSH_ERR_NO_HOSTKEY_ALG_MATCH, k\<lparr>kx_hostkey_alg := None\<rparr>)
   | Some name \<Rightarrow>
       if sshkey_type_from_name name = KEY_UNSPEC
       then (Inl SSH_ERR_INTERNAL_ERROR, k\<lparr>kx_hostkey_alg := Some name, kx_hostkey_type := KEY_UNSPEC\<rparr>)
       else (Inr (), k\<lparr>kx_hostkey_alg := Some name, kx_hostkey_type := sshkey_type_from_name name,
                        kx_hostkey_nid := sshkey_ecdsa_nid_from_name name\<rparr>))"
  by (simp add: choose_hostkeyalg_def split: option.split)

lemma choose_modes_ok:
  assumes "chosen_mode hs (kx_server k) c s = Some i" "chosen_mode hs (\<not> kx_server k) c s = Some j"
    "am SIZEOF_NEWKEYS \<noteq> NULL"
  shows "choose_modes am hs [MODE_IN, MODE_OUT] k peer c s = (Inr (), k\<lparr>kx_newkeys := (kx_newkeys k)(MODE_IN \<mapsto> i, MODE_OUT \<mapsto> j)\<rparr>)"
  using assms by (cases "choose_mode hs True c s"; cases "choose_mode hs False c s"; cases "kx_server k")
    (auto simp: chosen_mode_def split: sum.splits)

lemma choose_modes_err:
  assumes "chosen_mode hs (kx_server k) c s = None \<or> chosen_mode hs (\<not> kx_server k) c s = None \<or> am SIZEOF_NEWKEYS = NULL"
  shows "\<exists>r k'. choose_modes am hs [MODE_IN, MODE_OUT] k peer c s = (Inl r, k') \<and> kx_server k' = kx_server k"
  using assms by (cases "choose_mode hs True c s"; cases "choose_mode hs False c s"; cases "kx_server k")
    (auto simp: chosen_mode_def split: sum.splits)

declare choose_modes.simps [simp del]

lemma negotiated_None: "chosen_mode hs ctos c s = None \<Longrightarrow> negotiated hs c s = None"
  by (cases ctos) (auto simp: negotiated_def split: bind_splits)

text \<open>The loop over the modes and the sizes that follow it, from a state with the names settled.\<close>

definition choose_rest :: "allocator \<Rightarrow> (digest_alg \<Rightarrow> bool) \<Rightarrow> kex \<Rightarrow> string list \<Rightarrow> string list \<Rightarrow> string list \<Rightarrow> bool \<Rightarrow> (unit res \<times> bool \<times> kex) outcome" where
  "choose_rest am hs k peer c s skip =
     (case choose_modes am hs [MODE_IN, MODE_OUT] k peer c s of
        (Inl r, k5) \<Rightarrow> Done (Inl r, False, k5)
      | (Inr _, k5) \<Rightarrow>
          let nks = map (\<lambda>m. the (kx_newkeys k5 m)) [MODE_IN, MODE_OUT]
          in Done (Inr (), skip, k5\<lparr>kx_we_need := fold newkeys_need nks 0, kx_dh_need := fold newkeys_dh_need nks 0\<rparr>))"

lemma choose_rest_err:
  assumes "chosen_mode hs ctos c s = None \<or> am SIZEOF_NEWKEYS = NULL" "choose_rest am hs k peer c s b = Done (r, skip, k')"
  shows "kx_server k' = kx_server k" "r \<noteq> Inr ()"
proof -
  have "chosen_mode hs (kx_server k) c s = None \<or> chosen_mode hs (\<not> kx_server k) c s = None \<or> am SIZEOF_NEWKEYS = NULL"
    using assms(1) by (cases ctos; cases "kx_server k") auto
  from choose_modes_err [of hs k c s am peer, OF this] assms(2) show "kx_server k' = kx_server k" "r \<noteq> Inr ()"
    by (auto simp: choose_rest_def)
qed

lemma choose_rest_ok:
  assumes "chosen_mode hs True c s = Some i" "chosen_mode hs False c s = Some j" "am SIZEOF_NEWKEYS \<noteq> NULL"
    "choose_rest am hs k peer c s b = Done (r, skip, k')"
  shows "r = Inr ()" and "k' = k\<lparr>
      kx_newkeys := (kx_newkeys k)(dir_mode (kx_server k) True \<mapsto> i, dir_mode (kx_server k) False \<mapsto> j),
      kx_we_need := fold newkeys_need [i, j] 0, kx_dh_need := fold newkeys_dh_need [i, j] 0\<rparr>"
proof -
  let ?i = "if kx_server k then i else j" and ?j = "if kx_server k then j else i"
  have "choose_modes am hs [MODE_IN, MODE_OUT] k peer c s = (Inr (), k\<lparr>kx_newkeys := (kx_newkeys k)(MODE_IN \<mapsto> ?i, MODE_OUT \<mapsto> ?j)\<rparr>)"
    using assms(1-3) by (intro choose_modes_ok) auto
  with assms(4) show "r = Inr ()" "k' = k\<lparr>
      kx_newkeys := (kx_newkeys k)(dir_mode (kx_server k) True \<mapsto> i, dir_mode (kx_server k) False \<mapsto> j),
      kx_we_need := fold newkeys_need [i, j] 0, kx_dh_need := fold newkeys_dh_need [i, j] 0\<rparr>"
    using newkeys_need_commute [of i j 0]
    by (auto simp: choose_rest_def dir_mode_def fun_upd_twist)
qed

lemma kex_choose_props_refines:
  assumes "kex_choose_props am hs k seq my peer f = Done (r, skip, k')"
    and "c = (if kx_server k then peer else my)" "s = (if kx_server k then my else peer)"
  shows "kx_server k' = kx_server k \<and>
    (case negotiated hs c s of None \<Rightarrow> r \<noteq> Inr ()
     | Some a \<Rightarrow> if am SIZEOF_NEWKEYS = NULL then r \<noteq> Inr () else r = Inr () \<and> holds_agreed k' a)"
proof (cases "fst (match_list (c ! 0) (s ! 0))")
  case None
  with assms show ?thesis by (auto simp: kex_choose_props_def Let_def choose_kex_cases negotiated_def split: if_splits)
next
  case name: (Some name)
  note run = assms(1) [unfolded kex_choose_props_def Let_def, folded assms(2,3) choose_rest_def [unfolded Let_def]]
  show ?thesis
  proof (cases "kex_alg_by_name name")
    case None
    with name run show ?thesis by (auto simp: choose_kex_cases negotiated_def split: if_splits)
  next
    case alg: (Some alg)
    show ?thesis
    proof (cases "fst (match_list (c ! 1) (s ! 1))")
      case None
      with name alg run show ?thesis by (auto simp: choose_kex_cases choose_hostkeyalg_cases negotiated_def split: if_splits)
    next
      case hk: (Some hk)
      show ?thesis
      proof (cases "sshkey_type_from_name hk = KEY_UNSPEC")
        case True
        with name alg hk run show ?thesis
          by (auto simp: choose_kex_cases choose_hostkeyalg_cases negotiated_def split: if_splits)
      next
        case False
        define k4 where "k4 = (kex_learn_rsa (kex_learn_peer k peer) peer)\<lparr>kx_name := Some name, kx_kex_type := ka_type alg,
          kx_hash_alg := ka_hash_alg alg, kx_ec_nid := ka_ec_nid alg, kx_hostkey_alg := Some hk,
          kx_hostkey_type := sshkey_type_from_name hk, kx_hostkey_nid := sshkey_ecdsa_nid_from_name hk\<rparr>"
        have rest: "choose_rest am hs k4 peer c s (f \<and> \<not> proposals_match my peer) = Done (r, skip, k')"
          using run name alg hk False by (auto simp: choose_kex_cases choose_hostkeyalg_cases k4_def split: if_splits)
        show ?thesis
        proof (cases "chosen_mode hs True c s = None \<or> chosen_mode hs False c s = None \<or> am SIZEOF_NEWKEYS = NULL")
          case True
          then obtain ctos where none: "chosen_mode hs ctos c s = None \<or> am SIZEOF_NEWKEYS = NULL" by blast
          from choose_rest_err [of hs ctos c s am, OF this rest] negotiated_None [of hs ctos c s] none show ?thesis
            by (auto simp: k4_def split: option.split)
        next
          case ij: False
          then obtain i j where ij: "chosen_mode hs True c s = Some i" "chosen_mode hs False c s = Some j"
            "am SIZEOF_NEWKEYS \<noteq> NULL" by auto
          from choose_rest_ok [OF ij rest] name alg hk False ij show ?thesis
            by (simp add: k4_def negotiated_def holds_agreed_def dir_mode_def)
        qed
      qed
    qed
  qed
qed

text \<open>The choice of a side from the bytes it holds.\<close>

lemma kex_choose_conf_refines:
  assumes "kex_choose_conf am hs k seq = Done (r, skip, k')"
    and "kex_buf2prop am (kx_my k) = Inr (f, my)" "kex_buf2prop am (kx_peer k) = Inr (g, peer)"
  shows "kx_server k' = kx_server k \<and>
    (case negotiated hs (if kx_server k then peer else my) (if kx_server k then my else peer) of
       None \<Rightarrow> r \<noteq> Inr ()
     | Some a \<Rightarrow> if am SIZEOF_NEWKEYS = NULL then r \<noteq> Inr () else r = Inr () \<and> holds_agreed k' a)"
  using kex_choose_props_refines [OF _ refl refl, of am hs k seq my peer g r skip k'] assms
  by (simp add: kex_choose_conf_def)

lemma kex_choose_conf_bad:
  assumes "kex_choose_conf am hs k seq = Done (r, skip, k')"
    and "kex_buf2prop am (kx_my k) = Inl e \<or> kex_buf2prop am (kx_peer k) = Inl e"
  shows "r \<noteq> Inr ()"
  using assms by (auto simp: kex_choose_conf_def split: sum.splits)

text \<open>
  C6: Both sides agree. A client and a server that hold each other's proposal as it was sent
  either both fail to settle the algorithms or both succeed; when they succeed they have the
  same exchange method, hash, curve and host key algorithm, what one side sends with is what the
  other receives with in both directions, and both will derive the same amount of key material.
\<close>

theorem kex_agreement:
  assumes "\<not> kx_server kc" "kx_server ks"
    and "same_bytes (kx_my kc) (kx_peer ks)" "same_bytes (kx_my ks) (kx_peer kc)"
    and "\<forall>b \<in> {kx_my kc, kx_peer kc, kx_my ks, kx_peer ks}. sshbuf_ptr b \<noteq> NULL"
    and "\<And>n. am n \<noteq> NULL" "\<And>n. am' n \<noteq> NULL"
    and c: "kex_choose_conf am hs kc seqc = Done (rc, skipc, kc')"
    and s: "kex_choose_conf am' hs ks seqs = Done (rs, skips, ks')"
  shows "(rc = Inr () \<longleftrightarrow> rs = Inr ()) \<and>
    (rc = Inr () \<longrightarrow>
       kx_newkeys kc' MODE_OUT = kx_newkeys ks' MODE_IN \<and> kx_newkeys kc' MODE_IN = kx_newkeys ks' MODE_OUT \<and>
       kx_newkeys kc' MODE_OUT \<noteq> None \<and> kx_newkeys kc' MODE_IN \<noteq> None \<and>
       kx_name kc' = kx_name ks' \<and> kx_kex_type kc' = kx_kex_type ks' \<and> kx_hash_alg kc' = kx_hash_alg ks' \<and>
       kx_ec_nid kc' = kx_ec_nid ks' \<and> kx_hostkey_alg kc' = kx_hostkey_alg ks' \<and>
       kx_hostkey_type kc' = kx_hostkey_type ks' \<and> kx_hostkey_nid kc' = kx_hostkey_nid ks' \<and>
       kx_we_need kc' = kx_we_need ks' \<and> kx_dh_need kc' = kx_dh_need ks')"
proof -
  have eq: "kex_buf2prop am (kx_my kc) = kex_buf2prop am' (kx_peer ks)" "kex_buf2prop am' (kx_my ks) = kex_buf2prop am (kx_peer kc)"
    using assms(3-7) by (auto intro: kex_buf2prop_same)
  show ?thesis
  proof (cases "\<exists>e. kex_buf2prop am (kx_my kc) = Inl e \<or> kex_buf2prop am (kx_peer kc) = Inl e")
    case True
    then obtain e where "kex_buf2prop am (kx_my kc) = Inl e \<or> kex_buf2prop am (kx_peer kc) = Inl e"
      "kex_buf2prop am' (kx_my ks) = Inl e \<or> kex_buf2prop am' (kx_peer ks) = Inl e" by (auto simp: eq)
    with kex_choose_conf_bad [OF c] kex_choose_conf_bad [OF s] show ?thesis by blast
  next
    case False
    then obtain f my g peer where my: "kex_buf2prop am (kx_my kc) = Inr (f, my)" and peer: "kex_buf2prop am (kx_peer kc) = Inr (g, peer)"
      by (metis sum.exhaust surj_pair)
    have "case negotiated hs my peer of None \<Rightarrow> rc \<noteq> Inr () \<and> rs \<noteq> Inr ()
      | Some a \<Rightarrow> rc = Inr () \<and> rs = Inr () \<and> holds_agreed kc' a \<and> holds_agreed ks' a \<and> \<not> kx_server kc' \<and> kx_server ks'"
      using kex_choose_conf_refines [OF c my peer] kex_choose_conf_refines [OF s, unfolded eq, OF peer, of f my] my eq assms(1,2,6,7)
      by (simp split: option.splits)
    then show ?thesis by (auto simp: holds_agreed_def dir_mode_def split: option.splits)
  qed
qed

text \<open>An example: the server prefers another method and another cipher, the client's order decides.\<close>

definition ex_cprop :: "string list" where
  "ex_cprop = [''curve25519-sha256'', ''ssh-ed25519'', ''aes128-ctr'', ''aes256-ctr'', ''hmac-sha2-256'', ''hmac-sha2-256'',
     ''none'', ''none'', [], []]"

definition ex_sprop :: "string list" where
  "ex_sprop = [''ecdh-sha2-nistp256,curve25519-sha256'', ''ssh-ed25519'', ''aes256-ctr,aes128-ctr'', ''aes256-ctr'',
     ''hmac-sha2-256'', ''hmac-sha2-256'', ''none'', ''none'', [], []]"

definition ex_kex :: "bool \<Rightarrow> string list \<Rightarrow> string list \<Rightarrow> kex" where
  "ex_kex server my peer =
     \<lparr>kx_newkeys = (\<lambda>_. None), kx_we_need = 0, kx_dh_need = 0, kx_server = server, kx_name = None, kx_hostkey_alg = None,
      kx_hostkey_type = KEY_UNSPEC, kx_hostkey_nid = 0, kx_kex_type = KEX_DH_GRP1_SHA1, kx_server_sig_algs = None,
      kx_ext_info_c = False, kx_ext_info_s = False, kx_kex_strict = False, kx_ext_info_received = 0,
      kx_my = ex_data (enc_kexinit (replicate 16 7) my 0 0), kx_peer = ex_data (enc_kexinit (replicate 16 7) peer 0 0),
      kx_session_id = ex_data [], kx_done = False, kx_flags = {KEX_INITIAL}, kx_hash_alg = SSH_DIGEST_SHA256,
      kx_ec_nid = 0, kx_failed_choice = None\<rparr>"

definition ok_outcome :: "(unit res \<times> bool \<times> kex) outcome \<Rightarrow> bool" where
  "ok_outcome r = (case r of Done (Inr _, _, _) \<Rightarrow> True | _ \<Rightarrow> False)"

lemma ok_outcomeD:
  assumes "ok_outcome r"
  shows "\<exists>b k. r = Done (Inr (), b, k)"
proof -
  from assms obtain x b k where r: "r = Done (x, b, k)"
    by (cases r) (auto simp: ok_outcome_def)
  with assms show ?thesis by (cases x) (simp_all add: ok_outcome_def)
qed

lemma ex_props_ok:
  "list_all wire_cstring ex_cprop" "list_all wire_cstring ex_sprop" "length ex_cprop = 10" "length ex_sprop = 10"
  "length (enc_kexinit (replicate 16 7) ex_cprop 0 0) \<le> 256" "length (enc_kexinit (replicate 16 7) ex_sprop 0 0) \<le> 256"
  by (simp_all add: ex_cprop_def ex_sprop_def wire_cstring_def STRING_MAX_def enc_kexinit_eq)

lemma ex_data_ptr: "sshbuf_ptr (ex_data bs) \<noteq> NULL" if "length bs \<le> 256"
  using ex_data_ok [OF that] by (simp add: sshbuf_ptr_def ex_data_def)

lemma ex_kex_props: "p \<in> {ex_cprop, ex_sprop} \<Longrightarrow> kex_buf2prop (\<lambda>_. 4096) (ex_data (enc_kexinit (replicate 16 7) p 0 0)) = Inr (False, p)"
  using kex_buf2prop_enc [of "ex_data (enc_kexinit (replicate 16 7) p 0 0)" "\<lambda>_. 4096" "replicate 16 7" p 0 0] ex_props_ok
  by (auto simp: ex_data_ok ex_data_ptr)

lemma ex_choose:
  "ok_outcome (kex_choose_props (\<lambda>_. 4096) (\<lambda>_. True) (ex_kex False ex_cprop ex_sprop) 0 ex_cprop ex_sprop False)"
  "ok_outcome (kex_choose_props (\<lambda>_. 4096) (\<lambda>_. True) (ex_kex True ex_sprop ex_cprop) 0 ex_sprop ex_cprop False)"
  by code_simp+

lemma ex_conf:
  "\<exists>b k. kex_choose_conf (\<lambda>_. 4096) (\<lambda>_. True) (ex_kex False ex_cprop ex_sprop) 0 = Done (Inr (), b, k)"
  "\<exists>b k. kex_choose_conf (\<lambda>_. 4096) (\<lambda>_. True) (ex_kex True ex_sprop ex_cprop) 0 = Done (Inr (), b, k)"
  using ex_choose [THEN ok_outcomeD] ex_kex_props by (simp_all add: kex_choose_conf_def) (simp_all add: ex_kex_def)

theorem kex_agreement_witness:
  "\<exists>b b' kc ks. kex_choose_conf (\<lambda>_. 4096) (\<lambda>_. True) (ex_kex False ex_cprop ex_sprop) 0 = Done (Inr (), b, kc) \<and>
     kex_choose_conf (\<lambda>_. 4096) (\<lambda>_. True) (ex_kex True ex_sprop ex_cprop) 0 = Done (Inr (), b', ks) \<and>
     kx_newkeys kc MODE_OUT = kx_newkeys ks MODE_IN \<and> kx_newkeys kc MODE_OUT \<noteq> None \<and> kx_name kc = kx_name ks"
proof -
  obtain b kc b' ks where
    c: "kex_choose_conf (\<lambda>_. 4096) (\<lambda>_. True) (ex_kex False ex_cprop ex_sprop) 0 = Done (Inr (), b, kc)" and
    s: "kex_choose_conf (\<lambda>_. 4096) (\<lambda>_. True) (ex_kex True ex_sprop ex_cprop) 0 = Done (Inr (), b', ks)"
    using ex_conf by metis
  have "kx_newkeys kc MODE_OUT = kx_newkeys ks MODE_IN \<and> kx_newkeys kc MODE_OUT \<noteq> None \<and> kx_name kc = kx_name ks"
    using kex_agreement [OF _ _ _ _ _ _ _ c s]
    by (simp add: ex_kex_def same_bytes_def ex_data_ok ex_data_ptr ex_props_ok del: not_None_eq) metis
  with c s show ?thesis by blast
qed

section \<open>The keys\<close>

lemma kdf_loop_step:
  "have_len < need \<Longrightarrow> kdf_loop dg alg p need have_len d =
     (case dg alg (p @ d) of None \<Rightarrow> Inl SSH_ERR_LIBCRYPTO_ERROR
      | Some e \<Rightarrow> kdf_loop dg alg p need (have_len + unat (ssh_digest_bytes alg)) (d @ e))"
  "\<not> have_len < need \<Longrightarrow> kdf_loop dg alg p need have_len d = Inr d"
  by (simp_all add: kdf_loop.simps [of _ _ _ _ have_len])

text \<open>A digest that gives as many bytes as the table says.\<close>

definition digest_sized :: "digest_fn \<Rightarrow> bool" where
  "digest_sized dg \<longleftrightarrow> (\<forall>alg m d. dg alg m = Some d \<longrightarrow> length d = unat (ssh_digest_bytes alg))"

lemma kdf_loop_length:
  "digest_sized dg \<Longrightarrow> kdf_loop dg alg p need have_len d = Inr key \<Longrightarrow> length d = have_len \<Longrightarrow>
     need \<le> length key \<and> (\<exists>e. key = d @ e)"
proof (induction dg alg p need have_len d rule: kdf_loop.induct)
  case (1 dg alg p need have_len d)
  show ?case
  proof (cases "have_len < need")
    case True
    with 1(3) obtain e where e: "dg alg (p @ d) = Some e"
      "kdf_loop dg alg p need (have_len + unat (ssh_digest_bytes alg)) (d @ e) = Inr key"
      by (auto simp: kdf_loop_step split: option.splits)
    with 1(1) [OF True e(1) 1(2) e(2)] 1(2,4) show ?thesis by (auto simp: digest_sized_def)
  qed (use 1 in \<open>auto simp: kdf_loop_step\<close>)
qed

lemma derive_all_ok:
  "derive_all f cs = Inr keys \<Longrightarrow> length keys = length cs \<and> (\<forall>i < length cs. f (cs ! i) = Inr (keys ! i))"
proof (induction cs arbitrary: keys)
  case (Cons c cs)
  then show ?case by (fastforce simp: nth_Cons split: sum.splits nat.split)
qed simp

text \<open>The session identifier a side derives its keys with: of the first exchange its hash.\<close>

definition derive_sid :: "allocator \<Rightarrow> kex \<Rightarrow> byte list \<Rightarrow> unit res \<times> sshbuf" where
  "derive_sid am k hash =
     (if KEX_INITIAL \<in> kx_flags k
      then if sshbuf_len (kx_session_id k) \<noteq> 0 then (Inl SSH_ERR_INTERNAL_ERROR, kx_session_id k)
           else sshbuf_put am (kx_session_id k) hash
      else if sshbuf_len (kx_session_id k) = 0 then (Inl SSH_ERR_INTERNAL_ERROR, kx_session_id k)
      else (Inr (), kx_session_id k))"

lemma kex_derive_keys_ok:
  assumes "kex_derive_keys am dg k hash ss = (Inr (), k')"
  obtains sid keys where "derive_sid am k hash = (Inr (), sid)"
    "derive_all (\<lambda>c. kex_derive_key am dg (k\<lparr>kx_session_id := sid\<rparr>) c (kx_we_need k) hash ss) [65, 66, 67, 68, 69, 70] = Inr keys"
    "k' = k\<lparr>kx_session_id := sid, kx_newkeys := (\<lambda>mode. map_option
       (newkeys_set_keys keys (mode = dir_mode (kx_server k) True)) (kx_newkeys k mode))\<rparr>"
proof -
  have dir: "(\<not> kx_server k \<and> mode = MODE_OUT \<or> kx_server k \<and> mode = MODE_IN) = (mode = dir_mode (kx_server k) True)" for mode
    by (auto simp: dir_mode_def)
  show thesis
    using assms that unfolding kex_derive_keys_def derive_sid_def [symmetric]
    by (auto simp: Let_def dir split: prod.splits sum.splits)
qed

lemma derive_sid_ok:
  assumes "derive_sid am k hash = (Inr (), sid)" "sshbuf_inv (kx_session_id k)" "length hash < 2 ^ 64"
  shows "sshbuf_inv sid \<and> sshbuf_contents sid = (if KEX_INITIAL \<in> kx_flags k then hash else sshbuf_contents (kx_session_id k))"
proof -
  have "sshbuf_contents (kx_session_id k) = []" if "sshbuf_len (kx_session_id k) = 0"
    using unat_sshbuf_len [OF assms(2)] that by simp
  then show ?thesis
    using assms sshbuf_put_ok(1,2) [OF assms(2) _ assms(3)] by (auto simp: derive_sid_def split: if_splits)
qed

lemma derived_same:
  assumes "derive_all f [65, 66, 67, 68, 69, 70] = Inr keys" "derive_all g [65, 66, 67, 68, 69, 70] = Inr keys'"
    and "\<And>c x y. f c = Inr x \<Longrightarrow> g c = Inr y \<Longrightarrow> x = y"
  shows "keys = keys'"
proof (rule nth_equalityI)
  fix i assume "i < length keys"
  with derive_all_ok [OF assms(1)] derive_all_ok [OF assms(2)] show "keys ! i = keys' ! i" by (metis assms(3))
qed (use derive_all_ok [OF assms(1)] derive_all_ok [OF assms(2)] in simp)

lemma kex_derive_key_same:
  assumes "kex_derive_key am dg k c need hash ss = Inr x" "kex_derive_key am' dg k' c need hash ss' = Inr y"
    and "kx_hash_alg k = kx_hash_alg k'" "same_bytes (kx_session_id k) (kx_session_id k')" "same_bytes ss ss'"
  shows "x = y"
  using assms by (auto simp: kex_derive_key_def Let_def same_bytes_def split: if_splits option.splits)

lemma kex_derive_key_length:
  assumes "kex_derive_key am dg k c need hash ss = Inr x" "digest_sized dg"
  shows "unat need \<le> length x"
  using assms kdf_loop_length [OF assms(2), of "kx_hash_alg k" _ "unat need" "unat (ssh_digest_bytes (kx_hash_alg k))" _ x]
  by (auto simp: kex_derive_key_def Let_def digest_sized_def split: if_splits option.splits)

text \<open>Key, initial vector and MAC key of a direction are there and long enough for its algorithms.\<close>

definition keyed :: "newkeys \<Rightarrow> bool" where
  "keyed nk \<longleftrightarrow>
     (\<exists>key iv mac. en_key (nk_enc nk) = Some key \<and> en_iv (nk_enc nk) = Some iv \<and> sm_key (nk_mac nk) = Some mac \<and>
        unat (en_key_len (nk_enc nk)) \<le> length key \<and> unat (en_iv_len (nk_enc nk)) \<le> length iv \<and>
        unat (sm_key_len (nk_mac nk)) \<le> length mac)"

lemma newkeys_need_ge:
  "n \<le> newkeys_need nk n" "en_key_len (nk_enc nk) \<le> newkeys_need nk n" "en_iv_len (nk_enc nk) \<le> newkeys_need nk n"
  "sm_key_len (nk_mac nk) \<le> newkeys_need nk n"
  unfolding newkeys_need_def by (rule max.coboundedI1 max.coboundedI2 order.refl; (assumption | rule max.coboundedI1 max.coboundedI2 order.refl)+)+

lemma needs_le:
  assumes "nk \<in> {ag_ctos a, ag_stoc a}" "holds_agreed k a"
  shows "en_key_len (nk_enc nk) \<le> kx_we_need k" "en_iv_len (nk_enc nk) \<le> kx_we_need k" "sm_key_len (nk_mac nk) \<le> kx_we_need k"
proof -
  have "kx_we_need k = newkeys_need (ag_stoc a) (newkeys_need (ag_ctos a) 0)" using assms(2) by (simp add: holds_agreed_def)
  then have "\<exists>n. newkeys_need nk n \<le> kx_we_need k"
    using assms(1) newkeys_need_ge(1) by auto
  then show "en_key_len (nk_enc nk) \<le> kx_we_need k" "en_iv_len (nk_enc nk) \<le> kx_we_need k" "sm_key_len (nk_mac nk) \<le> kx_we_need k"
    using newkeys_need_ge(2-4) order.trans by blast+
qed

lemma keyed_set_keys:
  assumes "length keys = 6" "\<forall>key\<in>set keys. unat need \<le> length key"
    and "en_key_len (nk_enc nk) \<le> need" "en_iv_len (nk_enc nk) \<le> need" "sm_key_len (nk_mac nk) \<le> need"
  shows "keyed (newkeys_set_keys keys ctos nk)"
proof -
  have "unat need \<le> length (keys ! i)" if "i < 6" for i using assms(1,2) that by auto
  then show ?thesis
    using assms(3-5) by (auto simp: keyed_def newkeys_set_keys_def word_le_nat_alt intro: order.trans)
qed

text \<open>
  C7: Both sides derive the same keys. From the same agreement, exchange hash, shared secret and
  session identifier the client and the server end with the same cipher keys, initial vectors and
  MAC keys: what one sends with is what the other receives with, each at least as long as its
  algorithm needs, and the session identifiers stay equal.
\<close>

theorem kex_keys_agree:
  assumes "\<not> kx_server kc" "kx_server ks" "holds_agreed kc a" "holds_agreed ks a"
    and flags: "KEX_INITIAL \<in> kx_flags kc \<longleftrightarrow> KEX_INITIAL \<in> kx_flags ks"
    and sid: "same_bytes (kx_session_id kc) (kx_session_id ks)" and sec: "same_bytes sc ss"
    and dg: "digest_sized dg" and h: "length hash < 2 ^ 64"
    and c: "kex_derive_keys am dg kc hash sc = (Inr (), kc')"
    and s: "kex_derive_keys am' dg ks hash ss = (Inr (), ks')"
  shows "kx_newkeys kc' MODE_OUT = kx_newkeys ks' MODE_IN \<and> kx_newkeys kc' MODE_IN = kx_newkeys ks' MODE_OUT \<and>
    (\<exists>out inn. kx_newkeys kc' MODE_OUT = Some out \<and> kx_newkeys kc' MODE_IN = Some inn \<and> keyed out \<and> keyed inn) \<and>
    same_bytes (kx_session_id kc') (kx_session_id ks')"
proof -
  obtain sidc kc1 where kc: "derive_sid am kc hash = (Inr (), sidc)"
    "derive_all (\<lambda>c. kex_derive_key am dg (kc\<lparr>kx_session_id := sidc\<rparr>) c (kx_we_need kc) hash sc) [65, 66, 67, 68, 69, 70] = Inr kc1"
    "kc' = kc\<lparr>kx_session_id := sidc, kx_newkeys := (\<lambda>mode. map_option
       (newkeys_set_keys kc1 (mode = dir_mode (kx_server kc) True)) (kx_newkeys kc mode))\<rparr>"
    by (rule kex_derive_keys_ok [OF c])
  obtain sids ks1 where ks: "derive_sid am' ks hash = (Inr (), sids)"
    "derive_all (\<lambda>c. kex_derive_key am' dg (ks\<lparr>kx_session_id := sids\<rparr>) c (kx_we_need ks) hash ss) [65, 66, 67, 68, 69, 70] = Inr ks1"
    "ks' = ks\<lparr>kx_session_id := sids, kx_newkeys := (\<lambda>mode. map_option
       (newkeys_set_keys ks1 (mode = dir_mode (kx_server ks) True)) (kx_newkeys ks mode))\<rparr>"
    by (rule kex_derive_keys_ok [OF s])
  have ids: "same_bytes sidc sids"
    using derive_sid_ok [OF kc(1) _ h] derive_sid_ok [OF ks(1) _ h] sid flags by (simp add: same_bytes_def)
  have eq: "kx_we_need kc = kx_we_need ks" "kx_hash_alg kc = kx_hash_alg ks"
    using assms(3,4) by (simp_all add: holds_agreed_def)
  have keys: "kc1 = ks1"
  proof (rule derived_same [OF kc(2) ks(2)])
    fix c x y
    assume k: "kex_derive_key am dg (kc\<lparr>kx_session_id := sidc\<rparr>) c (kx_we_need kc) hash sc = Inr x"
      "kex_derive_key am' dg (ks\<lparr>kx_session_id := sids\<rparr>) c (kx_we_need ks) hash ss = Inr y"
    show "x = y" using kex_derive_key_same [OF k(1) k(2) [folded eq(1)]] eq(2) ids sec by simp
  qed
  have "length kc1 = 6" "\<forall>key\<in>set kc1. unat (kx_we_need kc) \<le> length key"
    using derive_all_ok [OF kc(2)] kex_derive_key_length [OF _ dg] by (fastforce simp: in_set_conv_nth)+
  then have "keyed (newkeys_set_keys kc1 b nk)" if "nk \<in> {ag_ctos a, ag_stoc a}" for b nk
    using needs_le [OF that assms(3)] by (intro keyed_set_keys) auto
  with assms(1-4) keys ids show ?thesis
    unfolding kc(3) ks(3) by (auto simp: holds_agreed_def dir_mode_def)
qed

definition ex_agreed :: agreed where
  "ex_agreed = (let nk = newkeys_zero\<lparr>nk_enc := (nk_enc newkeys_zero)\<lparr>en_key_len := 16, en_iv_len := 16, en_block_size := 16\<rparr>,
       nk_mac := sshmac_zero\<lparr>sm_key_len := 32\<rparr>\<rparr>
     in \<lparr>ag_name = ''curve25519-sha256'', ag_alg = kex_entry ''curve25519-sha256'' KEX_C25519_SHA256 0 SSH_DIGEST_SHA256,
         ag_hostkey = ''ssh-ed25519'', ag_ctos = nk, ag_stoc = nk\<rparr>)"

definition ex_settled :: "bool \<Rightarrow> kex" where
  "ex_settled server = (ex_kex server [] [])\<lparr>kx_name := Some ''curve25519-sha256'', kx_kex_type := KEX_C25519_SHA256,
     kx_hash_alg := SSH_DIGEST_SHA256, kx_hostkey_alg := Some ''ssh-ed25519'',
     kx_hostkey_type := sshkey_type_from_name ''ssh-ed25519'', kx_hostkey_nid := sshkey_ecdsa_nid_from_name ''ssh-ed25519'',
     kx_newkeys := (\<lambda>_. Some (ag_ctos ex_agreed)), kx_we_need := 32,
     kx_dh_need := fold newkeys_dh_need [ag_ctos ex_agreed, ag_stoc ex_agreed] 0\<rparr>"

definition ex_digest :: digest_fn where
  "ex_digest alg m = Some (replicate (unat (ssh_digest_bytes alg)) (of_nat (length m)))"

lemma ex_settled_agreed: "holds_agreed (ex_settled server) ex_agreed"
proof -
  have "fold newkeys_need [ag_ctos ex_agreed, ag_stoc ex_agreed] 0 = 32" by code_simp
  moreover have "ag_ctos ex_agreed = ag_stoc ex_agreed" by (simp add: ex_agreed_def Let_def)
  ultimately show ?thesis by (simp add: holds_agreed_def ex_settled_def ex_kex_def) (simp add: ex_agreed_def Let_def kex_entry_def)
qed

lemma ex_derive: "\<exists>k'. kex_derive_keys (\<lambda>_. 4096) ex_digest (ex_settled server) [1, 2] (ex_data [9]) = (Inr (), k')"
proof -
  obtain sid where sid: "sshbuf_put (\<lambda>_. 4096) (ex_data []) [1, 2] = (Inr (), sid)"
    using sshbuf_put_succeeds [of "ex_data []" "\<lambda>_. 4096" "[1, 2]"] ex_data_ok [of "[]"] by auto
  have "kex_derive_key (\<lambda>_. 4096) ex_digest ((ex_settled server)\<lparr>kx_session_id := sid\<rparr>) c 32 [1, 2] (ex_data [9]) =
      Inr (replicate 32 (of_nat (length (sshbuf_bytes (ex_data [9]) @ [1, 2] @ [c] @ sshbuf_bytes sid))))" for c
    by (simp add: kex_derive_key_def ex_settled_def ex_digest_def kdf_loop_step)
  moreover have "sshbuf_len (ex_data []) = 0" using ex_data_ok [of "[]"] by (simp add: sshbuf_len_def ex_data_def)
  ultimately show ?thesis
    using sid unfolding kex_derive_keys_def by (simp add: ex_settled_def ex_kex_def)
qed

theorem kex_keys_agree_witness:
  "\<exists>kc ks. kex_derive_keys (\<lambda>_. 4096) ex_digest (ex_settled False) [1, 2] (ex_data [9]) = (Inr (), kc) \<and>
     kex_derive_keys (\<lambda>_. 4096) ex_digest (ex_settled True) [1, 2] (ex_data [9]) = (Inr (), ks) \<and>
     kx_newkeys kc MODE_OUT = kx_newkeys ks MODE_IN"
proof -
  obtain kc ks where k: "kex_derive_keys (\<lambda>_. 4096) ex_digest (ex_settled False) [1, 2] (ex_data [9]) = (Inr (), kc)"
    "kex_derive_keys (\<lambda>_. 4096) ex_digest (ex_settled True) [1, 2] (ex_data [9]) = (Inr (), ks)" using ex_derive by metis
  have "kx_newkeys kc MODE_OUT = kx_newkeys ks MODE_IN"
    using kex_keys_agree [OF _ _ ex_settled_agreed ex_settled_agreed _ _ _ _ _ k]
    by (simp add: ex_settled_def ex_kex_def same_bytes_def ex_data_ok digest_sized_def ex_digest_def)
  with k show ?thesis by blast
qed

section \<open>Strict key exchange\<close>

definition strict_marker :: "bool \<Rightarrow> string" where
  "strict_marker server = (if server then ''kex-strict-s-v00@openssh.com'' else ''kex-strict-c-v00@openssh.com'')"

lemma denylist_eq:
  assumes "\<And>n. am n \<noteq> NULL" "clean xs" "xs \<noteq> []"
  shows "match_filter_denylist am (commas xs) p = Some (commas (filter (\<lambda>x. match_pattern_list x p False \<noteq> 1) xs))"
proof -
  obtain s where s: "filter_list am (commas xs) p True = Some s" using assms(1) by (auto simp: filter_list_def Let_def)
  have xs: "split_on CHR '','' (commas xs) = xs" using names_commas [OF assms(2,3)] by (simp add: names_def)
  have "[] \<notin> set (split_on CHR '','' (commas xs))" using assms(2) unfolding xs by (auto simp: clean_def)
  moreover have "filter_keeps p True = (\<lambda>x. match_pattern_list x p False \<noteq> 1)" by (auto simp: filter_keeps_def)
  ultimately show ?thesis using filter_list_eq [OF _ s] s by (simp add: match_filter_denylist_def xs)
qed

lemma compat_keeps_marker:
  assumes "\<And>n. am n \<noteq> NULL" "clean xs" "strict_marker b \<in> set xs" "compat_kex_proposal am bugs (commas xs) = Some p"
  shows "\<exists>ys. p = commas ys \<and> clean ys \<and> strict_marker b \<in> set ys"
proof -
  let ?keep = "\<lambda>pat. filter (\<lambda>x. match_pattern_list x pat False \<noteq> 1)"
  have keep: "clean (?keep pat ys) \<and> strict_marker b \<in> set (?keep pat ys)"
    if "clean ys" "strict_marker b \<in> set ys" "pat = ''curve25519-sha256@libssh.org'' \<or>
      pat = ''diffie-hellman-group-exchange-sha256,diffie-hellman-group-exchange-sha1''" for pat ys
  proof -
    have "match_pattern_list (strict_marker b) pat False \<noteq> 1"
      using that(3) by (elim disjE; cases b; simp only: strict_marker_def if_True if_False; code_simp)
    then show ?thesis using that(1,2) by (auto simp: clean_def)
  qed
  have deny: "match_filter_denylist am (commas ys) pat = Some (commas (?keep pat ys))" if "clean ys" "strict_marker b \<in> set ys" for ys pat
    using that by (intro denylist_eq assms(1)) auto
  let ?p1 = "''curve25519-sha256@libssh.org''"
  let ?p2 = "''diffie-hellman-group-exchange-sha256,diffie-hellman-group-exchange-sha1''"
  define ys where "ys = (if SSH_BUG_CURVE25519PAD \<in> bugs then ?keep ?p1 xs else xs)"
  define zs where "zs = (if SSH_OLD_DHGEX \<in> bugs then ?keep ?p2 ys else ys)"
  have ys: "clean ys" "strict_marker b \<in> set ys"
    using keep [OF assms(2,3), of ?p1] assms(2,3) unfolding ys_def by presburger+
  have zs: "clean zs" "strict_marker b \<in> set zs"
    using keep [OF ys, of ?p2] ys unfolding zs_def by presburger+
  have "p = commas zs"
    using assms(4) deny [OF assms(2,3), of ?p1] deny [OF ys, of ?p2] unfolding compat_kex_proposal_def zs_def ys_def
    by (simp split: if_splits)
  with zs show ?thesis by blast
qed

lemma proposal_has_marker:
  assumes am: "\<And>n. am n \<noteq> NULL"
    and "[] \<notin> set (names (case kexalgos of None \<Rightarrow> KEX_DEFAULT_KEX | Some l \<Rightarrow> l))"
    and "kex_proposal_populate_entries am bugs server kexalgos ciphs ms cmp hkalgs = Some p"
  shows "kexalgs_contains p (strict_marker server)"
proof -
  let ?l = "case kexalgos of None \<Rightarrow> KEX_DEFAULT_KEX | Some l \<Rightarrow> l"
  let ?marks = "[if server then ''ext-info-s'' else ''ext-info-c'', strict_marker server]"
  have l: "(case kexalgos of None \<Rightarrow> KEX_DEFAULTS ! PROPOSAL_KEX_ALGS | Some k \<Rightarrow> k) = commas (names ?l)"
    by (simp add: KEX_DEFAULTS_def split: option.split)
  have clean: "clean (names ?l)" using assms(2) by (simp add: clean_names)
  have cat: "kex_names_cat am (Some (commas (names ?l))) (commas ?marks) = Some (commas (add_names (names ?l) ?marks))"
    using am clean by (intro kex_names_cat_eq) (auto simp: strict_marker_def)
  have m: "(if server then ''ext-info-s,kex-strict-s-v00@openssh.com'' else ''ext-info-c,kex-strict-c-v00@openssh.com'') = commas ?marks"
    by (simp add: strict_marker_def)
  from assms(3) obtain p0 rest where p: "p = p0 # rest" and p0: "compat_kex_proposal am bugs (commas (add_names (names ?l) ?marks)) = Some p0"
    unfolding kex_proposal_populate_entries_def Let_def l m cat by (auto split: option.splits)
  have "clean (add_names (names ?l) ?marks)" "strict_marker server \<in> set (add_names (names ?l) ?marks)"
    using clean unfolding clean_add_names set_add_names by (auto simp: strict_marker_def)
  from compat_keeps_marker [OF am this p0]
  obtain ys where ys: "p0 = commas ys" "clean ys" "strict_marker server \<in> set ys" by blast
  with p show ?thesis by (simp add: kexalgs_contains_def has_any_alg_single strict_marker_def)
qed

lemma choose_modes_strict: "kx_kex_strict (snd (choose_modes am hs modes k peer c s)) = kx_kex_strict k"
  by (induction am hs modes k peer c s rule: choose_modes.induct) (auto simp: choose_modes.simps Let_def split: prod.split sum.split)

lemma kex_choose_props_strict:
  assumes "kex_choose_props am hs k seq my peer f = Done (r, skip, k')"
  shows "kx_kex_strict k' = kx_kex_strict (kex_learn_peer k peer)"
proof -
  have "kx_kex_strict (kex_learn_rsa k1 peer) = kx_kex_strict k1" for k1 by (simp add: kex_learn_rsa_def)
  moreover have "kx_kex_strict k5 = kx_kex_strict k4" if "choose_modes am hs modes k4 peer c s = (r, k5)" for k4 k5 modes c s r
    using choose_modes_strict [of am hs modes k4 peer c s] that by simp
  ultimately show ?thesis
    using assms by (auto simp: kex_choose_props_def choose_kex_cases choose_hostkeyalg_cases Let_def
        split: if_splits option.splits prod.splits sum.splits)
qed

text \<open>
  C8: Strict key exchange takes effect. When the peer's first proposal is one that this code
  builds for the other side, from the defaults or from any list of non-empty names and whatever
  bugs are worked around, then the exchange is strict: if anything came before the proposal the
  connection ends, otherwise the choice is made with the strict order in force.
\<close>

theorem kex_strict_effective:
  assumes "\<And>n. am n \<noteq> NULL" "KEX_INITIAL \<in> kx_flags k"
    and "[] \<notin> set (names (case kexalgos of None \<Rightarrow> KEX_DEFAULT_KEX | Some l \<Rightarrow> l))"
    and "kex_proposal_populate_entries am bugs (\<not> kx_server k) kexalgos ciphs ms cmp hkalgs = Some peer"
    and "kex_buf2prop am (kx_my k) = Inr (f, my)" "kex_buf2prop am (kx_peer k) = Inr (g, peer)"
  shows "if seq \<noteq> 0 then kex_choose_conf am hs k seq = Disconnect
    else \<exists>r skip k'. kex_choose_conf am hs k seq = Done (r, skip, k') \<and> kx_kex_strict k'"
proof -
  have "kexalgs_contains peer (strict_marker (\<not> kx_server k))" by (rule proposal_has_marker [OF assms(1,3,4)])
  then have strict: "kx_kex_strict (kex_learn_peer k peer)"
    using assms(2) by (auto simp: kex_learn_peer_def strict_marker_def)
  have conf: "kex_choose_conf am hs k seq = kex_choose_props am hs k seq my peer g" using assms(5,6) by (simp add: kex_choose_conf_def)
  show ?thesis
  proof (cases "seq = 0")
    case False
    with strict assms(2) show ?thesis by (simp add: conf kex_choose_props_def Let_def)
  next
    case True
    then obtain r skip k' where "kex_choose_props am hs k seq my peer g = Done (r, skip, k')"
      by (cases "kex_choose_props am hs k seq my peer g") (auto simp: kex_choose_props_def Let_def split: if_splits prod.splits sum.splits)
    with kex_choose_props_strict [OF this] strict True conf show ?thesis by simp
  qed
qed

definition ex_strict :: "string list" where
  "ex_strict = [''curve25519-sha256,ext-info-s,kex-strict-s-v00@openssh.com'', ''ssh-ed25519'', ''aes128-ctr'', ''aes128-ctr'',
     ''hmac-sha1'', ''hmac-sha1'', ''none'', ''none'', [], []]"

lemma ex_strict_populate:
  "kex_proposal_populate_entries (\<lambda>_. 4096) {} True (Some ''curve25519-sha256'') (Some ''aes128-ctr'') (Some ''hmac-sha1'')
     (Some ''none'') (Some ''ssh-ed25519'') = Some ex_strict"
  using kex_names_cat_eq [of "\<lambda>_. 4096" "[''curve25519-sha256'']" "[''ext-info-s'', strict_marker True]"]
  by (simp add: kex_proposal_populate_entries_def compat_kex_proposal_def ex_strict_def strict_marker_def KEX_DEFAULTS_def)

lemma ex_strict_prop: "kex_buf2prop (\<lambda>_. 4096) (kx_peer (ex_kex b p ex_strict)) = Inr (False, ex_strict)"
proof -
  have "list_all wire_cstring ex_strict" "length ex_strict = 10" "length (enc_kexinit (replicate 16 7) ex_strict 0 0) \<le> 256"
    by (simp_all add: ex_strict_def wire_cstring_def STRING_MAX_def enc_kexinit_eq)
  then show ?thesis
    using kex_buf2prop_enc [of "ex_data (enc_kexinit (replicate 16 7) ex_strict 0 0)" "\<lambda>_. 4096" "replicate 16 7" ex_strict 0 0]
    by (simp add: ex_data_ok ex_data_ptr ex_kex_def)
qed

theorem kex_strict_effective_witness:
  "kex_choose_conf (\<lambda>_. 4096) (\<lambda>_. True) (ex_kex False ex_cprop ex_strict) 1 = Disconnect \<and>
   (\<exists>r skip k'. kex_choose_conf (\<lambda>_. 4096) (\<lambda>_. True) (ex_kex False ex_cprop ex_strict) 0 = Done (r, skip, k') \<and> kx_kex_strict k')"
proof -
  let ?k = "ex_kex False ex_cprop ex_strict"
  have my: "kex_buf2prop (\<lambda>_. 4096) (kx_my ?k) = Inr (False, ex_cprop)" using ex_kex_props by (simp add: ex_kex_def)
  have h: "KEX_INITIAL \<in> kx_flags ?k" "\<not> kx_server ?k" by (simp_all add: ex_kex_def)
  have "if seq \<noteq> 0 then kex_choose_conf (\<lambda>_. 4096) (\<lambda>_. True) ?k seq = Disconnect
    else \<exists>r skip k'. kex_choose_conf (\<lambda>_. 4096) (\<lambda>_. True) ?k seq = Done (r, skip, k') \<and> kx_kex_strict k'" for seq
  proof (rule kex_strict_effective [OF _ h(1) _ _ my ex_strict_prop])
    show "kex_proposal_populate_entries (\<lambda>_. 4096) {} (\<not> kx_server ?k) (Some ''curve25519-sha256'') (Some ''aes128-ctr'')
      (Some ''hmac-sha1'') (Some ''none'') (Some ''ssh-ed25519'') = Some ex_strict"
      using h(2) ex_strict_populate by (simp only: not_False_eq_True)
    show "[] \<notin> set (names (case Some ''curve25519-sha256'' of None \<Rightarrow> KEX_DEFAULT_KEX | Some l \<Rightarrow> l))" by code_simp
  qed simp
  from this [of 1] this [of 0] show ?thesis by simp
qed

section \<open>The amount of key material\<close>










end
