(* ===== verification/Chacha.thy ===== *)
theory Chacha
  imports Prelude
begin

text \<open>
  The stream cipher (\<^verbatim>\<open>chacha.c\<close>): the sixteen words of the state, the twenty rounds, and the loop that
  encrypts a message block by block, the block counter being carried by hand from word 12 to word
  13. The theory shows that the loop is the exclusive or with the key stream of the 64-bit counter.
\<close>

section \<open>The code\<close>

definition ROTL32 :: "u32 \<Rightarrow> nat \<Rightarrow> u32" where
  "ROTL32 v n = push_bit n v OR drop_bit (32 - n) v"

definition U8TO32_LITTLE :: "byte list \<Rightarrow> nat \<Rightarrow> u32" where
  "U8TO32_LITTLE p i =
     ucast (p ! i) OR push_bit 8 (ucast (p ! (i + 1))) OR push_bit 16 (ucast (p ! (i + 2))) OR
     push_bit 24 (ucast (p ! (i + 3)))"

definition U32TO8_LITTLE :: "u32 \<Rightarrow> byte list" where
  "U32TO8_LITTLE v = [ucast v, ucast (drop_bit 8 v), ucast (drop_bit 16 v), ucast (drop_bit 24 v)]"

definition QUARTERROUND :: "nat \<Rightarrow> nat \<Rightarrow> nat \<Rightarrow> nat \<Rightarrow> u32 list \<Rightarrow> u32 list" where
  "QUARTERROUND a b c d x =
     (let x = x[a := x ! a + x ! b]; x = x[d := ROTL32 (x ! d XOR x ! a) 16];
          x = x[c := x ! c + x ! d]; x = x[b := ROTL32 (x ! b XOR x ! c) 12];
          x = x[a := x ! a + x ! b]; x = x[d := ROTL32 (x ! d XOR x ! a) 8];
          x = x[c := x ! c + x ! d]; x = x[b := ROTL32 (x ! b XOR x ! c) 7]
      in x)"

definition sigma :: "byte list" where
  "sigma = map (of_nat \<circ> of_char) ''expand 32-byte k''"

definition tau :: "byte list" where
  "tau = map (of_nat \<circ> of_char) ''expand 16-byte k''"

type_synonym chacha_ctx = "u32 list"

definition chacha_keysetup :: "chacha_ctx \<Rightarrow> byte list \<Rightarrow> u32 \<Rightarrow> chacha_ctx" where
  "chacha_keysetup x k kbits =
     (let x = x[4 := U8TO32_LITTLE k 0, 5 := U8TO32_LITTLE k 4, 6 := U8TO32_LITTLE k 8, 7 := U8TO32_LITTLE k 12];
          (k, constants) = (if kbits = 256 then (drop 16 k, sigma) else (k, tau));
          x = x[8 := U8TO32_LITTLE k 0, 9 := U8TO32_LITTLE k 4, 10 := U8TO32_LITTLE k 8, 11 := U8TO32_LITTLE k 12]
      in x[0 := U8TO32_LITTLE constants 0, 1 := U8TO32_LITTLE constants 4, 2 := U8TO32_LITTLE constants 8,
           3 := U8TO32_LITTLE constants 12])"

text \<open>The counter is optional: without one the words 12 and 13 are zero.\<close>

definition chacha_ivsetup :: "chacha_ctx \<Rightarrow> byte list \<Rightarrow> byte list option \<Rightarrow> chacha_ctx" where
  "chacha_ivsetup x iv counter =
     x[12 := case counter of None \<Rightarrow> 0 | Some c \<Rightarrow> U8TO32_LITTLE c 0,
       13 := case counter of None \<Rightarrow> 0 | Some c \<Rightarrow> U8TO32_LITTLE c 4,
       14 := U8TO32_LITTLE iv 0, 15 := U8TO32_LITTLE iv 4]"

fun chacha_rounds :: "nat \<Rightarrow> u32 list \<Rightarrow> u32 list" where
  "chacha_rounds i x =
     (if i > 0 then
        let x = QUARTERROUND 0 4 8 12 x; x = QUARTERROUND 1 5 9 13 x;
            x = QUARTERROUND 2 6 10 14 x; x = QUARTERROUND 3 7 11 15 x;
            x = QUARTERROUND 0 5 10 15 x; x = QUARTERROUND 1 6 11 12 x;
            x = QUARTERROUND 2 7 8 13 x; x = QUARTERROUND 3 4 9 14 x
        in chacha_rounds (i - 2) x
      else x)"

declare chacha_rounds.simps [simp del]

definition chacha_block :: "u32 list \<Rightarrow> u32 list" where
  "chacha_block j = map2 (+) (chacha_rounds 20 j) j"

text \<open>One block of the message: 64 bytes in, 64 bytes out.\<close>

definition chacha_xor_block :: "u32 list \<Rightarrow> byte list \<Rightarrow> byte list" where
  "chacha_xor_block j m =
     concat (map (\<lambda>i. U32TO8_LITTLE (chacha_block j ! i XOR U8TO32_LITTLE m (4 * i))) [0..<16])"

definition chacha_count :: "u32 list \<Rightarrow> u32 list" where
  "chacha_count j =
     (let j = j[12 := j ! 12 + 1] in if j ! 12 = 0 then j[13 := j ! 13 + 1] else j)"

text \<open>
  The loop. A message of less than 64 bytes is copied over the array \<open>tmp\<close>, whose other bytes the
  code leaves as they are; the result is copied back for as many bytes.
\<close>

function chacha_loop :: "byte list \<Rightarrow> u32 list \<Rightarrow> byte list \<Rightarrow> u32 list \<times> byte list" where
  "chacha_loop tmp j m =
     (if length m < 64 then
        (chacha_count j, take (length m) (chacha_xor_block j (m @ drop (length m) tmp)))
      else if length m = 64 then (chacha_count j, chacha_xor_block j m)
      else let (j', c) = chacha_loop tmp (chacha_count j) (drop 64 m) in (j', chacha_xor_block j m @ c))"
  by pat_completeness auto
termination by (relation "measure (\<lambda>(tmp, j, m). length m)") auto

declare chacha_loop.simps [simp del]

text \<open>The whole function; the array on the stack holds any 64 bytes.\<close>

definition chacha_encrypt_bytes :: "byte list \<Rightarrow> chacha_ctx \<Rightarrow> byte list \<Rightarrow> chacha_ctx \<times> byte list" where
  "chacha_encrypt_bytes tmp x m =
     (if m = [] then (x, [])
      else let (j, c) = chacha_loop tmp x m in (x[12 := j ! 12, 13 := j ! 13], c))"

section \<open>The key stream\<close>

definition counter_of :: "u32 list \<Rightarrow> u64" where
  "counter_of j = push_bit 32 (ucast (j ! 13)) OR ucast (j ! 12)"

definition with_counter :: "u32 list \<Rightarrow> u64 \<Rightarrow> u32 list" where
  "with_counter j n = j[12 := ucast n, 13 := ucast (drop_bit 32 n)]"

text \<open>The bytes of block \<open>n\<close>.\<close>

definition stream_block :: "u32 list \<Rightarrow> u64 \<Rightarrow> byte list" where
  "stream_block j n = concat (map U32TO8_LITTLE (chacha_block (with_counter j n)))"

definition stream_byte :: "u32 list \<Rightarrow> nat \<Rightarrow> byte" where
  "stream_byte j i = stream_block j (counter_of j + of_nat (i div 64)) ! (i mod 64)"

definition xor_stream :: "u32 list \<Rightarrow> byte list \<Rightarrow> byte list" where
  "xor_stream j m = map (\<lambda>i. m ! i XOR stream_byte j i) [0..<length m]"

section \<open>The loop is the key stream\<close>

lemma length_QUARTERROUND [simp]: "length (QUARTERROUND a b c d x) = length x"
  by (simp add: QUARTERROUND_def Let_def)

lemma length_chacha_rounds [simp]: "length (chacha_rounds i x) = length x"
  by (induction i x rule: chacha_rounds.induct) (subst chacha_rounds.simps, simp add: Let_def)

lemma length_chacha_block [simp]: "length (chacha_block j) = length j"
  by (simp add: chacha_block_def)

lemma length_U32TO8 [simp]: "length (U32TO8_LITTLE v) = 4"
  by (simp add: U32TO8_LITTLE_def)

lemma length_concat_equal:
  "(\<And>i. i < n \<Longrightarrow> length (f i) = w) \<Longrightarrow> length (concat (map f [0..<n])) = n * w"
  by (induction n) simp_all

lemma nth_concat_equal:
  assumes "\<And>i. i < n \<Longrightarrow> length (f i) = w" "k < n * w"
  shows "concat (map f [0..<n]) ! k = f (k div w) ! (k mod w)"
  using assms
proof (induction n)
  case (Suc n)
  have len: "length (concat (map f [0..<n])) = n * w" by (rule length_concat_equal) (simp add: Suc.prems(1))
  show ?case
  proof (cases "k < n * w")
    case True
    then show ?thesis using Suc len by (simp add: nth_append)
  next
    case False
    define d where "d = k - n * w"
    have k: "k = d + n * w" "d < w" using False Suc.prems(2) by (simp_all add: d_def)
    show ?thesis unfolding k(1) using k(2) len by (simp add: nth_append)
  qed
qed simp

lemma U32TO8_xor:
  assumes "k < 4"
  shows "U32TO8_LITTLE (v XOR U8TO32_LITTLE m i) ! k = m ! (i + k) XOR U32TO8_LITTLE v ! k"
proof -
  have b: "ucast (drop_bit (8 * k) (U8TO32_LITTLE m i)) = m ! (i + k)"
  proof -
    from assms consider "k = 0" | "k = 1" | "k = 2" | "k = 3" by linarith
    then show ?thesis by cases (simp; rule bit_word_eqI; simp add: U8TO32_LITTLE_def bit_simps)+
  qed
  have u: "U32TO8_LITTLE w ! k = ucast (drop_bit (8 * k) w)" for w
  proof -
    from assms consider "k = 0" | "k = 1" | "k = 2" | "k = 3" by linarith
    then show ?thesis by cases (simp_all add: U32TO8_LITTLE_def)
  qed
  show ?thesis by (simp add: u drop_bit_xor unsigned_xor_eq b xor.commute)
qed

lemma concat_words:
  "i < 4 * length v \<Longrightarrow> concat (map U32TO8_LITTLE v) ! i = U32TO8_LITTLE (v ! (i div 4)) ! (i mod 4)"
proof -
  assume "i < 4 * length v"
  then have "concat (map (\<lambda>i. U32TO8_LITTLE (v ! i)) [0..<length v]) ! i = U32TO8_LITTLE (v ! (i div 4)) ! (i mod 4)"
    by (intro nth_concat_equal) simp_all
  moreover have "map (\<lambda>i. U32TO8_LITTLE (v ! i)) [0..<length v] = map U32TO8_LITTLE v"
    by (rule nth_equalityI) simp_all
  ultimately show ?thesis by simp
qed

lemma chacha_xor_block_nth:
  assumes "length j = 16" "i < 64"
  shows "chacha_xor_block j m ! i = m ! i XOR concat (map U32TO8_LITTLE (chacha_block j)) ! i"
proof -
  have "chacha_xor_block j m ! i =
      U32TO8_LITTLE (chacha_block j ! (i div 4) XOR U8TO32_LITTLE m (4 * (i div 4))) ! (i mod 4)"
    unfolding chacha_xor_block_def by (rule nth_concat_equal) (use assms in simp_all)
  also have "\<dots> = m ! (4 * (i div 4) + i mod 4) XOR U32TO8_LITTLE (chacha_block j ! (i div 4)) ! (i mod 4)"
    by (rule U32TO8_xor) simp
  finally show ?thesis using assms by (simp add: concat_words)
qed

lemma length_chacha_xor_block [simp]: "length (chacha_xor_block j m) = 64"
  unfolding chacha_xor_block_def by (subst length_concat_equal [where w = 4]) simp_all

lemma length_counter [simp]: "length (with_counter j n) = length j" "length (chacha_count j) = length j"
  by (simp_all add: with_counter_def chacha_count_def Let_def)

lemma with_counter_with [simp]: "with_counter (with_counter j m) n = with_counter j n"
  by (simp add: with_counter_def list_update_swap)

lemma counter_of_with [simp]: "length j = 16 \<Longrightarrow> counter_of (with_counter j n) = n"
  by (rule bit_word_eqI, rename_tac i, case_tac "i < 32") (simp_all add: counter_of_def with_counter_def bit_simps, arith)

lemma with_counter_of [simp]: "length j = 16 \<Longrightarrow> with_counter j (counter_of j) = j"
proof -
  have "ucast (push_bit 32 (ucast a) OR ucast b :: u64) = b" "ucast (drop_bit 32 (push_bit 32 (ucast a) OR ucast b :: u64)) = a" for a b :: u32
    by (rule bit_word_eqI, simp add: bit_simps)+
  then show "length j = 16 \<Longrightarrow> ?thesis" by (simp add: counter_of_def with_counter_def)
qed

lemma ucast_drop_of_nat: "(ucast (drop_bit 32 (of_nat i :: u64)) :: u32) = of_nat (i div 2 ^ 32)"
  unfolding drop_bit_eq_div [symmetric] by (rule bit_word_eqI) (simp add: bit_simps)

lemma of_nat_u32_eq_0: "(of_nat i :: u32) = 0 \<longleftrightarrow> i mod 2 ^ 32 = 0"
  by (simp only: word_of_nat_eq_0_iff mod_eq_0_iff_dvd len_num0 len_bit0 len_num1) simp

lemma counter_halves:
  fixes n :: u64
  shows "(ucast (n + 1) :: u32) = ucast n + 1"
    "(ucast (drop_bit 32 (n + 1)) :: u32) = (if (ucast n :: u32) + 1 = 0 then ucast (drop_bit 32 n) + 1 else ucast (drop_bit 32 n))"
proof -
  obtain k where n: "n = of_nat k" by (cases n rule: word_nat_cases)
  have n1: "n + 1 = of_nat (Suc k)" by (simp add: n)
  have lo: "(ucast (n + 1) :: u32) = of_nat (Suc k)" "(ucast n :: u32) + 1 = of_nat (Suc k)"
    unfolding n1 unfolding n by (simp_all only: ucast_of_nat_down len_num0 len_bit0 len_num1) simp_all
  then show "(ucast (n + 1) :: u32) = ucast n + 1" by simp
  have "Suc k div 2 ^ 32 = (if Suc k mod 2 ^ 32 = 0 then k div 2 ^ 32 + 1 else k div 2 ^ 32)" by (simp only: div_Suc) simp
  then show "(ucast (drop_bit 32 (n + 1)) :: u32) = (if (ucast n :: u32) + 1 = 0 then ucast (drop_bit 32 n) + 1 else ucast (drop_bit 32 n))"
    unfolding lo(2) of_nat_u32_eq_0 unfolding n1 unfolding n ucast_drop_of_nat by (cases "Suc k mod 2 ^ 32 = 0") (simp_all only: simp_thms if_True if_False of_nat_add of_nat_1)
qed

lemma chacha_count_counter: "length j = 16 \<Longrightarrow> chacha_count j = with_counter j (counter_of j + 1)"
proof -
  assume j: "length j = 16"
  have "ucast (counter_of j) = j ! 12" "ucast (drop_bit 32 (counter_of j)) = j ! 13"
    by (rule bit_word_eqI, simp add: counter_of_def bit_simps)+
  moreover have "j[12 := x] = j[12 := x, 13 := j ! 13]" for x
    using list_update_id [of "j[12 := x]" 13] by simp
  ultimately show ?thesis using j by (simp add: chacha_count_def with_counter_def counter_halves)
qed

lemma xor_stream_block:
  assumes "length j = 16" "length m \<le> 64" "\<And>i. i < length m \<Longrightarrow> b ! i = m ! i"
  shows "take (length m) (chacha_xor_block j b) = xor_stream j m"
  using assms by (intro nth_equalityI) (simp_all add: xor_stream_def stream_byte_def stream_block_def chacha_xor_block_nth)

lemma length_xor_stream [simp]: "length (xor_stream j m) = length m"
  by (simp add: xor_stream_def)

lemma xor_stream_split:
  assumes "length j = 16" "64 \<le> length m"
  shows "xor_stream j m = xor_stream j (take 64 m) @ xor_stream (chacha_count j) (drop 64 m)"
proof (rule nth_equalityI)
  fix i assume "i < length (xor_stream j m)"
  then have i: "i < length m" by simp
  show "xor_stream j m ! i = (xor_stream j (take 64 m) @ xor_stream (chacha_count j) (drop 64 m)) ! i"
  proof (cases "i < 64")
    case True
    then show ?thesis using assms i by (simp add: xor_stream_def nth_append)
  next
    case False
    then obtain k where k: "i = k + 64" by (metis le_add_diff_inverse2 not_less)
    then have "xor_stream (chacha_count j) (drop 64 m) ! k = m ! i XOR stream_byte (chacha_count j) k"
      using i less_diff_conv [of k "length m" 64] by (simp add: xor_stream_def add.commute)
    moreover have "i div 64 = k div 64 + 1" "i mod 64 = k mod 64" using k by simp_all
    then have "stream_byte (chacha_count j) k = stream_byte j i"
      using assms by (simp add: stream_byte_def stream_block_def chacha_count_counter add.assoc)
    ultimately show ?thesis using assms i False k by (simp add: xor_stream_def nth_append)
  qed
qed (use assms in simp)

lemma chacha_loop_stream:
  assumes "length j = 16" "length tmp = 64" "m \<noteq> []"
  shows "chacha_loop tmp j m = (with_counter j (counter_of j + of_nat ((length m + 63) div 64)), xor_stream j m)"
  using assms
proof (induction tmp j m rule: chacha_loop.induct)
  case (1 tmp j m)
  note IH = 1(1) and prems = 1(2-)
  consider "length m < 64" | "length m = 64" | "64 < length m" by linarith
  then show ?case
  proof cases
    case 1
    then have "(length m + 63) div 64 = 1" using prems by (cases m) (simp_all add: div_nat_eqI)
    with 1 show ?thesis using prems xor_stream_block [of j m "m @ drop (length m) tmp"]
      by (simp add: chacha_loop.simps [of tmp j m] chacha_count_counter nth_append)
  next
    case 2
    then show ?thesis using prems xor_stream_block [of j m m] by (simp add: chacha_loop.simps [of tmp j m] chacha_count_counter)
  next
    case 3
    then have len: "(length m + 63) div 64 = (length (drop 64 m) + 63) div 64 + 1"
      using div_add_self2 [of 64 "length m - 64 + 63"] by simp
    have "chacha_loop tmp (chacha_count j) (drop 64 m) =
        (with_counter j (counter_of j + 1 + of_nat ((length (drop 64 m) + 63) div 64)), xor_stream (chacha_count j) (drop 64 m))"
      using IH 3 prems by (simp add: chacha_count_counter)
    moreover have "chacha_xor_block j m = xor_stream j (take 64 m)"
      using xor_stream_block [of j "take 64 m" m] 3 prems by simp
    ultimately show ?thesis using 3 prems by (simp add: chacha_loop.simps [of tmp j m] xor_stream_split [of j m] len ac_simps)
  qed
qed

lemma with_counter_update: "length x = 16 \<Longrightarrow> x[12 := with_counter x n ! 12, 13 := with_counter x n ! 13] = with_counter x n"
  by (simp add: with_counter_def)

text \<open>
  C12: The cipher is the exclusive or with the key stream. Byte \<open>i\<close> of a message is combined with
  byte \<open>i mod 64\<close> of the block whose 64-bit counter is \<open>i div 64\<close> after the counter of the context,
  the carry between the two counter words included, the bytes left over on the stack have no
  influence, and the context moves on by the number of blocks begun.
\<close>

theorem chacha_encrypt_bytes_stream:
  assumes "length x = 16" "length tmp = 64"
  shows "chacha_encrypt_bytes tmp x m =
     (with_counter x (counter_of x + of_nat ((length m + 63) div 64)), xor_stream x m)"
  using assms by (simp add: chacha_encrypt_bytes_def chacha_loop_stream with_counter_update xor_stream_def)

text \<open>A message of two blocks whose first block has the last value of the low counter word.\<close>

definition carry_ctx :: chacha_ctx where
  "carry_ctx = (chacha_ivsetup (chacha_keysetup (replicate 16 0) (replicate 32 9) 256) (replicate 8 0) None)[12 := 0xffffffff]"

theorem chacha_encrypt_bytes_stream_witness:
  "length carry_ctx = 16 \<and>
   chacha_encrypt_bytes (replicate 64 7) carry_ctx (replicate 65 0) = (carry_ctx[12 := 1, 13 := 1], xor_stream carry_ctx (replicate 65 0))"
proof -
  have c: "carry_ctx ! 12 = 0xffffffff" "carry_ctx ! 13 = 0" "length carry_ctx = 16"
    by (simp_all add: carry_ctx_def chacha_ivsetup_def chacha_keysetup_def Let_def)
  then have "counter_of carry_ctx = 0xffffffff" by (simp add: counter_of_def)
  moreover have "with_counter carry_ctx (0xffffffff + 2) = carry_ctx[12 := 1, 13 := 1]"
    using c by (intro nth_equalityI) (simp_all add: with_counter_def nth_list_update)
  ultimately show ?thesis using c chacha_encrypt_bytes_stream [of carry_ctx "replicate 64 7" "replicate 65 0"] by simp
qed

lemma xor_stream_twice [simp]: "xor_stream j (xor_stream j m) = m"
  by (rule nth_equalityI) (simp_all add: xor_stream_def xor.assoc)

lemma xor_stream_take [simp]: "xor_stream j (take n m) = take n (xor_stream j m)"
  by (rule nth_equalityI) (simp_all add: xor_stream_def)

lemma chacha_encrypt_bytes_eq:
  "length x = 16 \<Longrightarrow> length tmp = 64 \<Longrightarrow> snd (chacha_encrypt_bytes tmp x m) = xor_stream x m"
  "length x = 16 \<Longrightarrow> length tmp = 64 \<Longrightarrow> \<exists>n. fst (chacha_encrypt_bytes tmp x m) = with_counter x n"
  by (simp_all add: chacha_encrypt_bytes_def chacha_loop_stream with_counter_update xor_stream_def split: prod.splits)
    (metis with_counter_of)

end
