(* ===== verification/Poly1305.thy ===== *)
theory Poly1305
  imports Prelude
begin

text \<open>
  The one-time authenticator (\<^verbatim>\<open>poly1305.c\<close>): the accumulator is kept in five limbs of 26 bits,
  which are multiplied with 64-bit products and carried lazily into 32-bit words. The theory gives
  the arithmetic meaning of the code, a polynomial evaluated at the clamped key modulo
  \<open>2\<^sup>1\<^sup>3\<^sup>0 - 5\<close>, and shows that no intermediate word wraps around.
\<close>

section \<open>The code\<close>

definition U8TO32_LE :: "byte list \<Rightarrow> nat \<Rightarrow> u32" where
  "U8TO32_LE p i =
     ucast (p ! i) OR push_bit 8 (ucast (p ! (i + 1))) OR push_bit 16 (ucast (p ! (i + 2))) OR
     push_bit 24 (ucast (p ! (i + 3)))"

definition U32TO8_LE :: "u64 \<Rightarrow> byte list" where
  "U32TO8_LE v = [ucast v, ucast (drop_bit 8 v), ucast (drop_bit 16 v), ucast (drop_bit 24 v)]"

definition mul32x32_64 :: "u32 \<Rightarrow> u32 \<Rightarrow> u64" where
  "mul32x32_64 a b = ucast a * ucast b"

type_synonym limbs = "u32 \<times> u32 \<times> u32 \<times> u32 \<times> u32"

text \<open>The clamped multiplier.\<close>

definition poly1305_clamp :: "byte list \<Rightarrow> limbs" where
  "poly1305_clamp key =
     (let t0 = U8TO32_LE key 0; t1 = U8TO32_LE key 4; t2 = U8TO32_LE key 8; t3 = U8TO32_LE key 12;
          r0 = t0 AND 0x3ffffff; t0 = drop_bit 26 t0; t0 = t0 OR push_bit 6 t1;
          r1 = t0 AND 0x3ffff03; t1 = drop_bit 20 t1; t1 = t1 OR push_bit 12 t2;
          r2 = t1 AND 0x3ffc0ff; t2 = drop_bit 14 t2; t2 = t2 OR push_bit 18 t3;
          r3 = t2 AND 0x3f03fff; t3 = drop_bit 8 t3;
          r4 = t3 AND 0x00fffff
      in (r0, r1, r2, r3, r4))"

text \<open>A block of 16 bytes is added; \<open>hibit\<close> is the bit after a full block.\<close>

definition poly1305_add :: "byte list \<Rightarrow> u32 \<Rightarrow> limbs \<Rightarrow> limbs" where
  "poly1305_add m hibit = (\<lambda>(h0, h1, h2, h3, h4).
     let t0 = U8TO32_LE m 0; t1 = U8TO32_LE m 4; t2 = U8TO32_LE m 8; t3 = U8TO32_LE m 12
     in (h0 + (t0 AND 0x3ffffff),
         h1 + ucast (drop_bit 26 (push_bit 32 (ucast t1 :: u64) OR ucast t0) AND 0x3ffffff),
         h2 + ucast (drop_bit 20 (push_bit 32 (ucast t2 :: u64) OR ucast t1) AND 0x3ffffff),
         h3 + ucast (drop_bit 14 (push_bit 32 (ucast t3 :: u64) OR ucast t2) AND 0x3ffffff),
         h4 + (drop_bit 8 t3 OR hibit)))"

definition poly1305_mul :: "limbs \<Rightarrow> limbs \<Rightarrow> limbs" where
  "poly1305_mul = (\<lambda>(r0, r1, r2, r3, r4) (h0, h1, h2, h3, h4).
     let s1 = r1 * 5; s2 = r2 * 5; s3 = r3 * 5; s4 = r4 * 5;
         t0 = mul32x32_64 h0 r0 + mul32x32_64 h1 s4 + mul32x32_64 h2 s3 + mul32x32_64 h3 s2 + mul32x32_64 h4 s1;
         t1 = mul32x32_64 h0 r1 + mul32x32_64 h1 r0 + mul32x32_64 h2 s4 + mul32x32_64 h3 s3 + mul32x32_64 h4 s2;
         t2 = mul32x32_64 h0 r2 + mul32x32_64 h1 r1 + mul32x32_64 h2 r0 + mul32x32_64 h3 s4 + mul32x32_64 h4 s3;
         t3 = mul32x32_64 h0 r3 + mul32x32_64 h1 r2 + mul32x32_64 h2 r1 + mul32x32_64 h3 r0 + mul32x32_64 h4 s4;
         t4 = mul32x32_64 h0 r4 + mul32x32_64 h1 r3 + mul32x32_64 h2 r2 + mul32x32_64 h3 r1 + mul32x32_64 h4 r0;
         h0 = ucast t0 AND 0x3ffffff; c = drop_bit 26 t0;
         t1 = t1 + c; h1 = ucast t1 AND 0x3ffffff; b = ucast (drop_bit 26 t1) :: u32;
         t2 = t2 + ucast b; h2 = ucast t2 AND 0x3ffffff; b = ucast (drop_bit 26 t2) :: u32;
         t3 = t3 + ucast b; h3 = ucast t3 AND 0x3ffffff; b = ucast (drop_bit 26 t3) :: u32;
         t4 = t4 + ucast b; h4 = ucast t4 AND 0x3ffffff; b = ucast (drop_bit 26 t4) :: u32
     in (h0 + b * 5, h1, h2, h3, h4))"

function poly1305_blocks :: "limbs \<Rightarrow> byte list \<Rightarrow> limbs \<Rightarrow> limbs" where
  "poly1305_blocks r m h =
     (if 16 \<le> length m then poly1305_blocks r (drop 16 m) (poly1305_mul r (poly1305_add m (push_bit 24 1) h))
      else if m = [] then h
      else poly1305_mul r (poly1305_add (m @ [1] @ replicate (15 - length m) 0) 0 h))"
  by pat_completeness auto
termination by (relation "measure (\<lambda>(r, m, h). length m)") auto

declare poly1305_blocks.simps [simp del]

text \<open>The end of the function: the last carries, the subtraction of the modulus, the tag.\<close>

definition poly1305_reduce :: "limbs \<Rightarrow> limbs" where
  "poly1305_reduce = (\<lambda>(h0, h1, h2, h3, h4).
     let b = drop_bit 26 h0; h0 = h0 AND 0x3ffffff;
         h1 = h1 + b; b = drop_bit 26 h1; h1 = h1 AND 0x3ffffff;
         h2 = h2 + b; b = drop_bit 26 h2; h2 = h2 AND 0x3ffffff;
         h3 = h3 + b; b = drop_bit 26 h3; h3 = h3 AND 0x3ffffff;
         h4 = h4 + b; b = drop_bit 26 h4; h4 = h4 AND 0x3ffffff;
         h0 = h0 + b * 5; b = drop_bit 26 h0; h0 = h0 AND 0x3ffffff;
         h1 = h1 + b
     in (h0, h1, h2, h3, h4))"

definition poly1305_select :: "limbs \<Rightarrow> limbs" where
  "poly1305_select = (\<lambda>(h0, h1, h2, h3, h4).
     let g0 = h0 + 5; b = drop_bit 26 g0; g0 = g0 AND 0x3ffffff;
         g1 = h1 + b; b = drop_bit 26 g1; g1 = g1 AND 0x3ffffff;
         g2 = h2 + b; b = drop_bit 26 g2; g2 = g2 AND 0x3ffffff;
         g3 = h3 + b; b = drop_bit 26 g3; g3 = g3 AND 0x3ffffff;
         g4 = h4 + b - push_bit 26 1;
         b = drop_bit 31 g4 - 1;
         nb = NOT b
     in ((h0 AND nb) OR (g0 AND b), (h1 AND nb) OR (g1 AND b), (h2 AND nb) OR (g2 AND b),
         (h3 AND nb) OR (g3 AND b), (h4 AND nb) OR (g4 AND b)))"

definition poly1305_tag :: "limbs \<Rightarrow> byte list \<Rightarrow> byte list" where
  "poly1305_tag = (\<lambda>(h0, h1, h2, h3, h4) key.
     let f0 = ucast (h0 OR push_bit 26 h1) + ucast (U8TO32_LE key 16);
         f1 = ucast (drop_bit 6 h1 OR push_bit 20 h2) + ucast (U8TO32_LE key 20);
         f2 = ucast (drop_bit 12 h2 OR push_bit 14 h3) + ucast (U8TO32_LE key 24);
         f3 = ucast (drop_bit 18 h3 OR push_bit 8 h4) + ucast (U8TO32_LE key 28);
         f1 = f1 + drop_bit 32 f0;
         f2 = f2 + drop_bit 32 f1;
         f3 = f3 + drop_bit 32 f2
     in U32TO8_LE f0 @ U32TO8_LE f1 @ U32TO8_LE f2 @ U32TO8_LE f3)"

definition poly1305_finish :: "limbs \<Rightarrow> byte list \<Rightarrow> byte list" where
  "poly1305_finish h key = poly1305_tag (poly1305_select (poly1305_reduce h)) key"

definition poly1305_auth :: "byte list \<Rightarrow> byte list \<Rightarrow> byte list" where
  "poly1305_auth m key = poly1305_finish (poly1305_blocks (poly1305_clamp key) m (0, 0, 0, 0, 0)) key"

section \<open>The meaning\<close>

text \<open>Numbers written with the least significant byte first.\<close>

fun le_num :: "byte list \<Rightarrow> nat" where
  "le_num [] = 0"
| "le_num (b # bs) = unat b + 256 * le_num bs"

fun le_bytes :: "nat \<Rightarrow> nat \<Rightarrow> byte list" where
  "le_bytes 0 n = []"
| "le_bytes (Suc k) n = of_nat n # le_bytes k (n div 256)"

definition P1305 :: nat where "P1305 = 2 ^ 130 - 5"

function poly_eval :: "nat \<Rightarrow> nat \<Rightarrow> byte list \<Rightarrow> nat" where
  "poly_eval r a m =
     (if m = [] then a else poly_eval r ((a + le_num (take 16 m @ [1])) * r mod P1305) (drop 16 m))"
  by pat_completeness auto
termination by (relation "measure (\<lambda>(r, a, m). length m)") auto

declare poly_eval.simps [simp del]

definition poly1305_mac :: "byte list \<Rightarrow> byte list \<Rightarrow> byte list" where
  "poly1305_mac m key =
     le_bytes 16 (poly_eval (le_num (take 16 key) AND 0x0ffffffc0ffffffc0ffffffc0fffffff) 0 m + le_num (drop 16 key))"

section \<open>Words as numbers\<close>

named_theorems limb_simps "the value of a word operation on limbs"

lemma mask26 [limb_simps]:
  "unat (x AND 0x3ffffff :: u32) = unat x mod 2 ^ 26" "unat (y AND 0x3ffffff :: u64) = unat y mod 2 ^ 26"
proof -
  have "(0x3ffffff :: u32) = mask 26" "(0x3ffffff :: u64) = mask 26" by (simp_all add: mask_eq_exp_minus_1)
  then show "unat (x AND 0x3ffffff :: u32) = unat x mod 2 ^ 26" "unat (y AND 0x3ffffff :: u64) = unat y mod 2 ^ 26"
    by (simp_all only: take_bit_eq_mask [symmetric] unsigned_take_bit_eq) (simp_all only: take_bit_eq_mod)
qed

lemma unat_shift_right [limb_simps]: "unat (drop_bit n x :: 'a::len word) = unat x div 2 ^ n"
  by (simp only: unat_drop_bit_eq) (simp only: drop_bit_eq_div)

lemma unat_up [limb_simps]: "unat (ucast (x :: u32) :: u64) = unat x"
  by (simp add: unsigned_ucast_eq take_bit_nat_eq_self_iff) (rule less_trans [OF unsigned_less], simp)

lemma unat_down [limb_simps]: "unat (ucast (x :: u64) :: u32) = unat x mod 2 ^ 32"
  by (simp add: unsigned_ucast_eq take_bit_eq_mod)

lemma or_nat_add: "a < 2 ^ n \<Longrightarrow> a OR b * 2 ^ n = a + b * 2 ^ n" for a b :: nat
proof -
  assume "a < 2 ^ n"
  then have "\<not> bit a k" if "n \<le> k" for k
    using that by (metis bit_take_bit_iff not_le take_bit_nat_eq_self)
  moreover have "\<not> bit (b * 2 ^ n) k" if "k < n" for k
    using that by (simp add: bit_push_bit_iff push_bit_eq_mult [symmetric])
  ultimately show ?thesis
    by (intro disjunctive_add_eq_or [symmetric] bit_eqI) (auto simp: bit_simps not_le [symmetric])
qed

lemma unat_or_shift:
  fixes x y :: "'a::len word"
  assumes "unat x < 2 ^ n" "n < LENGTH('a)"
  shows "unat (x OR push_bit n y) = unat x + unat y * 2 ^ n mod 2 ^ LENGTH('a)"
proof -
  have m: "unat y * 2 ^ n mod 2 ^ LENGTH('a) = (unat y mod 2 ^ (LENGTH('a) - n)) * 2 ^ n"
    using assms(2) by (metis le_add_diff_inverse2 less_imp_le mod_mult_mult2 mult.commute power_add)
  have "unat (x OR push_bit n y) = unat x OR (unat y * 2 ^ n mod 2 ^ LENGTH('a))"
    by (simp only: unsigned_or_eq unsigned_push_bit_eq) (simp only: take_bit_eq_mod push_bit_eq_mult)
  also have "\<dots> = unat x + unat y * 2 ^ n mod 2 ^ LENGTH('a)"
    unfolding m by (rule or_nat_add [OF assms(1)])
  finally show ?thesis .
qed

lemma le_num_append: "le_num (a @ b) = le_num a + 256 ^ length a * le_num b"
  by (induction a) (simp_all add: algebra_simps)

lemma le_num_less: "le_num bs < 256 ^ length bs"
proof (induction bs)
  case (Cons b bs)
  have "unat b < 256" using unsigned_less [of b, where 'a = nat] by simp
  with Cons show ?case by simp
qed simp

lemma U8TO32_LE_num:
  assumes "i + 4 \<le> length p"
  shows "unat (U8TO32_LE p i) = le_num (take 4 (drop i p))"
proof -
  have lt: "unat x < 256" for x :: byte using unsigned_less [of x, where 'a = nat] by simp
  have b: "unat (ucast (x :: byte) :: u32) = unat x" "unat x < 256" for x
    using lt [of x] by (simp_all add: unsigned_ucast_eq take_bit_nat_eq_self)
  have "take 4 (drop i p) = [p ! i, p ! (i + 1), p ! (i + 2), p ! (i + 3)]"
    using assms by (intro nth_equalityI) (auto simp: less_Suc_eq numeral_eq_Suc)
  moreover have "unat (U8TO32_LE p i) = unat (p ! i) + 256 * unat (p ! (i + 1)) + 65536 * unat (p ! (i + 2)) + 16777216 * unat (p ! (i + 3))"
  proof -
    note bs = b [of "p ! i"] b [of "p ! (i + 1)"] b [of "p ! (i + 2)"] b [of "p ! (i + 3)"]
    let ?x = "ucast (p ! i) :: u32"
    let ?y = "?x OR push_bit 8 (ucast (p ! (i + 1)))"
    let ?z = "?y OR push_bit 16 (ucast (p ! (i + 2)))"
    have y: "unat ?y = unat (p ! i) + unat (p ! (i + 1)) * 256"
      using unat_or_shift [of ?x 8 "ucast (p ! (i + 1))"] bs by simp
    have z: "unat ?z = unat ?y + unat (p ! (i + 2)) * 65536"
      using unat_or_shift [of ?y 16 "ucast (p ! (i + 2))"] bs y by simp
    have "unat (?z OR push_bit 24 (ucast (p ! (i + 3)))) = unat ?z + unat (p ! (i + 3)) * 16777216"
      using unat_or_shift [of ?z 24 "ucast (p ! (i + 3))"] bs y z by simp
    with y z show ?thesis by (simp add: U8TO32_LE_def or.assoc)
  qed
  ultimately show ?thesis by simp
qed

text \<open>Sixteen bytes are four little-endian words.\<close>

lemma le_num_words:
  assumes "length m = 16"
  shows "le_num m = unat (U8TO32_LE m 0) + 2 ^ 32 * unat (U8TO32_LE m 4) + 2 ^ 64 * unat (U8TO32_LE m 8) + 2 ^ 96 * unat (U8TO32_LE m 12)"
proof -
  have "m = take 4 (drop 0 m) @ take 4 (drop 4 m) @ take 4 (drop 8 m) @ take 4 (drop 12 m)"
    using assms by (intro nth_equalityI) (auto simp: nth_append less_Suc_eq numeral_eq_Suc)
  then have "le_num m = le_num (take 4 (drop 0 m) @ take 4 (drop 4 m) @ take 4 (drop 8 m) @ take 4 (drop 12 m))" by simp
  also have "\<dots> = le_num (take 4 (drop 0 m)) + 2 ^ 32 * le_num (take 4 (drop 4 m)) + 2 ^ 64 * le_num (take 4 (drop 8 m)) + 2 ^ 96 * le_num (take 4 (drop 12 m))"
    using assms by (simp add: le_num_append)
  finally show ?thesis using assms by (simp add: U8TO32_LE_num)
qed

fun num :: "limbs \<Rightarrow> nat" where
  "num (h0, h1, h2, h3, h4) = unat h0 + 2 ^ 26 * unat h1 + 2 ^ 52 * unat h2 + 2 ^ 78 * unat h3 + 2 ^ 104 * unat h4"

text \<open>The bounds of the accumulator between two blocks, and of the clamped multiplier.\<close>

fun acc_ok :: "limbs \<Rightarrow> bool" where
  "acc_ok (h0, h1, h2, h3, h4) \<longleftrightarrow> unat h0 \<le> 2810000000 \<and> unat h1 < 2 ^ 26 \<and> unat h2 < 2 ^ 26 \<and> unat h3 < 2 ^ 26 \<and> unat h4 < 2 ^ 26"

fun mult_ok :: "limbs \<Rightarrow> bool" where
  "mult_ok (r0, r1, r2, r3, r4) \<longleftrightarrow> unat r0 \<le> 0x3ffffff \<and> unat r1 \<le> 0x3ffff03 \<and> unat r2 \<le> 0x3ffc0ff \<and> unat r3 \<le> 0x3f03fff \<and> unat r4 \<le> 0xfffff"

text \<open>The bounds after a block has been added.\<close>

fun sum_ok :: "limbs \<Rightarrow> bool" where
  "sum_ok (h0, h1, h2, h3, h4) \<longleftrightarrow> unat h0 \<le> 2877108863 \<and> unat h1 \<le> 0x7fffffe \<and> unat h2 \<le> 0x7fffffe \<and> unat h3 \<le> 0x7fffffe \<and> unat h4 \<le> 0x5fffffe"

section \<open>Adding a block\<close>

lemma limb_middle:
  fixes x y p q d :: nat
  assumes "x < p * d" "0 < d" "0 < p"
  shows "(x + y * (p * d)) div d mod (p * q) = x div d + p * (y mod q)"
proof -
  have "(x + y * (p * d)) div d = x div d + y * p"
    using assms(2) by (simp add: mult.assoc [symmetric] div_mult_self1)
  moreover have "x div d < p" using assms by (simp add: less_mult_imp_div_less)
  ultimately show ?thesis using assms(3) by (simp add: mod_mult2_eq)
qed

lemma shift_or_64 [limb_simps]: "unat (push_bit 32 (ucast t :: u64) OR ucast s) = unat s + unat t * 2 ^ 32" for s t :: u32
proof -
  have "unat t < 2 ^ 32" "unat s < 2 ^ 32" using unsigned_less [of t] unsigned_less [of s] by simp_all
  then show ?thesis
    using unat_or_shift [of "ucast s :: u64" 32 "ucast t"] by (simp add: unat_up or.commute)
qed

lemma mod_26_32: "x mod 2 ^ 26 mod 2 ^ 32 = x mod 2 ^ 26" for x :: nat
  by (rule mod_less, rule less_trans [OF mod_less_divisor]) simp_all

lemma mod_26_le: "x mod 67108864 \<le> 67108863" for x :: nat
  using mod_less_divisor [of 67108864 x] by linarith

lemma limb_sum:
  fixes a0 a1 b0 b1 c0 c1 d0 d1 :: nat
  shows "a0 + 2 ^ 26 * (a1 + 2 ^ 6 * b0) + 2 ^ 52 * (b1 + 2 ^ 12 * c0) + 2 ^ 78 * (c1 + 2 ^ 18 * d0) + 2 ^ 104 * d1 =
    (2 ^ 26 * a1 + a0) + 2 ^ 32 * (2 ^ 20 * b1 + b0) + 2 ^ 64 * (2 ^ 14 * c1 + c0) + 2 ^ 96 * (2 ^ 8 * d1 + d0)"
  by simp

lemma limbs_of_words:
  fixes t0 t1 t2 t3 :: u32
  shows "unat t0 mod 2 ^ 26 + 2 ^ 26 * ((unat t0 + unat t1 * 2 ^ 32) div 2 ^ 26 mod 2 ^ 26) +
      2 ^ 52 * ((unat t1 + unat t2 * 2 ^ 32) div 2 ^ 20 mod 2 ^ 26) +
      2 ^ 78 * ((unat t2 + unat t3 * 2 ^ 32) div 2 ^ 14 mod 2 ^ 26) + 2 ^ 104 * (unat t3 div 2 ^ 8) =
    unat t0 + 2 ^ 32 * unat t1 + 2 ^ 64 * unat t2 + 2 ^ 96 * unat t3"
proof -
  have w: "unat t < 2 ^ 32" for t :: u32 using unsigned_less [of t] by simp
  have "(unat t0 + unat t1 * 2 ^ 32) div 2 ^ 26 mod 2 ^ 26 = unat t0 div 2 ^ 26 + 2 ^ 6 * (unat t1 mod 2 ^ 20)"
    using limb_middle [of "unat t0" "2 ^ 6" "2 ^ 26" "unat t1" "2 ^ 20"] w [of t0] by simp
  moreover have "(unat t1 + unat t2 * 2 ^ 32) div 2 ^ 20 mod 2 ^ 26 = unat t1 div 2 ^ 20 + 2 ^ 12 * (unat t2 mod 2 ^ 14)"
    using limb_middle [of "unat t1" "2 ^ 12" "2 ^ 20" "unat t2" "2 ^ 14"] w [of t1] by simp
  moreover have "(unat t2 + unat t3 * 2 ^ 32) div 2 ^ 14 mod 2 ^ 26 = unat t2 div 2 ^ 14 + 2 ^ 18 * (unat t3 mod 2 ^ 8)"
    using limb_middle [of "unat t2" "2 ^ 18" "2 ^ 14" "unat t3" "2 ^ 8"] w [of t2] by simp
  ultimately show ?thesis by (simp only: limb_sum mult_div_mod_eq)
qed

lemma unat_add_small: "unat x + unat y < 2 ^ LENGTH('a) \<Longrightarrow> unat (x + y) = unat x + unat y" for x y :: "'a::len word"
  by (simp add: unat_word_ariths)

lemma poly1305_add_num:
  assumes m: "length m = 16" and h: "acc_ok h" and hi: "hibit = push_bit 24 1 \<and> c = 2 ^ 128 \<or> hibit = 0 \<and> c = 0"
  shows "num (poly1305_add m hibit h) = num h + le_num m + c" "sum_ok (poly1305_add m hibit h)"
proof -
  obtain h0 h1 h2 h3 h4 where hh: "h = (h0, h1, h2, h3, h4)" by (cases h)
  define t0 t1 t2 t3 where t: "t0 = U8TO32_LE m 0" "t1 = U8TO32_LE m 4" "t2 = U8TO32_LE m 8" "t3 = U8TO32_LE m 12"
  define l0 l1 l2 l3 where l: "l0 = (t0 AND 0x3ffffff)"
    "l1 = (ucast (drop_bit 26 (push_bit 32 (ucast t1 :: u64) OR ucast t0) AND 0x3ffffff) :: u32)"
    "l2 = (ucast (drop_bit 20 (push_bit 32 (ucast t2 :: u64) OR ucast t1) AND 0x3ffffff) :: u32)"
    "l3 = (ucast (drop_bit 14 (push_bit 32 (ucast t3 :: u64) OR ucast t2) AND 0x3ffffff) :: u32)"
  define l4 where "l4 = (drop_bit 8 t3 OR hibit)"
  have lv: "unat l0 = unat t0 mod 2 ^ 26" "unat l1 = (unat t0 + unat t1 * 2 ^ 32) div 2 ^ 26 mod 2 ^ 26"
    "unat l2 = (unat t1 + unat t2 * 2 ^ 32) div 2 ^ 20 mod 2 ^ 26" "unat l3 = (unat t2 + unat t3 * 2 ^ 32) div 2 ^ 14 mod 2 ^ 26"
    unfolding l by (simp_all only: limb_simps mod_26_32)
  have d: "unat (drop_bit 8 t3) < 2 ^ 24" using unsigned_less [of t3, where 'a = nat] by (simp add: limb_simps less_mult_imp_div_less)
  have l4: "unat l4 = unat t3 div 2 ^ 8 + c div 2 ^ 104" "c = 2 ^ 104 * (c div 2 ^ 104)" "c div 2 ^ 104 \<le> 2 ^ 24"
    using hi unat_or_shift [OF d, of 1] by (auto simp: l4_def limb_simps)
  have lb: "unat l0 \<le> 0x3ffffff" "unat l1 \<le> 0x3ffffff" "unat l2 \<le> 0x3ffffff" "unat l3 \<le> 0x3ffffff" "unat l4 \<le> 0x1ffffff"
    using l4(1,3) d by (simp_all add: lv limb_simps mod_26_le)
  have r: "poly1305_add m hibit h = (h0 + l0, h1 + l1, h2 + l2, h3 + l3, h4 + l4)"
    by (simp add: poly1305_add_def hh Let_def l l4_def t)
  have s: "unat (h0 + l0) = unat h0 + unat l0" "unat (h1 + l1) = unat h1 + unat l1" "unat (h2 + l2) = unat h2 + unat l2"
    "unat (h3 + l3) = unat h3 + unat l3" "unat (h4 + l4) = unat h4 + unat l4"
    using h lb by (auto simp: hh intro!: unat_add_small)
  show "sum_ok (poly1305_add m hibit h)" unfolding r using h lb s by (auto simp: hh)
  have "le_num m + c = unat l0 + 2 ^ 26 * unat l1 + 2 ^ 52 * unat l2 + 2 ^ 78 * unat l3 + 2 ^ 104 * unat l4"
    unfolding le_num_words [OF m, folded t] limbs_of_words [symmetric] lv l4(1) using l4(2) by (simp only: add_mult_distrib2)
  then show "num (poly1305_add m hibit h) = num h + le_num m + c" unfolding r by (simp add: hh s)
qed

section \<open>Multiplying\<close>

lemma P1305_eq: "P1305 + 5 = 2 ^ 130"
  by (simp add: P1305_def)

text \<open>The products above the fifth limb come back five times at the bottom.\<close>

lemma limb_product:
  fixes h0 h1 h2 h3 h4 r0 r1 r2 r3 r4 :: nat
  defines "K \<equiv> h1 * r4 + h2 * r3 + h3 * r2 + h4 * r1 + 2 ^ 26 * (h2 * r4 + h3 * r3 + h4 * r2) + 2 ^ 52 * (h3 * r4 + h4 * r3) + 2 ^ 78 * (h4 * r4)"
  shows "(h0 + 2 ^ 26 * h1 + 2 ^ 52 * h2 + 2 ^ 78 * h3 + 2 ^ 104 * h4) * (r0 + 2 ^ 26 * r1 + 2 ^ 52 * r2 + 2 ^ 78 * r3 + 2 ^ 104 * r4) =
    (h0 * r0 + h1 * (5 * r4) + h2 * (5 * r3) + h3 * (5 * r2) + h4 * (5 * r1)) +
    2 ^ 26 * (h0 * r1 + h1 * r0 + h2 * (5 * r4) + h3 * (5 * r3) + h4 * (5 * r2)) +
    2 ^ 52 * (h0 * r2 + h1 * r1 + h2 * r0 + h3 * (5 * r4) + h4 * (5 * r3)) +
    2 ^ 78 * (h0 * r3 + h1 * r2 + h2 * r1 + h3 * r0 + h4 * (5 * r4)) +
    2 ^ 104 * (h0 * r4 + h1 * r3 + h2 * r2 + h3 * r1 + h4 * r0) + P1305 * K"
  (is "?l = ?r + P1305 * K")
proof -
  have "?l + 5 * K = ?r + 2 ^ 130 * K" unfolding K_def by (simp add: algebra_simps)
  also have "\<dots> = ?r + P1305 * K + 5 * K" by (simp only: P1305_eq [symmetric] add_mult_distrib add.assoc)
  finally show ?thesis by simp
qed

lemma carry_step: "x + b * t = x mod b + b * (t + x div b)" for x b t :: nat
  by (simp only: add_mult_distrib2 mod_mult_div_eq add.left_commute [of "x mod b"] add.commute)

lemma carry_chain:
  fixes t0 t1 t2 t3 t4 m0 m1 m2 m3 m4 u1 u2 u3 u4 q :: nat
  assumes "t0 + 2 ^ 26 * t1 = m0 + 2 ^ 26 * u1" "u1 + 2 ^ 26 * t2 = m1 + 2 ^ 26 * u2" "u2 + 2 ^ 26 * t3 = m2 + 2 ^ 26 * u3"
    "u3 + 2 ^ 26 * t4 = m3 + 2 ^ 26 * u4" "u4 = m4 + 2 ^ 26 * q"
  shows "t0 + 2 ^ 26 * t1 + 2 ^ 52 * t2 + 2 ^ 78 * t3 + 2 ^ 104 * t4 =
    (m0 + q * 5) + 2 ^ 26 * m1 + 2 ^ 52 * m2 + 2 ^ 78 * m3 + 2 ^ 104 * m4 + P1305 * q"
  using assms by (simp add: P1305_def)

text \<open>The carries from limb to limb, the last one back to the first.\<close>

lemma limb_carry:
  fixes t0 t1 t2 t3 t4 :: nat
  defines "u1 \<equiv> t1 + t0 div 2 ^ 26"
  defines "u2 \<equiv> t2 + u1 div 2 ^ 26"
  defines "u3 \<equiv> t3 + u2 div 2 ^ 26"
  defines "u4 \<equiv> t4 + u3 div 2 ^ 26"
  shows "t0 + 2 ^ 26 * t1 + 2 ^ 52 * t2 + 2 ^ 78 * t3 + 2 ^ 104 * t4 =
    (t0 mod 2 ^ 26 + u4 div 2 ^ 26 * 5) + 2 ^ 26 * (u1 mod 2 ^ 26) + 2 ^ 52 * (u2 mod 2 ^ 26) + 2 ^ 78 * (u3 mod 2 ^ 26) +
    2 ^ 104 * (u4 mod 2 ^ 26) + P1305 * (u4 div 2 ^ 26)"
proof -
  have "t0 + 2 ^ 26 * t1 = t0 mod 2 ^ 26 + 2 ^ 26 * u1" "u1 + 2 ^ 26 * t2 = u1 mod 2 ^ 26 + 2 ^ 26 * u2"
    "u2 + 2 ^ 26 * t3 = u2 mod 2 ^ 26 + 2 ^ 26 * u3" "u3 + 2 ^ 26 * t4 = u3 mod 2 ^ 26 + 2 ^ 26 * u4"
    unfolding u1_def u2_def u3_def u4_def by (rule carry_step)+
  moreover have "u4 = u4 mod 2 ^ 26 + 2 ^ 26 * (u4 div 2 ^ 26)" by (simp only: mod_mult_div_eq)
  ultimately show ?thesis by (rule carry_chain)
qed

lemma dot_product [limb_simps]:
  assumes "unat a0 * unat b0 + unat a1 * unat b1 + unat a2 * unat b2 + unat a3 * unat b3 + unat a4 * unat b4 < 2 ^ 64"
  shows "unat (mul32x32_64 a0 b0 + mul32x32_64 a1 b1 + mul32x32_64 a2 b2 + mul32x32_64 a3 b3 + mul32x32_64 a4 b4) =
    unat a0 * unat b0 + unat a1 * unat b1 + unat a2 * unat b2 + unat a3 * unat b3 + unat a4 * unat b4"
proof -
  have "unat (mul32x32_64 a0 b0 + mul32x32_64 a1 b1 + mul32x32_64 a2 b2 + mul32x32_64 a3 b3 + mul32x32_64 a4 b4) =
    (unat a0 * unat b0 + unat a1 * unat b1 + unat a2 * unat b2 + unat a3 * unat b3 + unat a4 * unat b4) mod 2 ^ 64"
    by (simp add: mul32x32_64_def unat_word_ariths unat_up mod_simps)
  with assms show ?thesis by simp
qed

lemma dot_bound:
  assumes "unat a0 \<le> A0" "unat a1 \<le> A1" "unat a2 \<le> A2" "unat a3 \<le> A3" "unat a4 \<le> A4"
    and "unat b0 \<le> B0" "unat b1 \<le> B1" "unat b2 \<le> B2" "unat b3 \<le> B3" "unat b4 \<le> B4"
    and "A0 * B0 + A1 * B1 + A2 * B2 + A3 * B3 + A4 * B4 < 2 ^ 64"
  shows "unat (mul32x32_64 a0 b0 + mul32x32_64 a1 b1 + mul32x32_64 a2 b2 + mul32x32_64 a3 b3 + mul32x32_64 a4 b4) =
      unat a0 * unat b0 + unat a1 * unat b1 + unat a2 * unat b2 + unat a3 * unat b3 + unat a4 * unat b4 \<and>
    unat (mul32x32_64 a0 b0 + mul32x32_64 a1 b1 + mul32x32_64 a2 b2 + mul32x32_64 a3 b3 + mul32x32_64 a4 b4) \<le>
      A0 * B0 + A1 * B1 + A2 * B2 + A3 * B3 + A4 * B4"
proof -
  have "unat a0 * unat b0 + unat a1 * unat b1 + unat a2 * unat b2 + unat a3 * unat b3 + unat a4 * unat b4 \<le>
      A0 * B0 + A1 * B1 + A2 * B2 + A3 * B3 + A4 * B4"
    using assms(1-10) by (intro add_le_mono mult_le_mono)
  with assms(11) show ?thesis by (simp add: dot_product)
qed

lemma times_five: "unat r \<le> n \<Longrightarrow> n \<le> 0x3ffffff \<Longrightarrow> unat (r * 5) = 5 * unat r \<and> unat (r * 5) \<le> 5 * n" for r :: u32
  by (simp add: unat_word_ariths)

text \<open>
  The sizes of the five sums: only the second comes close to the \<open>2\<^sup>5\<^sup>8\<close> above which its carry would
  not fit a word of 32 bits.
\<close>

lemma poly1305_sums:
  assumes "sum_ok (h0, h1, h2, h3, h4)" "mult_ok (r0, r1, r2, r3, r4)"
  shows "unat (mul32x32_64 h0 r0 + mul32x32_64 h1 (r4 * 5) + mul32x32_64 h2 (r3 * 5) + mul32x32_64 h3 (r2 * 5) + mul32x32_64 h4 (r1 * 5)) = unat h0 * unat r0 + unat h1 * (5 * unat r4) + unat h2 * (5 * unat r3) + unat h3 * (5 * unat r2) + unat h4 * (5 * unat r1) \<and>
      unat (mul32x32_64 h0 r0 + mul32x32_64 h1 (r4 * 5) + mul32x32_64 h2 (r3 * 5) + mul32x32_64 h3 (r2 * 5) + mul32x32_64 h4 (r1 * 5)) \<le> 316928534708931969"
    and "unat (mul32x32_64 h0 r1 + mul32x32_64 h1 r0 + mul32x32_64 h2 (r4 * 5) + mul32x32_64 h3 (r3 * 5) + mul32x32_64 h4 (r2 * 5)) = unat h0 * unat r1 + unat h1 * unat r0 + unat h2 * (5 * unat r4) + unat h3 * (5 * unat r3) + unat h4 * (5 * unat r2) \<and>
      unat (mul32x32_64 h0 r1 + mul32x32_64 h1 r0 + mul32x32_64 h2 (r4 * 5) + mul32x32_64 h3 (r3 * 5) + mul32x32_64 h4 (r2 * 5)) \<le> 280901846397423261"
    and "unat (mul32x32_64 h0 r2 + mul32x32_64 h1 r1 + mul32x32_64 h2 r0 + mul32x32_64 h3 (r4 * 5) + mul32x32_64 h4 (r3 * 5)) = unat h0 * unat r2 + unat h1 * unat r1 + unat h2 * unat r0 + unat h3 * (5 * unat r4) + unat h4 * (5 * unat r3) \<and>
      unat (mul32x32_64 h0 r2 + mul32x32_64 h1 r1 + mul32x32_64 h2 r0 + mul32x32_64 h3 (r4 * 5) + mul32x32_64 h4 (r3 * 5)) \<le> 245008630218428049"
    and "unat (mul32x32_64 h0 r3 + mul32x32_64 h1 r2 + mul32x32_64 h2 r1 + mul32x32_64 h3 r0 + mul32x32_64 h4 (r4 * 5)) = unat h0 * unat r3 + unat h1 * unat r2 + unat h2 * unat r1 + unat h3 * unat r0 + unat h4 * (5 * unat r4) \<and>
      unat (mul32x32_64 h0 r3 + mul32x32_64 h1 r2 + mul32x32_64 h2 r1 + mul32x32_64 h3 r0 + mul32x32_64 h4 (r4 * 5)) \<le> 217656939311730057"
    and "unat (mul32x32_64 h0 r4 + mul32x32_64 h1 r3 + mul32x32_64 h2 r2 + mul32x32_64 h3 r1 + mul32x32_64 h4 r0) = unat h0 * unat r4 + unat h1 * unat r3 + unat h2 * unat r2 + unat h3 * unat r1 + unat h4 * unat r0 \<and>
      unat (mul32x32_64 h0 r4 + mul32x32_64 h1 r3 + mul32x32_64 h2 r2 + mul32x32_64 h3 r1 + mul32x32_64 h4 r0) \<le> 36653123641724289"
proof -
  have hb: "unat h0 \<le> 2877108863" "unat h1 \<le> 0x7fffffe" "unat h2 \<le> 0x7fffffe" "unat h3 \<le> 0x7fffffe" "unat h4 \<le> 0x5fffffe"
    using assms(1) by simp_all
  have rb: "unat r0 \<le> 0x3ffffff" "unat r1 \<le> 0x3ffff03" "unat r2 \<le> 0x3ffc0ff" "unat r3 \<le> 0x3f03fff" "unat r4 \<le> 0xfffff"
    using assms(2) by simp_all
  have five: "unat (r1 * 5) = 5 * unat r1" "unat (r2 * 5) = 5 * unat r2" "unat (r3 * 5) = 5 * unat r3" "unat (r4 * 5) = 5 * unat r4"
    and fb: "unat (r1 * 5) \<le> 5 * 0x3ffff03" "unat (r2 * 5) \<le> 5 * 0x3ffc0ff" "unat (r3 * 5) \<le> 5 * 0x3f03fff" "unat (r4 * 5) \<le> 5 * 0xfffff"
    using times_five [OF rb(2)] times_five [OF rb(3)] times_five [OF rb(4)] times_five [OF rb(5)] by simp_all
  note d0 = dot_bound [OF hb rb(1) fb(4) fb(3) fb(2) fb(1), simplified five]
  note d1 = dot_bound [OF hb rb(2) rb(1) fb(4) fb(3) fb(2), simplified five]
  note d2 = dot_bound [OF hb rb(3) rb(2) rb(1) fb(4) fb(3), simplified five]
  note d3 = dot_bound [OF hb rb(4) rb(3) rb(2) rb(1) fb(4), simplified five]
  note d4 = dot_bound [OF hb rb(5) rb(4) rb(3) rb(2) rb(1), simplified five]
  show "unat (mul32x32_64 h0 r0 + mul32x32_64 h1 (r4 * 5) + mul32x32_64 h2 (r3 * 5) + mul32x32_64 h3 (r2 * 5) + mul32x32_64 h4 (r1 * 5)) = unat h0 * unat r0 + unat h1 * (5 * unat r4) + unat h2 * (5 * unat r3) + unat h3 * (5 * unat r2) + unat h4 * (5 * unat r1) \<and>
      unat (mul32x32_64 h0 r0 + mul32x32_64 h1 (r4 * 5) + mul32x32_64 h2 (r3 * 5) + mul32x32_64 h3 (r2 * 5) + mul32x32_64 h4 (r1 * 5)) \<le> 316928534708931969" using d0 by simp
  show "unat (mul32x32_64 h0 r1 + mul32x32_64 h1 r0 + mul32x32_64 h2 (r4 * 5) + mul32x32_64 h3 (r3 * 5) + mul32x32_64 h4 (r2 * 5)) = unat h0 * unat r1 + unat h1 * unat r0 + unat h2 * (5 * unat r4) + unat h3 * (5 * unat r3) + unat h4 * (5 * unat r2) \<and>
      unat (mul32x32_64 h0 r1 + mul32x32_64 h1 r0 + mul32x32_64 h2 (r4 * 5) + mul32x32_64 h3 (r3 * 5) + mul32x32_64 h4 (r2 * 5)) \<le> 280901846397423261" using d1 by simp
  show "unat (mul32x32_64 h0 r2 + mul32x32_64 h1 r1 + mul32x32_64 h2 r0 + mul32x32_64 h3 (r4 * 5) + mul32x32_64 h4 (r3 * 5)) = unat h0 * unat r2 + unat h1 * unat r1 + unat h2 * unat r0 + unat h3 * (5 * unat r4) + unat h4 * (5 * unat r3) \<and>
      unat (mul32x32_64 h0 r2 + mul32x32_64 h1 r1 + mul32x32_64 h2 r0 + mul32x32_64 h3 (r4 * 5) + mul32x32_64 h4 (r3 * 5)) \<le> 245008630218428049" using d2 by simp
  show "unat (mul32x32_64 h0 r3 + mul32x32_64 h1 r2 + mul32x32_64 h2 r1 + mul32x32_64 h3 r0 + mul32x32_64 h4 (r4 * 5)) = unat h0 * unat r3 + unat h1 * unat r2 + unat h2 * unat r1 + unat h3 * unat r0 + unat h4 * (5 * unat r4) \<and>
      unat (mul32x32_64 h0 r3 + mul32x32_64 h1 r2 + mul32x32_64 h2 r1 + mul32x32_64 h3 r0 + mul32x32_64 h4 (r4 * 5)) \<le> 217656939311730057" using d3 by simp
  show "unat (mul32x32_64 h0 r4 + mul32x32_64 h1 r3 + mul32x32_64 h2 r2 + mul32x32_64 h3 r1 + mul32x32_64 h4 r0) = unat h0 * unat r4 + unat h1 * unat r3 + unat h2 * unat r2 + unat h3 * unat r1 + unat h4 * unat r0 \<and>
      unat (mul32x32_64 h0 r4 + mul32x32_64 h1 r3 + mul32x32_64 h2 r2 + mul32x32_64 h3 r1 + mul32x32_64 h4 r0) \<le> 36653123641724289" using d4 by simp
qed

lemma mod_32_26: "x mod 2 ^ 32 mod 2 ^ 26 = x mod 2 ^ 26" for x :: nat
  by (rule mod_mod_cancel) simp

lemma carry_in:
  fixes t :: u64 and b :: u32
  assumes "unat t \<le> m" "unat b \<le> n" "m + n < 2 ^ 64"
  shows "unat (t + ucast b) = unat t + unat b \<and> unat (t + ucast b) \<le> m + n"
  using assms unat_add_small [of t "ucast b"] by (simp add: unat_up)

lemma carry_out:
  fixes t :: u64
  assumes "unat t \<le> n" "n < 2 ^ 58"
  shows "unat (ucast (drop_bit 26 t) :: u32) = unat t div 2 ^ 26 \<and> unat (ucast (drop_bit 26 t) :: u32) \<le> n div 2 ^ 26"
proof -
  have "unat t div 2 ^ 26 \<le> n div 2 ^ 26" using assms(1) by (rule div_le_mono)
  moreover have "n div 2 ^ 26 < 2 ^ 32" using assms(2) by (simp add: less_mult_imp_div_less)
  ultimately show ?thesis by (simp only: limb_simps mod_less)
qed

lemma low_limb: "unat (ucast t AND 0x3ffffff :: u32) = unat t mod 2 ^ 26" for t :: u64
  by (simp only: limb_simps mod_32_26)


lemma poly1305_mul_num:
  assumes "sum_ok h" "mult_ok r"
  shows "num (poly1305_mul r h) mod P1305 = num h * num r mod P1305" "acc_ok (poly1305_mul r h)"
proof -
  obtain h0 h1 h2 h3 h4 where h: "h = (h0, h1, h2, h3, h4)" by (cases h)
  obtain r0 r1 r2 r3 r4 where r: "r = (r0, r1, r2, r3, r4)" by (cases r)
  note sums = poly1305_sums [OF assms [unfolded h r]]
  define t0 where "t0 = mul32x32_64 h0 r0 + mul32x32_64 h1 (r4 * 5) + mul32x32_64 h2 (r3 * 5) + mul32x32_64 h3 (r2 * 5) + mul32x32_64 h4 (r1 * 5)"
  define t1 where "t1 = mul32x32_64 h0 r1 + mul32x32_64 h1 r0 + mul32x32_64 h2 (r4 * 5) + mul32x32_64 h3 (r3 * 5) + mul32x32_64 h4 (r2 * 5)"
  define t2 where "t2 = mul32x32_64 h0 r2 + mul32x32_64 h1 r1 + mul32x32_64 h2 r0 + mul32x32_64 h3 (r4 * 5) + mul32x32_64 h4 (r3 * 5)"
  define t3 where "t3 = mul32x32_64 h0 r3 + mul32x32_64 h1 r2 + mul32x32_64 h2 r1 + mul32x32_64 h3 r0 + mul32x32_64 h4 (r4 * 5)"
  define t4 where "t4 = mul32x32_64 h0 r4 + mul32x32_64 h1 r3 + mul32x32_64 h2 r2 + mul32x32_64 h3 r1 + mul32x32_64 h4 r0"
  note t = sums [folded t0_def t1_def t2_def t3_def t4_def]
  define u1 b1 where u1: "u1 = t1 + drop_bit 26 t0" "b1 = (ucast (drop_bit 26 u1) :: u32)"
  define u2 b2 where u2: "u2 = t2 + ucast b1" "b2 = (ucast (drop_bit 26 u2) :: u32)"
  define u3 b3 where u3: "u3 = t3 + ucast b2" "b3 = (ucast (drop_bit 26 u3) :: u32)"
  define u4 b4 where u4: "u4 = t4 + ucast b3" "b4 = (ucast (drop_bit 26 u4) :: u32)"
  have res: "poly1305_mul r h = ((ucast t0 AND 0x3ffffff) + b4 * 5, ucast u1 AND 0x3ffffff, ucast u2 AND 0x3ffffff,
      ucast u3 AND 0x3ffffff, ucast u4 AND 0x3ffffff)"
    by (simp only: poly1305_mul_def h r prod.case Let_def t0_def t1_def t2_def t3_def t4_def u1 u2 u3 u4)
  have c0: "unat t0 div 2 ^ 26 \<le> 4722603182" using t(1) by (simp add: div_le_mono [of _ "316928534708931969" "2 ^ 26", simplified])
  have v1: "unat u1 = unat t1 + unat t0 div 2 ^ 26"
    unfolding u1(1) using t(2) c0 by (subst unat_add_small) (simp_all add: limb_simps)
  have b1: "unat b1 = unat u1 div 2 ^ 26 \<and> unat b1 \<le> 4185763763"
    unfolding u1(2) using carry_out [of u1 280901851120026443] v1 t(2) c0 by simp
  note v2 = carry_in [of t2 _ b1, OF conjunct2 [OF t(3)] conjunct2 [OF b1], folded u2]
  have b2: "unat b2 = unat u2 div 2 ^ 26 \<and> unat b2 \<le> 3650913155" unfolding u2(2) using carry_out [OF conjunct2 [OF v2]] by simp
  note v3 = carry_in [of t3 _ b2, OF conjunct2 [OF t(4)] conjunct2 [OF b2], folded u3]
  have b3: "unat b3 = unat u3 div 2 ^ 26 \<and> unat b3 \<le> 3243341192" unfolding u3(2) using carry_out [OF conjunct2 [OF v3]] by simp
  note v4 = carry_in [of t4 _ b3, OF conjunct2 [OF t(5)] conjunct2 [OF b3], folded u4]
  have b4: "unat b4 = unat u4 div 2 ^ 26 \<and> unat b4 \<le> 546174151" unfolding u4(2) using carry_out [OF conjunct2 [OF v4]] by simp
  have f: "unat (b4 * 5) = unat b4 * 5" using b4 by (simp add: unat_word_ariths)
  have h0: "unat ((ucast t0 AND 0x3ffffff) + b4 * 5) = unat t0 mod 2 ^ 26 + unat b4 * 5"
    using b4 mod_26_le [of "unat t0"] unat_add_small [of "ucast t0 AND 0x3ffffff :: u32" "b4 * 5"] by (simp add: low_limb f)
  show "acc_ok (poly1305_mul r h)"
    unfolding res using b4 mod_26_le [of "unat t0"] by (simp add: h0 low_limb)
  have v: "unat u2 = unat t2 + unat u1 div 2 ^ 26" "unat u3 = unat t3 + unat u2 div 2 ^ 26" "unat u4 = unat t4 + unat u3 div 2 ^ 26"
    using v2 v3 v4 b1 b2 b3 by simp_all
  have "num (poly1305_mul r h) + P1305 * (unat u4 div 2 ^ 26) =
      unat t0 + 2 ^ 26 * unat t1 + 2 ^ 52 * unat t2 + 2 ^ 78 * unat t3 + 2 ^ 104 * unat t4"
    unfolding res num.simps h0 low_limb limb_carry [of "unat t0"] v1 [symmetric] v [symmetric] conjunct1 [OF b4] ..
  moreover obtain K where "num h * num r =
      unat t0 + 2 ^ 26 * unat t1 + 2 ^ 52 * unat t2 + 2 ^ 78 * unat t3 + 2 ^ 104 * unat t4 + P1305 * K"
    unfolding h r num.simps limb_product conjunct1 [OF t(1)] conjunct1 [OF t(2)] conjunct1 [OF t(3)] conjunct1 [OF t(4)] conjunct1 [OF t(5)] by blast
  ultimately have "num h * num r = num (poly1305_mul r h) + P1305 * (unat u4 div 2 ^ 26 + K)" by (simp only: add_mult_distrib2 add.assoc)
  then show "num (poly1305_mul r h) mod P1305 = num h * num r mod P1305" by simp
qed

section \<open>Clamping\<close>

lemma and_split:
  fixes a b c d :: nat
  assumes "a < 2 ^ k" "c < 2 ^ k"
  shows "(a + 2 ^ k * b) AND (c + 2 ^ k * d) = (a AND c) + 2 ^ k * (b AND d)"
proof -
  have td: "take_bit k (x + 2 ^ k * y) = x" "drop_bit k (x + 2 ^ k * y) = y" if "x < 2 ^ k" for x y :: nat
    using that by (simp_all add: take_bit_eq_mod drop_bit_eq_div)
  have "(a + 2 ^ k * b) AND (c + 2 ^ k * d) =
      push_bit k (drop_bit k ((a + 2 ^ k * b) AND (c + 2 ^ k * d))) + take_bit k ((a + 2 ^ k * b) AND (c + 2 ^ k * d))"
    by (simp only: bits_ident)
  also have "\<dots> = push_bit k (b AND d) + (a AND c)"
    by (simp only: drop_bit_and take_bit_and td [OF assms(1)] td [OF assms(2)])
  finally show ?thesis by (simp add: push_bit_eq_mult mult.commute)
qed

lemma and_low: "c < 2 ^ k \<Longrightarrow> x AND c = x mod 2 ^ k AND c" for x c :: nat
  using and_split [of "x mod 2 ^ k" k c "x div 2 ^ k" 0] by (simp add: mult.commute)

lemma shifted_limb:
  fixes t0 t1 :: u32
  assumes "n < 32" "6 \<le> n" "c < 2 ^ 26"
  shows "unat ((drop_bit n t0 OR push_bit (32 - n) t1) AND of_nat c) = (unat t0 + unat t1 * 2 ^ 32) div 2 ^ n mod 2 ^ 26 AND c"
proof -
  have lt: "unat (drop_bit n t0) < 2 ^ (32 - n)"
    using unsigned_less [of t0, where 'a = nat] assms(1) by (simp add: limb_simps less_mult_imp_div_less power_add [symmetric])
  have c: "unat (of_nat c :: u32) = c" using assms(3) by (simp add: unsigned_of_nat take_bit_nat_eq_self)
  have d: "(unat t0 + unat t1 * 2 ^ 32) div 2 ^ n = unat t0 div 2 ^ n + unat t1 * 2 ^ (32 - n)"
  proof -
    have "(2 :: nat) ^ 32 = 2 ^ (32 - n) * 2 ^ n" using assms(1) by (simp add: power_add [symmetric])
    then have "unat t0 + unat t1 * 2 ^ 32 = unat t0 + unat t1 * 2 ^ (32 - n) * 2 ^ n" by (simp only: mult.assoc)
    then show ?thesis by (simp only: div_mult_self1 power_not_zero) simp
  qed
  have "unat ((drop_bit n t0 OR push_bit (32 - n) t1) AND of_nat c) = (unat t0 div 2 ^ n + unat t1 * 2 ^ (32 - n) mod 2 ^ 32) AND c"
    using unat_or_shift [OF lt, of t1] assms(1,2) by (simp add: unsigned_and_eq c limb_simps)
  also have "\<dots> = (unat t0 div 2 ^ n + unat t1 * 2 ^ (32 - n) mod 2 ^ 32) mod 2 ^ 26 AND c" by (rule and_low [OF assms(3)])
  also have "(unat t0 div 2 ^ n + unat t1 * 2 ^ (32 - n) mod 2 ^ 32) mod 2 ^ 26 = (unat t0 div 2 ^ n + unat t1 * 2 ^ (32 - n)) mod 2 ^ 26"
    by (metis mod_32_26 mod_add_right_eq)
  finally show ?thesis by (simp only: d)
qed

lemma and_le: "x AND y \<le> y" for x y :: nat
proof -
  have "int (x AND y) \<le> int y" unfolding of_nat_and_eq by (rule AND_upper2) simp
  then show ?thesis by simp
qed

lemma poly1305_clamp_num:
  assumes "16 \<le> length key"
  shows "num (poly1305_clamp key) = le_num (take 16 key) AND 0x0ffffffc0ffffffc0ffffffc0fffffff" "mult_ok (poly1305_clamp key)"
proof -
  let ?m = "take 16 key"
  define t0 t1 t2 t3 where t: "t0 = U8TO32_LE key 0" "t1 = U8TO32_LE key 4" "t2 = U8TO32_LE key 8" "t3 = U8TO32_LE key 12"
  define l0 l1 l2 l3 l4 where l: "l0 = unat t0 mod 2 ^ 26" "l1 = (unat t0 + unat t1 * 2 ^ 32) div 2 ^ 26 mod 2 ^ 26"
    "l2 = (unat t1 + unat t2 * 2 ^ 32) div 2 ^ 20 mod 2 ^ 26" "l3 = (unat t2 + unat t3 * 2 ^ 32) div 2 ^ 14 mod 2 ^ 26"
    "l4 = unat t3 div 2 ^ 8"
  obtain r0 r1 r2 r3 r4 where r: "poly1305_clamp key = (r0, r1, r2, r3, r4)" by (cases "poly1305_clamp key")
  have v: "unat r0 = l0 AND 0x3ffffff" "unat r1 = l1 AND 0x3ffff03" "unat r2 = l2 AND 0x3ffc0ff" "unat r3 = l3 AND 0x3f03fff"
    "unat r4 = l4 AND 0xfffff"
    using r shifted_limb [where n = 26 and c = "0x3ffff03", of t0 t1] shifted_limb [where n = 20 and c = "0x3ffc0ff", of t1 t2]
      shifted_limb [where n = 14 and c = "0x3f03fff", of t2 t3] and_low [where c = "0x3ffffff" and k = 26, of "unat t0"]
    by (auto simp: poly1305_clamp_def Let_def t [symmetric] l unsigned_and_eq limb_simps)
  show "mult_ok (poly1305_clamp key)" unfolding r by (simp add: v and_le)
  have w: "unat (U8TO32_LE ?m i) = unat (U8TO32_LE key i)" if "i + 4 \<le> 16" for i
    using that assms by (simp add: U8TO32_LE_def)
  have "le_num ?m = l0 + 2 ^ 26 * l1 + 2 ^ 52 * l2 + 2 ^ 78 * l3 + 2 ^ 104 * l4"
    unfolding l limbs_of_words using le_num_words [of ?m] assms by (simp add: w t)
  also have "\<dots> = l0 + 2 ^ 26 * (l1 + 2 ^ 26 * (l2 + 2 ^ 26 * (l3 + 2 ^ 26 * l4)))" by simp
  finally have X: "le_num ?m = \<dots>" .
  have M: "0x0ffffffc0ffffffc0ffffffc0fffffff = (0x3ffffff + 2 ^ 26 * (0x3ffff03 + 2 ^ 26 * (0x3ffc0ff + 2 ^ 26 * (0x3f03fff + 2 ^ 26 * 0xfffff))) :: nat)"
    by simp
  have lt: "l0 < 2 ^ 26" "l1 < 2 ^ 26" "l2 < 2 ^ 26" "l3 < 2 ^ 26" by (simp_all add: l)
  have mk: "(0x3ffffff :: nat) < 2 ^ 26" "(0x3ffff03 :: nat) < 2 ^ 26" "(0x3ffc0ff :: nat) < 2 ^ 26" "(0x3f03fff :: nat) < 2 ^ 26" by simp_all
  have "le_num ?m AND 0x0ffffffc0ffffffc0ffffffc0fffffff =
      (l0 AND 0x3ffffff) + 2 ^ 26 * ((l1 AND 0x3ffff03) + 2 ^ 26 * ((l2 AND 0x3ffc0ff) + 2 ^ 26 * ((l3 AND 0x3f03fff) + 2 ^ 26 * (l4 AND 0xfffff))))"
    unfolding X M by (simp only: and_split [OF lt(1) mk(1)] and_split [OF lt(2) mk(2)] and_split [OF lt(3) mk(3)] and_split [OF lt(4) mk(4)])
  then show "num (poly1305_clamp key) = le_num ?m AND 0x0ffffffc0ffffffc0ffffffc0fffffff" unfolding r num.simps v by simp
qed

section \<open>All blocks\<close>

lemma poly1305_add_take: "16 \<le> length m \<Longrightarrow> poly1305_add m hibit h = poly1305_add (take 16 m) hibit h"
  by (simp add: poly1305_add_def U8TO32_LE_def)

lemma le_num_zeros [simp]: "le_num (replicate n 0) = 0"
  by (induction n) auto

lemma poly1305_step:
  assumes "length m = 16" "acc_ok h" "mult_ok r" "hibit = push_bit 24 1 \<and> c = 2 ^ 128 \<or> hibit = 0 \<and> c = 0"
  shows "num (poly1305_mul r (poly1305_add m hibit h)) mod P1305 = (num h mod P1305 + (le_num m + c)) * num r mod P1305"
    "acc_ok (poly1305_mul r (poly1305_add m hibit h))"
proof -
  have "(num h + (le_num m + c)) * num r mod P1305 = (num h mod P1305 + (le_num m + c)) * num r mod P1305"
    by (metis mod_add_left_eq mod_mult_left_eq)
  then show "num (poly1305_mul r (poly1305_add m hibit h)) mod P1305 = (num h mod P1305 + (le_num m + c)) * num r mod P1305"
    "acc_ok (poly1305_mul r (poly1305_add m hibit h))"
    using poly1305_mul_num [OF poly1305_add_num(2) [OF assms(1,2,4)] assms(3)] poly1305_add_num(1) [OF assms(1,2,4)]
    by (simp_all add: add.assoc)
qed

lemma poly1305_blocks_num:
  "acc_ok h \<Longrightarrow> mult_ok r \<Longrightarrow>
     acc_ok (poly1305_blocks r m h) \<and> num (poly1305_blocks r m h) mod P1305 = poly_eval (num r) (num h mod P1305) m"
proof (induction r m h rule: poly1305_blocks.induct)
  case (1 r m h)
  note IH = 1(1) and prems = 1(2,3)
  consider "16 \<le> length m" | "m = []" | "0 < length m" "length m < 16" by (metis length_greater_0_conv not_le)
  then show ?case
  proof cases
    case 1
    let ?h = "poly1305_mul r (poly1305_add m (push_bit 24 1) h)"
    have s: "num ?h mod P1305 = (num h mod P1305 + (le_num (take 16 m) + 2 ^ 128)) * num r mod P1305" "acc_ok ?h"
      using poly1305_step [of "take 16 m" h r "push_bit 24 1" "2 ^ 128"] prems 1 poly1305_add_take [OF 1] by simp_all
    have "m \<noteq> []" using 1 by auto
    with IH [OF 1 s(2) prems(2)] s(1) 1 show ?thesis
      by (simp add: poly1305_blocks.simps [of r m h] poly_eval.simps [of _ _ m] le_num_append)
  next
    case 2
    with prems show ?thesis by (simp add: poly1305_blocks.simps poly_eval.simps)
  next
    case 3
    let ?p = "m @ [1] @ replicate (15 - length m) 0"
    have "length ?p = 16" using 3 by simp
    moreover have "le_num ?p = le_num (take 16 m @ [1])" using 3 by (simp add: le_num_append)
    ultimately show ?thesis
      using 3 poly1305_step [of ?p h r 0 0] prems
      by (simp add: poly1305_blocks.simps [of r m h] poly_eval.simps [of _ _ m] poly_eval.simps [of _ _ "[]"])
  qed
qed

section \<open>The last reduction\<close>

lemma div_26_1: "x < 2 ^ 27 \<Longrightarrow> x div 2 ^ 26 \<le> 1" for x :: nat
  by (simp add: less_mult_imp_div_less less_Suc_eq_le [symmetric])

text \<open>The carries of the reduction, as numbers: the limbs come out below \<open>2\<^sup>2\<^sup>6\<close>.\<close>

lemma reduce_carries:
  fixes h0 h1 h2 h3 h4 :: nat
  assumes h: "h0 < 2 ^ 32" "h1 < 2 ^ 26" "h2 < 2 ^ 26" "h3 < 2 ^ 26" "h4 < 2 ^ 26"
    and u: "u1 = h1 + h0 div 2 ^ 26" "u2 = h2 + u1 div 2 ^ 26" "u3 = h3 + u2 div 2 ^ 26" "u4 = h4 + u3 div 2 ^ 26"
    and v: "v = h0 mod 2 ^ 26 + u4 div 2 ^ 26 * 5"
  shows "u1 < 2 ^ 27" "u2 \<le> 2 ^ 26" "u3 \<le> 2 ^ 26" "u4 \<le> 2 ^ 26" "v < 2 ^ 27" "u1 mod 2 ^ 26 + v div 2 ^ 26 < 2 ^ 26"
    "h0 + 2 ^ 26 * h1 + 2 ^ 52 * h2 + 2 ^ 78 * h3 + 2 ^ 104 * h4 =
      v mod 2 ^ 26 + 2 ^ 26 * (u1 mod 2 ^ 26 + v div 2 ^ 26) + 2 ^ 52 * (u2 mod 2 ^ 26) + 2 ^ 78 * (u3 mod 2 ^ 26) + 2 ^ 104 * (u4 mod 2 ^ 26) +
      P1305 * (u4 div 2 ^ 26)"
proof -
  show u1: "u1 < 2 ^ 27" using h(1,2) less_mult_imp_div_less [of h0 64 "2 ^ 26"] unfolding u by simp
  then show u2: "u2 \<le> 2 ^ 26" using h(3) div_26_1 [of u1] unfolding u(2) by simp
  then show u3: "u3 \<le> 2 ^ 26" using h(4) div_26_1 [of u2] unfolding u(3) by simp
  then show u4: "u4 \<le> 2 ^ 26" using h(5) div_26_1 [of u3] unfolding u(4) by simp
  then have q: "u4 div 2 ^ 26 \<le> 1" using div_26_1 [of u4] by simp
  then show v1: "v < 2 ^ 27" unfolding v using mod_26_le [of h0] by simp
  have eq: "h0 + 2 ^ 26 * h1 + 2 ^ 52 * h2 + 2 ^ 78 * h3 + 2 ^ 104 * h4 =
      v + 2 ^ 26 * (u1 mod 2 ^ 26) + 2 ^ 52 * (u2 mod 2 ^ 26) + 2 ^ 78 * (u3 mod 2 ^ 26) + 2 ^ 104 * (u4 mod 2 ^ 26) + P1305 * (u4 div 2 ^ 26)"
    unfolding v u(2-4) unfolding u(1) by (rule limb_carry)
  then show "h0 + 2 ^ 26 * h1 + 2 ^ 52 * h2 + 2 ^ 78 * h3 + 2 ^ 104 * h4 =
      v mod 2 ^ 26 + 2 ^ 26 * (u1 mod 2 ^ 26 + v div 2 ^ 26) + 2 ^ 52 * (u2 mod 2 ^ 26) + 2 ^ 78 * (u3 mod 2 ^ 26) + 2 ^ 104 * (u4 mod 2 ^ 26) +
      P1305 * (u4 div 2 ^ 26)"
    using carry_step [of v "2 ^ 26" "u1 mod 2 ^ 26"] by (simp only: add.assoc)
  show "u1 mod 2 ^ 26 + v div 2 ^ 26 < 2 ^ 26"
  proof (cases "u4 div 2 ^ 26 = 0")
    case True
    then have "v div 2 ^ 26 = 0" unfolding v by simp
    then show ?thesis by simp
  next
    case False
    with q have one: "u4 div 2 ^ 26 = 1" by simp
    have "2 ^ 26 * (u1 mod 2 ^ 26) \<le> h0 + 2 ^ 26 * h1 + 2 ^ 52 * h2 + 2 ^ 78 * h3 + 2 ^ 104 * h4 - P1305"
      unfolding eq one by simp
    also have "\<dots> < 2 ^ 33" using h by (simp add: P1305_def)
    finally have "u1 mod 2 ^ 26 < 2 ^ 7" by simp
    with div_26_1 [OF v1] show ?thesis by simp
  qed
qed

fun limbs_ok :: "limbs \<Rightarrow> bool" where
  "limbs_ok (h0, h1, h2, h3, h4) \<longleftrightarrow> unat h0 < 2 ^ 26 \<and> unat h1 < 2 ^ 26 \<and> unat h2 < 2 ^ 26 \<and> unat h3 < 2 ^ 26 \<and> unat h4 < 2 ^ 26"

lemma word_div_26: "unat u div 2 ^ 26 < 64" for u :: u32
  using unsigned_less [of u, where 'a = nat] by (simp add: less_mult_imp_div_less)

lemma add_carry: "unat h < 2 ^ 26 \<Longrightarrow> unat (h + drop_bit 26 u) = unat h + unat u div 2 ^ 26" for h u :: u32
  using word_div_26 [of u] by (subst unat_add_small) (simp_all add: limb_simps)

lemma poly1305_reduce_num:
  assumes "acc_ok h"
  shows "limbs_ok (poly1305_reduce h)" "num (poly1305_reduce h) mod P1305 = num h mod P1305"
proof -
  obtain h0 h1 h2 h3 h4 where h: "h = (h0, h1, h2, h3, h4)" by (cases h)
  define u1 where "u1 = h1 + drop_bit 26 h0"
  define u2 where "u2 = h2 + drop_bit 26 u1"
  define u3 where "u3 = h3 + drop_bit 26 u2"
  define u4 where "u4 = h4 + drop_bit 26 u3"
  define v where "v = (h0 AND 0x3ffffff) + drop_bit 26 u4 * 5"
  have res: "poly1305_reduce h = (v AND 0x3ffffff, (u1 AND 0x3ffffff) + drop_bit 26 v, u2 AND 0x3ffffff, u3 AND 0x3ffffff, u4 AND 0x3ffffff)"
    by (simp only: poly1305_reduce_def h prod.case Let_def u1_def u2_def u3_def u4_def v_def)
  have lt: "unat h0 < 2 ^ 32" "unat h1 < 2 ^ 26" "unat h2 < 2 ^ 26" "unat h3 < 2 ^ 26" "unat h4 < 2 ^ 26"
    using assms by (simp_all add: h)
  have u: "unat u1 = unat h1 + unat h0 div 2 ^ 26" "unat u2 = unat h2 + unat u1 div 2 ^ 26" "unat u3 = unat h3 + unat u2 div 2 ^ 26"
    "unat u4 = unat h4 + unat u3 div 2 ^ 26"
    unfolding u1_def u2_def u3_def u4_def using lt by (simp_all add: add_carry)
  have v: "unat v = unat h0 mod 2 ^ 26 + unat u4 div 2 ^ 26 * 5"
    unfolding v_def using mod_26_le [of "unat h0"] word_div_26 [of u4]
    by (subst unat_add_small) (simp_all add: limb_simps unat_word_ariths)
  note rc = reduce_carries [OF lt u v]
  have c1: "unat ((u1 AND 0x3ffffff) + drop_bit 26 v) = unat u1 mod 2 ^ 26 + unat v div 2 ^ 26"
    by (subst add_carry) (simp_all add: limb_simps)
  show "limbs_ok (poly1305_reduce h)" unfolding res using rc(6) by (simp add: c1 limb_simps)
  have "num h = num (poly1305_reduce h) + P1305 * (unat u4 div 2 ^ 26)"
    unfolding res unfolding h num.simps c1 by (simp only: limb_simps rc(7))
  then show "num (poly1305_reduce h) mod P1305 = num h mod P1305" by simp
qed

text \<open>Subtracting the modulus by adding five and looking at the carry.\<close>

lemma plus_five:
  fixes c0 c1 c2 c3 c4 :: nat
  assumes c: "c0 < 2 ^ 26" "c1 < 2 ^ 26" "c2 < 2 ^ 26" "c3 < 2 ^ 26" "c4 < 2 ^ 26"
    and w: "w0 = c0 + 5" "w1 = c1 + w0 div 2 ^ 26" "w2 = c2 + w1 div 2 ^ 26" "w3 = c3 + w2 div 2 ^ 26" "w4 = c4 + w3 div 2 ^ 26"
    and n: "n = c0 + 2 ^ 26 * c1 + 2 ^ 52 * c2 + 2 ^ 78 * c3 + 2 ^ 104 * c4"
  shows "w4 \<le> 2 ^ 26" "w4 = 2 ^ 26 \<Longrightarrow> n mod P1305 = w0 mod 2 ^ 26 + 2 ^ 26 * (w1 mod 2 ^ 26) + 2 ^ 52 * (w2 mod 2 ^ 26) + 2 ^ 78 * (w3 mod 2 ^ 26)"
    "w4 < 2 ^ 26 \<Longrightarrow> n mod P1305 = n"
proof -
  have "w0 < 2 ^ 27" using c(1) unfolding w by simp
  then have "w1 < 2 ^ 27" using c(2) div_26_1 [of w0] unfolding w(2) by simp
  then have "w2 < 2 ^ 27" using c(3) div_26_1 [of w1] unfolding w(3) by simp
  then have "w3 < 2 ^ 27" using c(4) div_26_1 [of w2] unfolding w(4) by simp
  then show w4: "w4 \<le> 2 ^ 26" using c(5) div_26_1 [of w3] unfolding w(5) by simp
  have "w0 + 2 ^ 26 * c1 = w0 mod 2 ^ 26 + 2 ^ 26 * w1" "w1 + 2 ^ 26 * c2 = w1 mod 2 ^ 26 + 2 ^ 26 * w2"
    "w2 + 2 ^ 26 * c3 = w2 mod 2 ^ 26 + 2 ^ 26 * w3" "w3 + 2 ^ 26 * c4 = w3 mod 2 ^ 26 + 2 ^ 26 * w4"
    unfolding w by (rule carry_step)+
  then have eq: "n + 5 = w0 mod 2 ^ 26 + 2 ^ 26 * (w1 mod 2 ^ 26) + 2 ^ 52 * (w2 mod 2 ^ 26) + 2 ^ 78 * (w3 mod 2 ^ 26) + 2 ^ 104 * w4"
    (is "_ = ?low + _") using n w(1) by simp
  have low: "?low < 2 ^ 104" using mod_26_le [of w0] mod_26_le [of w1] mod_26_le [of w2] mod_26_le [of w3] by simp
  show "n mod P1305 = ?low" if "w4 = 2 ^ 26"
  proof -
    have "n = ?low + P1305" using eq that by (simp add: P1305_def)
    moreover have "?low < P1305" using low by (simp add: P1305_def)
    ultimately show ?thesis by simp
  qed
  show "n mod P1305 = n" if "w4 < 2 ^ 26"
    using eq low that by (intro mod_less) (simp add: P1305_def)
qed

lemma poly1305_select_num:
  assumes "limbs_ok h"
  shows "limbs_ok (poly1305_select h)" "num (poly1305_select h) = num h mod P1305"
proof -
  obtain h0 h1 h2 h3 h4 where h: "h = (h0, h1, h2, h3, h4)" by (cases h)
  define w0 where "w0 = h0 + 5"
  define w1 where "w1 = h1 + drop_bit 26 w0"
  define w2 where "w2 = h2 + drop_bit 26 w1"
  define w3 where "w3 = h3 + drop_bit 26 w2"
  define w4 where "w4 = h4 + drop_bit 26 w3"
  define b where "b = drop_bit 31 (w4 - push_bit 26 1) - 1"
  have res: "poly1305_select h = ((h0 AND NOT b) OR (w0 AND 0x3ffffff AND b), (h1 AND NOT b) OR (w1 AND 0x3ffffff AND b),
      (h2 AND NOT b) OR (w2 AND 0x3ffffff AND b), (h3 AND NOT b) OR (w3 AND 0x3ffffff AND b), (h4 AND NOT b) OR ((w4 - push_bit 26 1) AND b))"
    by (simp only: poly1305_select_def h prod.case Let_def w0_def w1_def w2_def w3_def w4_def b_def and.assoc)
  have lt: "unat h0 < 2 ^ 26" "unat h1 < 2 ^ 26" "unat h2 < 2 ^ 26" "unat h3 < 2 ^ 26" "unat h4 < 2 ^ 26"
    using assms by (simp_all add: h)
  have w: "unat w0 = unat h0 + 5" "unat w1 = unat h1 + unat w0 div 2 ^ 26" "unat w2 = unat h2 + unat w1 div 2 ^ 26"
    "unat w3 = unat h3 + unat w2 div 2 ^ 26" "unat w4 = unat h4 + unat w3 div 2 ^ 26"
    using lt add_carry unat_add_small [of h0 5] by (simp_all add: w0_def w1_def w2_def w3_def w4_def)
  note five = plus_five [OF lt w, OF refl]
  have "limbs_ok (poly1305_select h) \<and> num (poly1305_select h) = num h mod P1305"
  proof (cases "unat w4 = 2 ^ 26")
    case True
    then have "w4 = push_bit 26 1" by (simp add: word_eq_iff_unsigned [where 'a = nat])
    then have "b = - 1" "w4 - push_bit 26 1 = 0" by (simp_all add: b_def)
    then have "poly1305_select h = (w0 AND 0x3ffffff, w1 AND 0x3ffffff, w2 AND 0x3ffffff, w3 AND 0x3ffffff, 0)"
      unfolding res by simp
    then show ?thesis using five(2) [OF True] by (simp add: h limb_simps)
  next
    case False
    then have less: "unat w4 < 2 ^ 26" using five(1) by simp
    have "unat (w4 - push_bit 26 1) = 2 ^ 32 + unat w4 - 2 ^ 26"
      using less by (simp add: unat_sub_if_size word_size)
    then have "unat (drop_bit 31 (w4 - push_bit 26 1)) = 1" using less by (simp add: limb_simps)
    then have "b = 0" by (simp add: b_def word_eq_iff_unsigned [where 'a = nat, of _ 1])
    then have "poly1305_select h = h" unfolding res by (simp add: h)
    then show ?thesis using assms five(3) [OF less] by (simp add: h)
  qed
  then show "limbs_ok (poly1305_select h)" "num (poly1305_select h) = num h mod P1305" by simp_all
qed

section \<open>The tag\<close>

lemma le_bytes_append: "le_bytes (m + n) x = le_bytes m x @ le_bytes n (x div 256 ^ m)"
  by (induction m arbitrary: x) (simp_all add: div_mult2_eq)

lemma length_le_bytes [simp]: "length (le_bytes n x) = n"
  by (induction n arbitrary: x) simp_all

lemma le_bytes_add: "le_bytes n (x + 256 ^ n * y) = le_bytes n x"
proof (induction n arbitrary: x y)
  case (Suc n)
  have "of_nat (x + 256 * z) = (of_nat x :: byte)" for z
    unfolding word_of_nat_eq_iff by (simp add: take_bit_eq_mod)
  moreover have "(x + 256 * z) div 256 = x div 256 + z" for z by simp
  ultimately show ?case using Suc [of "x div 256" y] by (simp only: power_Suc mult.assoc le_bytes.simps)
qed simp

lemma le_bytes_step: "le_bytes (4 + n) (g + 2 ^ 32 * x) = le_bytes 4 g @ le_bytes n (x + g div 2 ^ 32)"
proof -
  have "(g + 2 ^ 32 * x) div 2 ^ 32 = x + g div 2 ^ 32" by simp
  then show ?thesis using le_bytes_append [of 4 n "g + 2 ^ 32 * x"] le_bytes_add [of 4 g x] by simp
qed

lemma U32TO8_LE_eq: "U32TO8_LE v = le_bytes 4 (unat v)"
proof -
  have "ucast (drop_bit n v) = (of_nat (unat v div 2 ^ n) :: byte)" for n
    by (metis limb_simps(3) of_nat_unat)
  from this [of 0] this [of 8] this [of 16] this [of 24]
  have v: "U32TO8_LE v = [of_nat (unat v), of_nat (unat v div 256), of_nat (unat v div 65536), of_nat (unat v div 16777216)]"
    by (simp add: U32TO8_LE_def)
  have "(4 :: nat) = Suc (Suc (Suc (Suc 0)))" by simp
  then show ?thesis unfolding v by (simp only: le_bytes.simps) (simp add: div_mult2_eq [symmetric])
qed

lemma shift_mod: "a \<le> 32 \<Longrightarrow> x * 2 ^ a mod 2 ^ 32 = 2 ^ a * (x mod 2 ^ (32 - a))" for x :: nat
proof -
  assume "a \<le> 32"
  then have "(2 :: nat) ^ 32 = 2 ^ a * 2 ^ (32 - a)" by (simp add: power_add [symmetric])
  then show ?thesis by (simp only: mult.commute [of x] mod_mult_mult1)
qed

lemma packed_word:
  fixes x y :: u32
  assumes "unat x < 2 ^ 26" "a < 32" "6 \<le> a" "a = 26 - k" "c = 32 - a"
  shows "unat (drop_bit k x OR push_bit a y) = unat x div 2 ^ k + 2 ^ a * (unat y mod 2 ^ c)"
proof -
  have "unat x div 2 ^ k < 2 ^ a"
    using assms by (intro less_mult_imp_div_less) (simp add: power_add [symmetric])
  then show ?thesis
    using unat_or_shift [of "drop_bit k x" a y] assms(2,5) shift_mod [of a "unat y"] by (simp add: limb_simps)
qed

lemma word_sum_32:
  fixes e k :: u32 and f :: u64
  shows "unat (ucast e + ucast k :: u64) = unat e + unat k" "unat (ucast e + ucast k + drop_bit 32 f) = unat e + unat k + unat f div 2 ^ 32"
proof -
  have "unat e < 2 ^ 32" "unat k < 2 ^ 32" "unat f div 2 ^ 32 < 2 ^ 32"
    using unsigned_less [of e, where 'a = nat] unsigned_less [of k, where 'a = nat] unsigned_less [of f, where 'a = nat]
    by (simp_all add: less_mult_imp_div_less)
  then show "unat (ucast e + ucast k :: u64) = unat e + unat k" "unat (ucast e + ucast k + drop_bit 32 f) = unat e + unat k + unat f div 2 ^ 32"
    using unat_add_small [of "ucast e :: u64" "ucast k"] unat_add_small [of "ucast e + ucast k" "drop_bit 32 f"]
    by (simp_all add: limb_simps)
qed

lemma pack_sum:
  fixes e0 e1 e2 e3 e4 :: nat
  shows "e0 + 2 ^ 26 * e1 + 2 ^ 52 * e2 + 2 ^ 78 * e3 + 2 ^ 104 * e4 =
    (e0 + 2 ^ 26 * (e1 mod 2 ^ 6)) + 2 ^ 32 * ((e1 div 2 ^ 6 + 2 ^ 20 * (e2 mod 2 ^ 12)) +
    2 ^ 32 * ((e2 div 2 ^ 12 + 2 ^ 14 * (e3 mod 2 ^ 18)) + 2 ^ 32 * ((e3 div 2 ^ 18 + 2 ^ 8 * (e4 mod 2 ^ 24)) + 2 ^ 32 * (e4 div 2 ^ 24))))"
proof -
  have "e1 = e1 mod 2 ^ 6 + 2 ^ 6 * (e1 div 2 ^ 6)" "e2 = e2 mod 2 ^ 12 + 2 ^ 12 * (e2 div 2 ^ 12)"
    "e3 = e3 mod 2 ^ 18 + 2 ^ 18 * (e3 div 2 ^ 18)" "e4 = e4 mod 2 ^ 24 + 2 ^ 24 * (e4 div 2 ^ 24)"
    by (simp_all only: mod_mult_div_eq)
  moreover have "e0 + 2 ^ 26 * (m1 + 2 ^ 6 * d1) + 2 ^ 52 * (m2 + 2 ^ 12 * d2) + 2 ^ 78 * (m3 + 2 ^ 18 * d3) + 2 ^ 104 * (m4 + 2 ^ 24 * d4) =
    (e0 + 2 ^ 26 * m1) + 2 ^ 32 * ((d1 + 2 ^ 20 * m2) + 2 ^ 32 * ((d2 + 2 ^ 14 * m3) + 2 ^ 32 * ((d3 + 2 ^ 8 * m4) + 2 ^ 32 * d4)))"
    for m1 m2 m3 m4 d1 d2 d3 d4 :: nat by simp
  ultimately show ?thesis by metis
qed

lemma le_bytes_chain:
  assumes "f0 = g0" "f1 = g1 + f0 div 2 ^ 32" "f2 = g2 + f1 div 2 ^ 32" "f3 = g3 + f2 div 2 ^ 32"
  shows "le_bytes (4 + (4 + (4 + (4 + 0)))) (g0 + 2 ^ 32 * (g1 + 2 ^ 32 * (g2 + 2 ^ 32 * (g3 + 2 ^ 32 * x)))) =
     le_bytes 4 f0 @ le_bytes 4 f1 @ le_bytes 4 f2 @ le_bytes 4 f3"
proof -
  have "g + 2 ^ 32 * y + z = g + z + 2 ^ 32 * (y :: nat)" for g y z by simp
  then show ?thesis by (simp only: le_bytes_step assms le_bytes.simps append_Nil2)
qed

lemma poly1305_tag_num:
  assumes "limbs_ok h" "length key = 32"
  shows "poly1305_tag h key = le_bytes 16 (num h + le_num (drop 16 key))"
proof -
  obtain h0 h1 h2 h3 h4 where h: "h = (h0, h1, h2, h3, h4)" by (cases h)
  have lt: "unat h0 < 2 ^ 26" "unat h1 < 2 ^ 26" "unat h2 < 2 ^ 26" "unat h3 < 2 ^ 26" "unat h4 < 2 ^ 26"
    using assms(1) by (simp_all add: h)
  define e0 e1 e2 e3 where e: "e0 = h0 OR push_bit 26 h1" "e1 = drop_bit 6 h1 OR push_bit 20 h2"
    "e2 = drop_bit 12 h2 OR push_bit 14 h3" "e3 = drop_bit 18 h3 OR push_bit 8 h4"
  define k0 k1 k2 k3 where k: "k0 = U8TO32_LE key 16" "k1 = U8TO32_LE key 20" "k2 = U8TO32_LE key 24" "k3 = U8TO32_LE key 28"
  have ev0: "unat e0 = unat h0 + 2 ^ 26 * (unat h1 mod 2 ^ 6)"
  proof -
    have "unat (drop_bit 0 h0 OR push_bit 26 h1) = unat h0 div 2 ^ 0 + 2 ^ 26 * (unat h1 mod 2 ^ 6)"
      by (rule packed_word [OF lt(1)]) simp_all
    then show ?thesis by (simp only: e drop_bit_0 id_apply power_0 div_by_1)
  qed
  have ev1: "unat e1 = unat h1 div 2 ^ 6 + 2 ^ 20 * (unat h2 mod 2 ^ 12)" unfolding e by (rule packed_word [OF lt(2)]) simp_all
  have ev2: "unat e2 = unat h2 div 2 ^ 12 + 2 ^ 14 * (unat h3 mod 2 ^ 18)" unfolding e by (rule packed_word [OF lt(3)]) simp_all
  have ev3: "unat e3 = unat h3 div 2 ^ 18 + 2 ^ 8 * (unat h4 mod 2 ^ 24)" unfolding e by (rule packed_word [OF lt(4)]) simp_all
  note ev = ev0 ev1 ev2 ev3
  have kn: "le_num (drop 16 key) = unat k0 + 2 ^ 32 * (unat k1 + 2 ^ 32 * (unat k2 + 2 ^ 32 * unat k3))"
  proof -
    have "U8TO32_LE (drop 16 key) i = U8TO32_LE key (16 + i)" if "i + 4 \<le> 16" for i
      using that assms(2) by (simp add: U8TO32_LE_def ac_simps)
    then show ?thesis using le_num_words [of "drop 16 key"] assms(2) by (simp add: k)
  qed
  define f0 where "f0 = ucast e0 + (ucast k0 :: u64)"
  define f1 where "f1 = ucast e1 + ucast k1 + drop_bit 32 f0"
  define f2 where "f2 = ucast e2 + ucast k2 + drop_bit 32 f1"
  define f3 where "f3 = ucast e3 + ucast k3 + drop_bit 32 f2"
  have res: "poly1305_tag h key = le_bytes 4 (unat f0) @ le_bytes 4 (unat f1) @ le_bytes 4 (unat f2) @ le_bytes 4 (unat f3)"
    by (simp only: poly1305_tag_def h prod.case Let_def f0_def f1_def f2_def f3_def e k U32TO8_LE_eq)
  have fv: "unat f0 = unat e0 + unat k0" "unat f1 = unat e1 + unat k1 + unat f0 div 2 ^ 32" "unat f2 = unat e2 + unat k2 + unat f1 div 2 ^ 32"
    "unat f3 = unat e3 + unat k3 + unat f2 div 2 ^ 32"
    unfolding f1_def f2_def f3_def by (simp only: f0_def word_sum_32(1)) (rule word_sum_32(2))+
  let ?f = "\<lambda>e k. unat e + unat (k :: u32)"
  have "num h + le_num (drop 16 key) =
      ?f e0 k0 + 2 ^ 32 * (?f e1 k1 + 2 ^ 32 * (?f e2 k2 + 2 ^ 32 * (?f e3 k3 + 2 ^ 32 * (unat h4 div 2 ^ 24))))"
    unfolding h num.simps pack_sum ev [symmetric] kn by simp
  then have "le_bytes 16 (num h + le_num (drop 16 key)) = le_bytes (4 + (4 + (4 + (4 + 0))))
      (?f e0 k0 + 2 ^ 32 * (?f e1 k1 + 2 ^ 32 * (?f e2 k2 + 2 ^ 32 * (?f e3 k3 + 2 ^ 32 * (unat h4 div 2 ^ 24)))))" by simp
  also have "\<dots> = le_bytes 4 (unat f0) @ le_bytes 4 (unat f1) @ le_bytes 4 (unat f2) @ le_bytes 4 (unat f3)"
    by (rule le_bytes_chain [OF fv])
  finally show ?thesis using res by simp
qed

lemma poly1305_finish_num:
  assumes "acc_ok h" "length key = 32"
  shows "poly1305_finish h key = le_bytes 16 (num h mod P1305 + le_num (drop 16 key))"
  using poly1305_reduce_num [OF assms(1)] poly1305_select_num [of "poly1305_reduce h"] poly1305_tag_num [of "poly1305_select (poly1305_reduce h)" key]
    assms(2) by (simp add: poly1305_finish_def)

text \<open>
  C11: The authenticator computes Poly1305: for every message and every key of 32 bytes the limb
  code, with its lazy carries in 32-bit words, gives the sixteen low bytes of the polynomial of the
  blocks at the clamped key modulo \<open>2\<^sup>1\<^sup>3\<^sup>0 - 5\<close>, plus the second half of the key.
\<close>

theorem poly1305_auth_correct:
  assumes "length key = 32"
  shows "poly1305_auth m key = poly1305_mac m key"
  using assms poly1305_blocks_num [of "(0, 0, 0, 0, 0)" "poly1305_clamp key" m] poly1305_clamp_num [of key]
  by (simp add: poly1305_auth_def poly1305_mac_def poly1305_finish_num)

text \<open>The test vector of RFC 8439, section 2.5.2.\<close>

definition rfc8439_key :: "byte list" where
  "rfc8439_key =
     [0x85, 0xd6, 0xbe, 0x78, 0x57, 0x55, 0x6d, 0x33, 0x7f, 0x44, 0x52, 0xfe, 0x42, 0xd5, 0x06, 0xa8,
     0x01, 0x03, 0x80, 0x8a, 0xfb, 0x0d, 0xb2, 0xfd, 0x4a, 0xbf, 0xf6, 0xaf, 0x41, 0x49, 0xf5, 0x1b]"

definition rfc8439_msg :: "byte list" where
  "rfc8439_msg =
     [0x43, 0x72, 0x79, 0x70, 0x74, 0x6f, 0x67, 0x72, 0x61, 0x70, 0x68, 0x69, 0x63, 0x20, 0x46, 0x6f,
     0x72, 0x75, 0x6d, 0x20, 0x52, 0x65, 0x73, 0x65, 0x61, 0x72, 0x63, 0x68, 0x20, 0x47, 0x72, 0x6f,
     0x75, 0x70]"

lemma le_bytes_numeral: "le_bytes (numeral k) n = of_nat n # le_bytes (pred_numeral k) (n div 256)"
  by (simp only: numeral_eq_Suc [of k] le_bytes.simps)

theorem poly1305_auth_correct_witness:
  "length rfc8439_key = 32 \<and>
   poly1305_auth rfc8439_msg rfc8439_key =
     [0xa8, 0x06, 0x1d, 0xc1, 0x30, 0x51, 0x36, 0xc6, 0xc2, 0x2b, 0x8b, 0xaf, 0x0c, 0x01, 0x27, 0xa9]"
proof -
  have "poly1305_mac rfc8439_msg rfc8439_key =
     [0xa8, 0x06, 0x1d, 0xc1, 0x30, 0x51, 0x36, 0xc6, 0xc2, 0x2b, 0x8b, 0xaf, 0x0c, 0x01, 0x27, 0xa9]"
    by (simp add: poly1305_mac_def rfc8439_key_def rfc8439_msg_def poly_eval.simps P1305_def le_bytes_numeral)
  then show ?thesis using poly1305_auth_correct [of rfc8439_key rfc8439_msg] by (simp add: rfc8439_key_def)
qed

end
