(* ===== verification/Chachapoly.thy ===== *)
theory Chachapoly
  imports Chacha Poly1305
begin

text \<open>
  The authenticated cipher \<^verbatim>\<open>chacha20-poly1305@openssh.com\<close>: the version on the cipher of the
  repository (\<^verbatim>\<open>cipher-chachapoly.c\<close>) and the version on the library's cipher
  (\<^verbatim>\<open>cipher-chachapoly-libcrypto.c\<close>), of which a build has one. The library is a parameter of the second;
  the locale \<open>chacha_provider\<close> is what it must do, and under it both versions behave alike.
\<close>

section \<open>The comparison of tags\<close>

text \<open>\<open>n\<close> bytes of each argument are read; the loop never stops early.\<close>

fun timingsafe_loop :: "byte \<Rightarrow> byte list \<Rightarrow> byte list \<Rightarrow> nat \<Rightarrow> byte" where
  "timingsafe_loop ret p1 p2 0 = ret"
| "timingsafe_loop ret p1 p2 (Suc n) = timingsafe_loop (ret OR (hd p1 XOR hd p2)) (tl p1) (tl p2) n"

definition timingsafe_bcmp :: "byte list \<Rightarrow> byte list \<Rightarrow> nat \<Rightarrow> bool" where
  "timingsafe_bcmp b1 b2 n \<longleftrightarrow> timingsafe_loop 0 b1 b2 n \<noteq> 0"

lemma byte_xor_eq_0: "(a :: byte) XOR b = 0 \<longleftrightarrow> a = b"
  by (auto simp: bit_eq_iff bit_simps)

lemma timingsafe_loop_zero:
  "n \<le> length p1 \<Longrightarrow> n \<le> length p2 \<Longrightarrow> timingsafe_loop ret p1 p2 n = 0 \<longleftrightarrow> ret = 0 \<and> take n p1 = take n p2"
proof (induction ret p1 p2 n rule: timingsafe_loop.induct)
  case (2 ret p1 p2 n)
  from 2 show ?case by (cases p1; cases p2) (auto simp: or_eq_0_iff byte_xor_eq_0)
qed simp

lemma timingsafe_bcmp_iff:
  "n \<le> length b1 \<Longrightarrow> n \<le> length b2 \<Longrightarrow> timingsafe_bcmp b1 b2 n \<longleftrightarrow> take n b1 \<noteq> take n b2"
  by (simp add: timingsafe_bcmp_def timingsafe_loop_zero)

section \<open>The version on chacha.c\<close>

definition POLY1305_TAGLEN :: nat where "POLY1305_TAGLEN = 16"
definition POLY1305_KEYLEN :: nat where "POLY1305_KEYLEN = 32"
definition SIZEOF_CHACHAPOLY_CTX :: size_t where "SIZEOF_CHACHAPOLY_CTX = 128"

record chachapoly_ctx =
  main_ctx :: chacha_ctx
  header_ctx :: chacha_ctx

definition chachapoly_new :: "allocator \<Rightarrow> byte list \<Rightarrow> u32 \<Rightarrow> chachapoly_ctx option" where
  "chachapoly_new am key keylen =
     (if keylen \<noteq> 32 + 32 then None
      else if am SIZEOF_CHACHAPOLY_CTX = NULL then None
      else Some \<lparr>main_ctx = chacha_keysetup (replicate 16 0) key 256,
                 header_ctx = chacha_keysetup (replicate 16 0) (drop 32 key) 256\<rparr>)"

text \<open>
  The bytes written to \<open>dest\<close> are the result. \<open>src\<close> holds the additional data, the text and, for
  decryption, the tag. \<open>tmp\<close> is what the stack array of the cipher holds.
\<close>

definition chachapoly_crypt ::
  "byte list \<Rightarrow> chachapoly_ctx \<Rightarrow> u32 \<Rightarrow> byte list \<Rightarrow> u32 \<Rightarrow> u32 \<Rightarrow> u32 \<Rightarrow> bool \<Rightarrow> byte list res \<times> chachapoly_ctx" where
  "chachapoly_crypt tmp ctx seqnr src len aadlen authlen do_encrypt =
     (let seqbuf = POKE_U64 (ucast seqnr);
          one = [1, 0, 0, 0, 0, 0, 0, 0];
          (m, poly_key) = chacha_encrypt_bytes tmp (chacha_ivsetup (main_ctx ctx) seqbuf None) (replicate POLY1305_KEYLEN 0);
          ctx = ctx\<lparr>main_ctx := m\<rparr>
      in if \<not> do_encrypt \<and>
            timingsafe_bcmp (poly1305_auth (take (unat (aadlen + len)) src) poly_key) (drop (unat aadlen + unat len) src)
              POLY1305_TAGLEN
         then (Inl SSH_ERR_MAC_INVALID, ctx)
         else let (h, aad) = (if aadlen \<noteq> 0
                              then chacha_encrypt_bytes tmp (chacha_ivsetup (header_ctx ctx) seqbuf None) (take (unat aadlen) src)
                              else (header_ctx ctx, []));
                  (m, text) = chacha_encrypt_bytes tmp (chacha_ivsetup (main_ctx ctx) seqbuf (Some one))
                                (take (unat len) (drop (unat aadlen) src));
                  dest = aad @ text
              in (Inr (if do_encrypt then dest @ poly1305_auth (take (unat (aadlen + len)) dest) poly_key else dest),
                  ctx\<lparr>main_ctx := m, header_ctx := h\<rparr>))"

definition chachapoly_get_length :: "byte list \<Rightarrow> chachapoly_ctx \<Rightarrow> u32 \<Rightarrow> byte list \<Rightarrow> u32 \<Rightarrow> u32 res \<times> chachapoly_ctx" where
  "chachapoly_get_length tmp ctx seqnr cp len =
     (if len < 4 then (Inl SSH_ERR_MESSAGE_INCOMPLETE, ctx)
      else let seqbuf = POKE_U64 (ucast seqnr);
               (h, buf) = chacha_encrypt_bytes tmp (chacha_ivsetup (header_ctx ctx) seqbuf None) (take 4 cp)
           in (Inr (PEEK_U32 buf), ctx\<lparr>header_ctx := h\<rparr>))"

section \<open>The version on the library's cipher\<close>

text \<open>
  \<open>init e iv\<close> is \<^verbatim>\<open>EVP_CipherInit\<close> with the 16 bytes of counter and nonce and \<open>crypt e m\<close> is
  \<^verbatim>\<open>EVP_Cipher\<close>. Both may fail and both change the library's context.
\<close>

type_synonym 'e evp_init = "'e \<Rightarrow> byte list \<Rightarrow> bool \<times> 'e"
type_synonym 'e evp_cipher = "'e \<Rightarrow> byte list \<Rightarrow> byte list option \<times> 'e"

record 'e evp_chachapoly_ctx =
  main_evp :: 'e
  header_evp :: 'e

definition evp_run :: "'e evp_init \<Rightarrow> 'e evp_cipher \<Rightarrow> 'e \<Rightarrow> byte list \<Rightarrow> byte list \<Rightarrow> byte list option \<times> 'e" where
  "evp_run init crypt e iv m = (let (ok, e1) = init e iv in if ok then crypt e1 m else (None, e1))"

definition evp_chachapoly_crypt :: "'e evp_init \<Rightarrow> 'e evp_cipher \<Rightarrow> 'e evp_chachapoly_ctx \<Rightarrow> u32 \<Rightarrow> byte list \<Rightarrow>
    u32 \<Rightarrow> u32 \<Rightarrow> u32 \<Rightarrow> bool \<Rightarrow> byte list res \<times> 'e evp_chachapoly_ctx" where
  "evp_chachapoly_crypt init crypt ctx seqnr src len aadlen authlen do_encrypt =
     (let seqbuf = replicate 8 0 @ POKE_U64 (ucast seqnr);
          (pk, m) = evp_run init crypt (main_evp ctx) seqbuf (replicate POLY1305_KEYLEN 0);
          ctx = ctx\<lparr>main_evp := m\<rparr>
      in case pk of
           None \<Rightarrow> (Inl SSH_ERR_LIBCRYPTO_ERROR, ctx)
         | Some poly_key \<Rightarrow>
             if \<not> do_encrypt \<and>
                timingsafe_bcmp (poly1305_auth (take (unat (aadlen + len)) src) poly_key) (drop (unat aadlen + unat len) src)
                  POLY1305_TAGLEN
             then (Inl SSH_ERR_MAC_INVALID, ctx)
             else let (oa, h) = (if aadlen \<noteq> 0 then evp_run init crypt (header_evp ctx) seqbuf (take (unat aadlen) src)
                                 else (Some [], header_evp ctx));
                      ctx = ctx\<lparr>header_evp := h\<rparr>
                  in case oa of
                       None \<Rightarrow> (Inl SSH_ERR_LIBCRYPTO_ERROR, ctx)
                     | Some aad \<Rightarrow>
                         let (ot, m) = evp_run init crypt (main_evp ctx) (seqbuf[0 := 1]) (take (unat len) (drop (unat aadlen) src));
                             ctx = ctx\<lparr>main_evp := m\<rparr>
                         in case ot of
                              None \<Rightarrow> (Inl SSH_ERR_LIBCRYPTO_ERROR, ctx)
                            | Some text \<Rightarrow>
                                let dest = aad @ text
                                in (Inr (if do_encrypt then dest @ poly1305_auth (take (unat (aadlen + len)) dest) poly_key
                                         else dest), ctx))"

definition evp_chachapoly_get_length :: "'e evp_init \<Rightarrow> 'e evp_cipher \<Rightarrow> 'e evp_chachapoly_ctx \<Rightarrow> u32 \<Rightarrow> byte list \<Rightarrow>
    u32 \<Rightarrow> u32 res \<times> 'e evp_chachapoly_ctx" where
  "evp_chachapoly_get_length init crypt ctx seqnr cp len =
     (if len < 4 then (Inl SSH_ERR_MESSAGE_INCOMPLETE, ctx)
      else let seqbuf = replicate 8 0 @ POKE_U64 (ucast seqnr);
               (ob, h) = evp_run init crypt (header_evp ctx) seqbuf (take 4 cp);
               ctx = ctx\<lparr>header_evp := h\<rparr>
           in case ob of
                None \<Rightarrow> (Inl SSH_ERR_LIBCRYPTO_ERROR, ctx)
              | Some buf \<Rightarrow> (Inr (PEEK_U32 buf), ctx))"

section \<open>The construction\<close>

text \<open>A context is keyed when its first twelve words are; the rest is set for every packet.\<close>

definition chacha_keyed :: "u32 list \<Rightarrow> chacha_ctx \<Rightarrow> bool" where
  "chacha_keyed k x \<longleftrightarrow> length x = 16 \<and> take 12 x = k"

text \<open>The state for a block number and a sequence number.\<close>

definition seq_state :: "u32 list \<Rightarrow> u32 \<Rightarrow> u64 \<Rightarrow> u32 list" where
  "seq_state k seqnr n =
     k @ [ucast n, ucast (drop_bit 32 n), U8TO32_LITTLE (POKE_U64 (ucast seqnr)) 0, U8TO32_LITTLE (POKE_U64 (ucast seqnr)) 4]"

definition onetime_key :: "u32 list \<Rightarrow> u32 \<Rightarrow> byte list" where
  "onetime_key k seqnr = xor_stream (seq_state k seqnr 0) (replicate 32 0)"

definition seal_body :: "u32 list \<Rightarrow> u32 list \<Rightarrow> u32 \<Rightarrow> byte list \<Rightarrow> byte list \<Rightarrow> byte list" where
  "seal_body k hk seqnr aad text = xor_stream (seq_state hk seqnr 0) aad @ xor_stream (seq_state k seqnr 1) text"

definition seal :: "u32 list \<Rightarrow> u32 list \<Rightarrow> u32 \<Rightarrow> byte list \<Rightarrow> byte list \<Rightarrow> byte list" where
  "seal k hk seqnr aad text =
     seal_body k hk seqnr aad text @ poly1305_mac (seal_body k hk seqnr aad text) (onetime_key k seqnr)"

lemma chacha_ivsetup_words:
  assumes "chacha_keyed k x"
  shows "chacha_ivsetup x iv c =
    k @ [case c of None \<Rightarrow> 0 | Some c \<Rightarrow> U8TO32_LITTLE c 0, case c of None \<Rightarrow> 0 | Some c \<Rightarrow> U8TO32_LITTLE c 4,
         U8TO32_LITTLE iv 0, U8TO32_LITTLE iv 4]"
proof -
  have x: "x = k @ drop 12 x" "length k = 12" "length (drop 12 x) = 4" using assms by (auto simp: chacha_keyed_def)
  obtain a b c d where d: "drop 12 x = [a, b, c, d]" using x(3) unfolding length_4_conv by (elim exE)
  show ?thesis unfolding chacha_ivsetup_def by (subst x(1), simp add: d x(2) list_update_append)
qed

lemma chacha_ivsetup_state:
  assumes "chacha_keyed k x"
  shows "chacha_ivsetup x (POKE_U64 (ucast seqnr)) None = seq_state k seqnr 0"
    "chacha_ivsetup x (POKE_U64 (ucast seqnr)) (Some [1, 0, 0, 0, 0, 0, 0, 0]) = seq_state k seqnr 1"
  using assms by (simp_all add: chacha_ivsetup_words seq_state_def U8TO32_LITTLE_def)

lemma length_seq_state [simp]: "length k = 12 \<Longrightarrow> length (seq_state k seqnr n) = 16"
  by (simp add: seq_state_def)

lemma chacha_keyed_run:
  assumes "chacha_keyed k x" "length tmp = 64"
  shows "snd (chacha_encrypt_bytes tmp (seq_state k seqnr n) m) = xor_stream (seq_state k seqnr n) m"
    "chacha_keyed k (fst (chacha_encrypt_bytes tmp (seq_state k seqnr n) m))"
proof -
  have k: "length k = 12" using assms by (auto simp: chacha_keyed_def)
  then show "snd (chacha_encrypt_bytes tmp (seq_state k seqnr n) m) = xor_stream (seq_state k seqnr n) m"
    using assms by (simp add: chacha_encrypt_bytes_eq)
  obtain i where "fst (chacha_encrypt_bytes tmp (seq_state k seqnr n) m) = with_counter (seq_state k seqnr n) i"
    using chacha_encrypt_bytes_eq(2) [of "seq_state k seqnr n" tmp m] k assms by auto
  then show "chacha_keyed k (fst (chacha_encrypt_bytes tmp (seq_state k seqnr n) m))"
    using k by (simp add: chacha_keyed_def with_counter_def) (simp add: seq_state_def)
qed

lemma poly1305_auth_mac: "length key = 32 \<Longrightarrow> poly1305_auth m key = poly1305_mac m key"
  using poly1305_blocks_num [of "(0, 0, 0, 0, 0)" "poly1305_clamp key" m] poly1305_clamp_num [of key]
  by (simp add: poly1305_auth_def poly1305_mac_def poly1305_finish_num)

lemma length_poly1305_mac [simp]: "length (poly1305_mac m key) = 16"
  by (simp add: poly1305_mac_def)

lemma length_onetime_key [simp]: "length (onetime_key k seqnr) = 32"
  by (simp add: onetime_key_def)

definition opens :: "u32 list \<Rightarrow> u32 \<Rightarrow> byte list \<Rightarrow> nat \<Rightarrow> bool" where
  "opens k seqnr src n \<longleftrightarrow> take 16 (drop n src) = poly1305_mac (take n src) (onetime_key k seqnr)"

text \<open>The contexts of a connection: both keyed, the one for the text and the one for the lengths.\<close>

definition ctx_keyed :: "u32 list \<Rightarrow> u32 list \<Rightarrow> chachapoly_ctx \<Rightarrow> bool" where
  "ctx_keyed k hk ctx \<longleftrightarrow> chacha_keyed k (main_ctx ctx) \<and> chacha_keyed hk (header_ctx ctx)"

lemma chachapoly_crypt_eq:
  assumes ctx: "ctx_keyed k hk ctx" and tmp: "length tmp = 64"
    and n: "unat (aadlen + len) = unat aadlen + unat len" and src: "unat aadlen + unat len + (if do_encrypt then 0 else 16) \<le> length src"
  shows "fst (chachapoly_crypt tmp ctx seqnr src len aadlen authlen do_encrypt) =
      (let aad = take (unat aadlen) src; text = take (unat len) (drop (unat aadlen) src) in
       if do_encrypt then Inr (seal k hk seqnr aad text)
       else if opens k seqnr src (unat aadlen + unat len) then Inr (seal_body k hk seqnr aad text)
       else Inl SSH_ERR_MAC_INVALID)" (is ?res)
    and "ctx_keyed k hk (snd (chachapoly_crypt tmp ctx seqnr src len aadlen authlen do_encrypt))"
proof -
  note run = chacha_keyed_run [OF _ tmp]
  obtain x y where xy: "ctx = \<lparr>main_ctx = x, header_ctx = y\<rparr>" by (cases ctx)
  have k: "chacha_keyed k x" "chacha_keyed hk y" using ctx by (simp_all add: ctx_keyed_def xy)
  obtain m where r0: "chacha_encrypt_bytes tmp (seq_state k seqnr 0) (replicate POLY1305_KEYLEN 0) = (m, onetime_key k seqnr)" "chacha_keyed k m"
    using run [OF k(1), of seqnr 0 "replicate POLY1305_KEYLEN 0"] by (metis POLY1305_KEYLEN_def onetime_key_def prod.collapse)
  obtain h where r1: "(if aadlen \<noteq> 0 then chacha_encrypt_bytes tmp (seq_state hk seqnr 0) (take (unat aadlen) src) else (y, []))
      = (h, xor_stream (seq_state hk seqnr 0) (take (unat aadlen) src))" "chacha_keyed hk h"
    using run [OF k(2), of seqnr 0 "take (unat aadlen) src"] k(2) by (cases "aadlen = 0") (auto simp: xor_stream_def prod_eq_iff)
  obtain m' where r2: "chacha_encrypt_bytes tmp (seq_state k seqnr 1) (take (unat len) (drop (unat aadlen) src))
      = (m', xor_stream (seq_state k seqnr 1) (take (unat len) (drop (unat aadlen) src)))" "chacha_keyed k m'"
    using run [OF k(1), of seqnr 1 "take (unat len) (drop (unat aadlen) src)"] by (metis prod.collapse)
  have bcmp: "do_encrypt \<or> timingsafe_bcmp (poly1305_auth (take (unat (aadlen + len)) src) (onetime_key k seqnr)) (drop (unat aadlen + unat len) src)
      POLY1305_TAGLEN = (\<not> opens k seqnr src (unat aadlen + unat len))"
    using src by (cases do_encrypt) (auto simp: timingsafe_bcmp_iff opens_def POLY1305_TAGLEN_def poly1305_auth_mac n)
  note iv = chacha_ivsetup_state [OF k(1)] chacha_ivsetup_state [OF k(2)] chacha_ivsetup_state [OF r0(2)]
  define body where "body = seal_body k hk seqnr (take (unat aadlen) src) (take (unat len) (drop (unat aadlen) src))"
  have tk: "take (unat (aadlen + len)) body = body" using src by (simp add: n body_def seal_body_def)
  have "chachapoly_crypt tmp ctx seqnr src len aadlen authlen do_encrypt =
      (if \<not> do_encrypt \<and> \<not> opens k seqnr src (unat aadlen + unat len) then (Inl SSH_ERR_MAC_INVALID, ctx\<lparr>main_ctx := m\<rparr>)
       else (Inr (if do_encrypt then body @ poly1305_mac body (onetime_key k seqnr) else body), ctx\<lparr>main_ctx := m', header_ctx := h\<rparr>))"
    unfolding xy using bcmp
    by (simp only: chachapoly_crypt_def Let_def iv r0(1) prod.case chachapoly_ctx.select_convs chachapoly_ctx.update_convs r1(1) r2(1) tk
      seal_body_def [symmetric] body_def [symmetric] poly1305_auth_mac [OF length_onetime_key]) auto
  then show ?res "ctx_keyed k hk (snd (chachapoly_crypt tmp ctx seqnr src len aadlen authlen do_encrypt))"
    using r0(2) r1(2) r2(2) k by (simp_all add: seal_def body_def Let_def ctx_keyed_def xy)
qed

lemma chachapoly_new_keyed:
  "chachapoly_new am key keylen = Some ctx \<Longrightarrow>
     ctx_keyed (take 12 (chacha_keysetup (replicate 16 0) key 256)) (take 12 (chacha_keysetup (replicate 16 0) (drop 32 key) 256)) ctx"
  by (auto simp: chachapoly_new_def ctx_keyed_def chacha_keyed_def chacha_keysetup_def Let_def split: if_splits)

lemma length_seal [simp]: "length (seal_body k hk seqnr aad text) = length aad + length text"
  "length (seal k hk seqnr aad text) = length aad + length text + 16"
  by (simp_all add: seal_def seal_body_def)

text \<open>
  C9: The authenticated cipher is the documented construction. Encryption gives the lengths under
  the header key, the text under the main key from block 1 on, and the Poly1305 tag of both under
  the one-time key of block 0, all for the sequence number of the packet. Decryption accepts exactly
  the packets whose tag is right and leaves the others alone. Either way the keys stay in the
  context for the next packet.
\<close>

theorem chachapoly_crypt_construction:
  assumes "ctx_keyed k hk ctx" "length tmp = 64" "unat aadlen + unat len < 2 ^ 32"
    "unat aadlen + unat len + (if do_encrypt then 0 else 16) \<le> length src"
  shows "fst (chachapoly_crypt tmp ctx seqnr src len aadlen authlen do_encrypt) =
      (let aad = take (unat aadlen) src; text = take (unat len) (drop (unat aadlen) src) in
       if do_encrypt then Inr (seal k hk seqnr aad text)
       else if opens k seqnr src (unat aadlen + unat len) then Inr (seal_body k hk seqnr aad text)
       else Inl SSH_ERR_MAC_INVALID) \<and>
    ctx_keyed k hk (snd (chachapoly_crypt tmp ctx seqnr src len aadlen authlen do_encrypt))"
proof -
  have "unat (aadlen + len) = unat aadlen + unat len" using assms(3) unat_add_small [of aadlen len] by simp
  from chachapoly_crypt_eq [OF assms(1,2) this assms(4)] show ?thesis by blast
qed

text \<open>
  C10: What one side seals the other opens. Two contexts made from the same 64 bytes of key and
  used for any packets before agree on every later packet: the receiver reads the length of the
  packet from its first four bytes, and decryption gives back the additional data and the text.
\<close>

theorem chachapoly_round_trip:
  assumes "chachapoly_new am key 64 = Some c0" "chachapoly_new am' key 64 = Some d0"
    and "fst (chachapoly_crypt tmp c seqnr (aad @ text) (of_nat (length text)) (of_nat (length aad)) 16 True) = Inr sealed"
    and "ctx_keyed (take 12 (main_ctx c0)) (take 12 (header_ctx c0)) c" "ctx_keyed (take 12 (main_ctx d0)) (take 12 (header_ctx d0)) d"
    and "length tmp = 64" "length tmp' = 64" "4 \<le> length aad" "length aad + length text < 2 ^ 32"
  shows "fst (chachapoly_get_length tmp' d seqnr sealed 4) = Inr (PEEK_U32 aad) \<and>
    fst (chachapoly_crypt tmp' d seqnr sealed (of_nat (length text)) (of_nat (length aad)) 16 False) = Inr (aad @ text)"
proof -
  define k hk where k: "k = take 12 (main_ctx c0)" "hk = take 12 (header_ctx c0)"
  have cd: "ctx_keyed k hk c" "ctx_keyed k hk d"
    using assms(1,2,4,5) by (auto simp: k chachapoly_new_def split: if_splits)
  have n: "unat (of_nat (length text) :: u32) = length text" "unat (of_nat (length aad) :: u32) = length aad"
    "unat (of_nat (length aad) + of_nat (length text) :: u32) = length aad + length text"
    using assms(9) by (simp_all add: unat_of_nat_small flip: of_nat_add)
  then have n': "unat (of_nat (length aad) + of_nat (length text) :: u32) = unat (of_nat (length aad) :: u32) + unat (of_nat (length text) :: u32)"
    by simp
  have sealed: "sealed = seal k hk seqnr aad text"
    using chachapoly_crypt_eq(1) [OF cd(1) assms(6) n', of True "aad @ text" seqnr 16] assms(3) by (simp add: n)
  have "opens k seqnr sealed (length aad + length text)" by (simp add: sealed opens_def seal_def)
  moreover have "seal_body k hk seqnr (take (length aad) sealed) (take (length text) (drop (length aad) sealed)) = aad @ text"
    by (simp add: sealed seal_def seal_body_def)
  ultimately have "fst (chachapoly_crypt tmp' d seqnr sealed (of_nat (length text)) (of_nat (length aad)) 16 False) = Inr (aad @ text)"
    using chachapoly_crypt_eq(1) [OF cd(2) assms(7) n', of False sealed seqnr 16] by (simp add: n sealed)
  moreover have "chacha_keyed hk (header_ctx d)" using cd(2) by (simp add: ctx_keyed_def)
  then have "fst (chachapoly_get_length tmp' d seqnr sealed 4) = Inr (PEEK_U32 aad)"
    using chacha_keyed_run(1) [OF _ assms(7), of hk "header_ctx d" seqnr 0 "take 4 sealed"] assms(8)
    by (simp add: chachapoly_get_length_def Let_def chacha_ivsetup_state sealed seal_def seal_body_def case_prod_beta)
  ultimately show ?thesis by blast
qed

section \<open>Both versions behave alike\<close>

lemma zeros_8: "replicate 8 0 = [0, 0, 0, 0, 0, 0, 0, 0 :: byte]"
  by code_simp

text \<open>
  What the library promises of its cipher: a context that holds a key can be started with a block
  number and a nonce, and a started context gives the exclusive or with the key stream.
\<close>

locale chacha_provider =
  fixes init :: "'e evp_init" and crypt :: "'e evp_cipher"
    and holds :: "u32 list \<Rightarrow> 'e \<Rightarrow> bool" and started :: "u32 list \<Rightarrow> 'e \<Rightarrow> bool"
  assumes init_starts: "holds k e \<Longrightarrow> length iv = 16 \<Longrightarrow>
      fst (init e iv) \<and> started (k @ map (U8TO32_LITTLE iv) [0, 4, 8, 12]) (snd (init e iv))"
    and crypt_stream: "started s e \<Longrightarrow> fst (crypt e m) = Some (xor_stream s m) \<and> holds (take 12 s) (snd (crypt e m))"
    and holds_length: "holds k e \<Longrightarrow> length k = 12"
begin

lemma run_stream:
  assumes "holds k e"
  shows "\<exists>e'. evp_run init crypt e (replicate 8 0 @ POKE_U64 (ucast seqnr)) m = (Some (xor_stream (seq_state k seqnr 0) m), e') \<and> holds k e'"
    "\<exists>e'. evp_run init crypt e ((replicate 8 0 @ POKE_U64 (ucast seqnr))[0 := 1]) m = (Some (xor_stream (seq_state k seqnr 1) m), e') \<and> holds k e'"
proof -
  have run: "\<exists>e'. evp_run init crypt e iv m = (Some (xor_stream (k @ map (U8TO32_LITTLE iv) [0, 4, 8, 12]) m), e') \<and> holds k e'"
    if "length iv = 16" for iv
    using init_starts [OF assms that] crypt_stream [of "k @ map (U8TO32_LITTLE iv) [0, 4, 8, 12]" "snd (init e iv)" m] holds_length [OF assms]
    by (auto simp: evp_run_def prod_eq_iff case_prod_beta)
  have "k @ map (U8TO32_LITTLE (replicate 8 0 @ POKE_U64 (ucast seqnr))) [0, 4, 8, 12] = seq_state k seqnr 0"
    "k @ map (U8TO32_LITTLE ((replicate 8 0 @ POKE_U64 (ucast seqnr))[0 := 1])) [0, 4, 8, 12] = seq_state k seqnr 1"
    unfolding zeros_8 by (simp_all add: seq_state_def U8TO32_LITTLE_def numeral_2_eq_2)
  then show "\<exists>e'. evp_run init crypt e (replicate 8 0 @ POKE_U64 (ucast seqnr)) m = (Some (xor_stream (seq_state k seqnr 0) m), e') \<and> holds k e'"
    "\<exists>e'. evp_run init crypt e ((replicate 8 0 @ POKE_U64 (ucast seqnr))[0 := 1]) m = (Some (xor_stream (seq_state k seqnr 1) m), e') \<and> holds k e'"
    using run [of "replicate 8 0 @ POKE_U64 (ucast seqnr)"] run [of "(replicate 8 0 @ POKE_U64 (ucast seqnr))[0 := 1]"] by simp_all
qed

definition ctx_holds :: "u32 list \<Rightarrow> u32 list \<Rightarrow> 'e evp_chachapoly_ctx \<Rightarrow> bool" where
  "ctx_holds k hk ctx \<longleftrightarrow> holds k (main_evp ctx) \<and> holds hk (header_evp ctx)"

lemma evp_crypt_eq:
  assumes ctx: "ctx_holds k hk ctx" and n: "unat (aadlen + len) = unat aadlen + unat len"
    and src: "unat aadlen + unat len + (if do_encrypt then 0 else 16) \<le> length src"
  shows "fst (evp_chachapoly_crypt init crypt ctx seqnr src len aadlen authlen do_encrypt) =
      (let aad = take (unat aadlen) src; text = take (unat len) (drop (unat aadlen) src) in
       if do_encrypt then Inr (seal k hk seqnr aad text)
       else if opens k seqnr src (unat aadlen + unat len) then Inr (seal_body k hk seqnr aad text)
       else Inl SSH_ERR_MAC_INVALID)"
    and "ctx_holds k hk (snd (evp_chachapoly_crypt init crypt ctx seqnr src len aadlen authlen do_encrypt))"
proof -
  obtain x y where xy: "ctx = \<lparr>main_evp = x, header_evp = y\<rparr>" by (cases ctx)
  have k: "holds k x" "holds hk y" using ctx by (simp_all add: ctx_holds_def xy)
  obtain m where r0: "evp_run init crypt x (replicate 8 0 @ POKE_U64 (ucast seqnr)) (replicate POLY1305_KEYLEN 0) = (Some (onetime_key k seqnr), m)" "holds k m"
    using run_stream(1) [OF k(1)] unfolding onetime_key_def POLY1305_KEYLEN_def by blast
  obtain h where r1: "(if aadlen \<noteq> 0 then evp_run init crypt y (replicate 8 0 @ POKE_U64 (ucast seqnr)) (take (unat aadlen) src) else (Some [], y))
      = (Some (xor_stream (seq_state hk seqnr 0) (take (unat aadlen) src)), h)" "holds hk h"
    using run_stream(1) [OF k(2), of seqnr "take (unat aadlen) src"] k(2) by (cases "aadlen = 0") (auto simp: xor_stream_def)
  obtain m' where r2: "evp_run init crypt m ((replicate 8 0 @ POKE_U64 (ucast seqnr))[0 := 1]) (take (unat len) (drop (unat aadlen) src))
      = (Some (xor_stream (seq_state k seqnr 1) (take (unat len) (drop (unat aadlen) src))), m')" "holds k m'"
    using run_stream(2) [OF r0(2)] by blast
  have bcmp: "do_encrypt \<or> timingsafe_bcmp (poly1305_auth (take (unat (aadlen + len)) src) (onetime_key k seqnr)) (drop (unat aadlen + unat len) src)
      POLY1305_TAGLEN = (\<not> opens k seqnr src (unat aadlen + unat len))"
    using src by (cases do_encrypt) (auto simp: timingsafe_bcmp_iff opens_def POLY1305_TAGLEN_def poly1305_auth_mac n)
  define body where "body = seal_body k hk seqnr (take (unat aadlen) src) (take (unat len) (drop (unat aadlen) src))"
  have tk: "take (unat (aadlen + len)) body = body" using src by (simp add: n body_def seal_body_def)
  have "evp_chachapoly_crypt init crypt ctx seqnr src len aadlen authlen do_encrypt =
      (if \<not> do_encrypt \<and> \<not> opens k seqnr src (unat aadlen + unat len) then (Inl SSH_ERR_MAC_INVALID, ctx\<lparr>main_evp := m\<rparr>)
       else (Inr (if do_encrypt then body @ poly1305_mac body (onetime_key k seqnr) else body), ctx\<lparr>main_evp := m', header_evp := h\<rparr>))"
    unfolding xy using bcmp
    by (simp only: evp_chachapoly_crypt_def Let_def r0(1) prod.case option.case evp_chachapoly_ctx.select_convs evp_chachapoly_ctx.update_convs r1(1) r2(1) tk
      seal_body_def [symmetric] body_def [symmetric] poly1305_auth_mac [OF length_onetime_key]) auto
  then show "fst (evp_chachapoly_crypt init crypt ctx seqnr src len aadlen authlen do_encrypt) =
      (let aad = take (unat aadlen) src; text = take (unat len) (drop (unat aadlen) src) in
       if do_encrypt then Inr (seal k hk seqnr aad text)
       else if opens k seqnr src (unat aadlen + unat len) then Inr (seal_body k hk seqnr aad text)
       else Inl SSH_ERR_MAC_INVALID)"
    "ctx_holds k hk (snd (evp_chachapoly_crypt init crypt ctx seqnr src len aadlen authlen do_encrypt))"
    using r0(2) r1(2) r2(2) k by (simp_all add: seal_def body_def Let_def ctx_holds_def xy)
qed

lemma evp_get_length_eq:
  assumes "holds hk (header_evp ctx)"
  shows "fst (evp_chachapoly_get_length init crypt ctx seqnr cp len) =
    (if len < 4 then Inl SSH_ERR_MESSAGE_INCOMPLETE else Inr (PEEK_U32 (xor_stream (seq_state hk seqnr 0) (take 4 cp))))"
  using run_stream(1) [OF assms, of seqnr "take 4 cp"] by (auto simp: evp_chachapoly_get_length_def Let_def)

end

text \<open>The repository's own cipher keeps the promise.\<close>

definition own_init :: "chacha_ctx evp_init" where
  "own_init x iv = (True, chacha_ivsetup x (drop 8 iv) (Some (take 8 iv)))"

definition own_cipher :: "chacha_ctx evp_cipher" where
  "own_cipher x m = (let (x', c) = chacha_encrypt_bytes (replicate 64 0) x m in (Some c, x'))"

definition own_holds :: "u32 list \<Rightarrow> chacha_ctx \<Rightarrow> bool" where
  "own_holds k x \<longleftrightarrow> length k = 12 \<and> chacha_keyed k x"

definition own_started :: "u32 list \<Rightarrow> chacha_ctx \<Rightarrow> bool" where
  "own_started s x \<longleftrightarrow> length s = 16 \<and> x = s"

interpretation own: chacha_provider own_init own_cipher own_holds own_started
proof unfold_locales
  fix k x and iv :: "byte list"
  assume k: "own_holds k x" and iv: "length iv = 16"
  have "U8TO32_LITTLE (drop 8 iv) i = U8TO32_LITTLE iv (8 + i)" "i \<le> 4 \<Longrightarrow> U8TO32_LITTLE (take 8 iv) i = U8TO32_LITTLE iv i" for i
    using iv by (simp_all add: U8TO32_LITTLE_def ac_simps)
  then have "chacha_ivsetup x (drop 8 iv) (Some (take 8 iv)) = k @ map (U8TO32_LITTLE iv) [0, 4, 8, 12]" "length k = 12"
    using k by (simp_all add: own_holds_def chacha_ivsetup_words [of k x])
  then show "fst (own_init x iv) \<and> own_started (k @ map (U8TO32_LITTLE iv) [0, 4, 8, 12]) (snd (own_init x iv))"
    by (simp add: own_init_def own_started_def)
next
  fix s x m assume "own_started s x"
  then show "fst (own_cipher x m) = Some (xor_stream s m) \<and> own_holds (take 12 s) (snd (own_cipher x m))"
    using chacha_encrypt_bytes_eq [of s "replicate 64 0" m]
    by (auto simp: own_cipher_def own_started_def own_holds_def chacha_keyed_def with_counter_def case_prod_beta)
qed (simp add: own_holds_def)

text \<open>
  C39: A build with the library's cipher and one with the repository's cipher interoperate: when the
  library does what it documents, both versions of the authenticated cipher return the same bytes
  or the same error for every packet, in both directions, and read the same packet length.
\<close>

theorem chachapoly_versions_agree:
  assumes "chacha_provider init crypt holds started" "holds k (main_evp e)" "holds hk (header_evp e)"
    and "ctx_keyed k hk ctx" "length tmp = 64" "unat aadlen + unat len < 2 ^ 32"
    and "unat aadlen + unat len + (if do_encrypt then 0 else 16) \<le> length src"
  shows "fst (evp_chachapoly_crypt init crypt e seqnr src len aadlen authlen do_encrypt) =
      fst (chachapoly_crypt tmp ctx seqnr src len aadlen authlen do_encrypt) \<and>
    fst (evp_chachapoly_get_length init crypt e seqnr src len) = fst (chachapoly_get_length tmp ctx seqnr src len)"
proof -
  have n: "unat (aadlen + len) = unat aadlen + unat len" using assms(6) unat_add_small [of aadlen len] by simp
  have "chacha_provider.ctx_holds holds k hk e"
    using assms(1-3) by (simp add: chacha_provider.ctx_holds_def)
  from chacha_provider.evp_crypt_eq(1) [OF assms(1) this n assms(7)] chachapoly_crypt_eq(1) [OF assms(4,5) n assms(7)]
  have "fst (evp_chachapoly_crypt init crypt e seqnr src len aadlen authlen do_encrypt) =
      fst (chachapoly_crypt tmp ctx seqnr src len aadlen authlen do_encrypt)" by simp
  moreover have "chacha_keyed hk (header_ctx ctx)" using assms(4) by (simp add: ctx_keyed_def)
  then have "fst (evp_chachapoly_get_length init crypt e seqnr src len) = fst (chachapoly_get_length tmp ctx seqnr src len)"
    using chacha_keyed_run(1) [OF _ assms(5), of hk "header_ctx ctx" seqnr 0 "take 4 src"] chacha_provider.evp_get_length_eq [OF assms(1,3)]
    by (simp add: chachapoly_get_length_def Let_def chacha_ivsetup_state case_prod_beta)
  ultimately show ?thesis ..
qed

section \<open>Witnesses\<close>

definition sample_key :: "byte list" where
  "sample_key = map of_nat [0..<64]"

definition sample_ctx :: chachapoly_ctx where
  "sample_ctx = the (chachapoly_new (\<lambda>_. 16) sample_key 64)"

lemma sample_keyed: "ctx_keyed (take 12 (main_ctx sample_ctx)) (take 12 (header_ctx sample_ctx)) sample_ctx"
  by (auto simp: sample_ctx_def chachapoly_new_def ctx_keyed_def chacha_keyed_def chacha_keysetup_def Let_def)

theorem chachapoly_crypt_construction_witness:
  "fst (chachapoly_crypt (replicate 64 7) sample_ctx 3 [0, 0, 0, 2, 65, 66] 2 4 16 True) =
     Inr (seal (take 12 (main_ctx sample_ctx)) (take 12 (header_ctx sample_ctx)) 3 [0, 0, 0, 2] [65, 66])"
  using chachapoly_crypt_construction [OF sample_keyed, of "replicate 64 7" 4 2 True "[0, 0, 0, 2, 65, 66]" 3 16] by simp

theorem chachapoly_round_trip_witness:
  "\<exists>sealed. fst (chachapoly_crypt (replicate 64 7) sample_ctx 3 [0, 0, 0, 2, 65, 66] 2 4 16 True) = Inr sealed \<and>
     fst (chachapoly_get_length (replicate 64 9) sample_ctx 3 sealed 4) = Inr 2 \<and>
     fst (chachapoly_crypt (replicate 64 9) sample_ctx 3 sealed 2 4 16 False) = Inr [0, 0, 0, 2, 65, 66]"
proof -
  have c: "chachapoly_new (\<lambda>_. 16) sample_key 64 = Some sample_ctx" by (simp add: sample_ctx_def chachapoly_new_def)
  obtain sealed where s: "fst (chachapoly_crypt (replicate 64 7) sample_ctx 3 [0, 0, 0, 2, 65, 66] 2 4 16 True) = Inr sealed"
    using chachapoly_crypt_eq(1) [OF sample_keyed, of "replicate 64 7" 4 2 True "[0, 0, 0, 2, 65, 66]" 3 16] by simp
  have "PEEK_U32 [0, 0, 0, 2] = 2" by (simp add: PEEK_U32_def)
  with s show ?thesis
    using chachapoly_round_trip [OF c c, of "replicate 64 7" sample_ctx 3 "[0, 0, 0, 2]" "[65, 66]" sealed sample_ctx "replicate 64 9"] sample_keyed
    by simp
qed

theorem chachapoly_versions_agree_witness:
  "fst (evp_chachapoly_crypt own_init own_cipher \<lparr>main_evp = main_ctx sample_ctx, header_evp = header_ctx sample_ctx\<rparr> 3 [0, 0, 0, 2, 65, 66] 2 4 16 True) =
   fst (chachapoly_crypt (replicate 64 7) sample_ctx 3 [0, 0, 0, 2, 65, 66] 2 4 16 True)"
proof -
  have "own_holds (take 12 (main_ctx sample_ctx)) (main_ctx sample_ctx)" "own_holds (take 12 (header_ctx sample_ctx)) (header_ctx sample_ctx)"
    using sample_keyed by (auto simp: own_holds_def ctx_keyed_def chacha_keyed_def)
  then show ?thesis
    using chachapoly_versions_agree [OF own.chacha_provider_axioms _ _ sample_keyed,
        of "\<lparr>main_evp = main_ctx sample_ctx, header_evp = header_ctx sample_ctx\<rparr>" "replicate 64 7" 4 2 True "[0, 0, 0, 2, 65, 66]" 3 16]
    by simp
qed

end
