(* ===== verification/Mac.thy ===== *)
theory Mac
  imports Algorithms Chachapoly
begin

text \<open>
  Message authentication codes (\<^verbatim>\<open>hmac.c\<close>, \<^verbatim>\<open>mac.c\<close>). The digest functions and UMAC are parameters:
  \<open>md alg m\<close> is the digest of \<open>m\<close>, nothing when the library fails, and \<open>um t key nonce m\<close> is the tag
  of \<open>m\<close> by the variant \<open>t\<close>. A digest context is the bytes it has absorbed. The theory shows that the
  code computes HMAC of RFC 2104 over the sequence number and the packet, for every packet of a
  connection.
\<close>

type_synonym md_fn = "digest_alg \<Rightarrow> byte list \<Rightarrow> byte list option"
type_synonym umac_fn = "mac_type \<Rightarrow> byte list \<Rightarrow> byte list \<Rightarrow> byte list \<Rightarrow> byte list"

section \<open>The code\<close>

definition ssh_digest_final :: "md_fn \<Rightarrow> digest_alg \<Rightarrow> byte list \<Rightarrow> size_t \<Rightarrow> byte list option" where
  "ssh_digest_final md alg st dlen =
     (if 0xffffffff < dlen \<or> dlen < ssh_digest_bytes alg then None
      else case md alg st of
             None \<Rightarrow> None
           | Some d \<Rightarrow> if length d \<noteq> unat (ssh_digest_bytes alg) then None else Some d)"

definition ssh_digest_memory :: "md_fn \<Rightarrow> digest_alg \<Rightarrow> byte list \<Rightarrow> size_t \<Rightarrow> byte list option" where
  "ssh_digest_memory md alg m dlen =
     (if 0xffffffff < dlen \<or> dlen < ssh_digest_bytes alg then None else md alg m)"

definition ssh_hmac_init :: "md_fn \<Rightarrow> ssh_hmac_ctx \<Rightarrow> byte list option \<Rightarrow> bool \<times> ssh_hmac_ctx" where
  "ssh_hmac_init md ctx key =
     (case key of
        None \<Rightarrow> (True, ctx\<lparr>hc_digest := hc_ictx ctx\<rparr>)
      | Some k \<Rightarrow>
          let buf_len = length (hc_buf ctx) in
          case (if length k \<le> buf_len then Some (mem_write (hc_buf ctx) 0 k)
                else map_option (mem_write (hc_buf ctx) 0) (ssh_digest_memory md (hc_alg ctx) k (of_nat buf_len))) of
            None \<Rightarrow> (False, ctx)
          | Some b \<Rightarrow>
              let ib = map (\<lambda>x. x XOR 0x36) b;
                  ob = map (\<lambda>x. x XOR (0x36 XOR 0x5c)) ib;
                  ctx = ctx\<lparr>hc_ictx := hc_ictx ctx @ ib, hc_octx := hc_octx ctx @ ob, hc_buf := replicate buf_len 0\<rparr>
              in (True, ctx\<lparr>hc_digest := hc_ictx ctx\<rparr>))"

text \<open>
  The code returns an error as soon as the library fails to absorb bytes. Here absorbing only collects
  the bytes, and a failure of the library shows when the digest of all of them is asked for: the one
  caller, \<open>mac_compute\<close>, answers both with the same error.
\<close>

definition ssh_hmac_update :: "ssh_hmac_ctx \<Rightarrow> byte list \<Rightarrow> ssh_hmac_ctx" where
  "ssh_hmac_update ctx m = ctx\<lparr>hc_digest := hc_digest ctx @ m\<rparr>"

definition ssh_hmac_final :: "md_fn \<Rightarrow> ssh_hmac_ctx \<Rightarrow> size_t \<Rightarrow> byte list option \<times> ssh_hmac_ctx" where
  "ssh_hmac_final md ctx dlen =
     (let len = ssh_digest_bytes (hc_alg ctx) in
      if dlen < len then (None, ctx)
      else case ssh_digest_final md (hc_alg ctx) (hc_digest ctx) len of
             None \<Rightarrow> (None, ctx)
           | Some d \<Rightarrow>
               let ctx = ctx\<lparr>hc_buf := mem_write (hc_buf ctx) 0 d\<rparr>;
                   ctx = ctx\<lparr>hc_digest := hc_octx ctx @ take (unat len) (hc_buf ctx)\<rparr>
               in (ssh_digest_final md (hc_alg ctx) (hc_digest ctx) dlen, ctx))"

definition SSH_DIGEST_MAX_LENGTH :: size_t where "SSH_DIGEST_MAX_LENGTH = 64"

text \<open>\<open>made\<close> says whether \<^verbatim>\<open>umac_new\<close> returned a context.\<close>

definition mac_init :: "md_fn \<Rightarrow> bool \<Rightarrow> sshmac \<Rightarrow> unit res \<times> sshmac" where
  "mac_init md made mac =
     (case sm_key mac of
        None \<Rightarrow> (Inl SSH_ERR_INVALID_ARGUMENT, mac)
      | Some key \<Rightarrow>
          case sm_type mac of
            SSH_DIGEST \<Rightarrow>
              (case sm_hmac_ctx mac of
                 None \<Rightarrow> (Inl SSH_ERR_INVALID_ARGUMENT, mac)
               | Some ctx \<Rightarrow>
                   let (ok, ctx) = ssh_hmac_init md ctx (Some (take (unat (sm_key_len mac)) key))
                   in (if ok then Inr () else Inl SSH_ERR_INVALID_ARGUMENT, mac\<lparr>sm_hmac_ctx := Some ctx\<rparr>))
          | _ \<Rightarrow>
              if \<not> made then (Inl SSH_ERR_ALLOC_FAIL, mac\<lparr>sm_umac_ctx := None\<rparr>)
              else (Inr (), mac\<lparr>sm_umac_ctx := Some (take 16 key)\<rparr>))"

text \<open>
  The bytes written to \<open>digest\<close>, at most \<open>dlen\<close> of them, are the result. The contexts are those that
  \<^verbatim>\<open>mac_init\<close> made; the code does not test them.
\<close>

definition mac_compute :: "md_fn \<Rightarrow> umac_fn \<Rightarrow> sshmac \<Rightarrow> u32 \<Rightarrow> byte list \<Rightarrow> size_t \<Rightarrow> byte list res \<times> sshmac" where
  "mac_compute md um mac seqno data dlen =
     (if SSH_DIGEST_MAX_LENGTH < ucast (sm_mac_len mac) then (Inl SSH_ERR_INTERNAL_ERROR, mac)
      else let dlen = (if ucast (sm_mac_len mac) < dlen then ucast (sm_mac_len mac) else dlen) in
        case sm_type mac of
          SSH_DIGEST \<Rightarrow>
            (let ctx = snd (ssh_hmac_init md (the (sm_hmac_ctx mac)) None);
                 ctx = ssh_hmac_update (ssh_hmac_update ctx (POKE_U32 seqno)) data;
                 (m, ctx) = ssh_hmac_final md ctx SSH_DIGEST_MAX_LENGTH;
                 mac = mac\<lparr>sm_hmac_ctx := Some ctx\<rparr>
             in case m of None \<Rightarrow> (Inl SSH_ERR_LIBCRYPTO_ERROR, mac) | Some d \<Rightarrow> (Inr (take (unat dlen) d), mac))
        | t \<Rightarrow> (Inr (take (unat dlen) (um t (the (sm_umac_ctx mac)) (POKE_U64 (ucast seqno)) data)), mac))"

definition mac_check :: "md_fn \<Rightarrow> umac_fn \<Rightarrow> sshmac \<Rightarrow> u32 \<Rightarrow> byte list \<Rightarrow> byte list \<Rightarrow> size_t \<Rightarrow> unit res \<times> sshmac" where
  "mac_check md um mac seqno data theirmac mlen =
     (if mlen < ucast (sm_mac_len mac) then (Inl SSH_ERR_INVALID_ARGUMENT, mac)
      else case mac_compute md um mac seqno data SSH_DIGEST_MAX_LENGTH of
             (Inl r, mac) \<Rightarrow> (Inl r, mac)
           | (Inr ourmac, mac) \<Rightarrow>
               if timingsafe_bcmp ourmac theirmac (unat (sm_mac_len mac)) then (Inl SSH_ERR_MAC_INVALID, mac)
               else (Inr (), mac))"

section \<open>HMAC\<close>

text \<open>RFC 2104 over a digest \<open>h\<close> with blocks of \<open>b\<close> bytes.\<close>

definition hmac_key :: "(byte list \<Rightarrow> byte list) \<Rightarrow> nat \<Rightarrow> byte list \<Rightarrow> byte list" where
  "hmac_key h b key = (let k = (if b < length key then h key else key) in k @ replicate (b - length k) 0)"

definition hmac :: "(byte list \<Rightarrow> byte list) \<Rightarrow> nat \<Rightarrow> byte list \<Rightarrow> byte list \<Rightarrow> byte list" where
  "hmac h b key m =
     (let k = hmac_key h b key
      in h (map (\<lambda>x. x XOR 0x5c) k @ h (map (\<lambda>x. x XOR 0x36) k @ m)))"

definition md_total :: "md_fn \<Rightarrow> digest_alg \<Rightarrow> (byte list \<Rightarrow> byte list) \<Rightarrow> bool" where
  "md_total md alg h \<longleftrightarrow> (\<forall>m. md alg m = Some (h m) \<and> length (h m) = unat (ssh_digest_bytes alg))"

text \<open>A context that holds a key, whatever it has been used for.\<close>

definition hmac_holds :: "(byte list \<Rightarrow> byte list) \<Rightarrow> byte list \<Rightarrow> ssh_hmac_ctx \<Rightarrow> bool" where
  "hmac_holds h key ctx \<longleftrightarrow>
     (let b = unat (ssh_digest_blocksize (hc_alg ctx)); k = hmac_key h b key in
      length (hc_buf ctx) = b \<and> hc_ictx ctx = map (\<lambda>x. x XOR 0x36) k \<and> hc_octx ctx = map (\<lambda>x. x XOR 0x5c) k)"

lemma digest_sizes:
  "unat (ssh_digest_bytes alg) \<le> 64" "unat (ssh_digest_bytes alg) \<le> unat (ssh_digest_blocksize alg)"
  "\<not> 0xffffffff < ssh_digest_bytes alg" "\<not> 64 < ssh_digest_bytes alg" "unat (ssh_digest_blocksize alg) \<le> 128"
  "\<not> 0xffffffff < ssh_digest_blocksize alg" "ssh_digest_bytes alg \<le> ssh_digest_blocksize alg"
  by (cases alg; simp)+

lemma length_hmac_key: "md_total md alg h \<Longrightarrow> length (hmac_key h (unat (ssh_digest_blocksize alg)) key) = unat (ssh_digest_blocksize alg)"
  using digest_sizes(2) [of alg] by (auto simp: hmac_key_def md_total_def Let_def)

lemma xor_pads: "(x XOR 0x36) XOR (0x36 XOR 0x5c) = x XOR (0x5c :: byte)"
  by (simp add: xor.assoc)

lemma mem_write_pad: "length k \<le> b \<Longrightarrow> mem_write (replicate b 0) 0 k = k @ replicate (b - length k) 0"
  by (simp add: mem_write_def)

lemma ssh_hmac_init_holds:
  assumes "md_total md alg h"
  shows "fst (ssh_hmac_init md (ssh_hmac_start alg) (Some key)) \<and> hmac_holds h key (snd (ssh_hmac_init md (ssh_hmac_start alg) (Some key)))
    \<and> hc_alg (snd (ssh_hmac_init md (ssh_hmac_start alg) (Some key))) = alg"
proof -
  define b where "b = unat (ssh_digest_blocksize alg)"
  have "(if length key \<le> b then Some (mem_write (replicate b 0) 0 key)
      else map_option (mem_write (replicate b 0) 0) (ssh_digest_memory md alg key (of_nat b))) = Some (hmac_key h b key)"
    using assms digest_sizes(2,6,7) [of alg]
    by (auto simp: hmac_key_def mem_write_pad ssh_digest_memory_def md_total_def b_def Let_def)
  then have "ssh_hmac_init md (ssh_hmac_start alg) (Some key) =
      (True, \<lparr>hc_alg = alg, hc_ictx = map (\<lambda>x. x XOR 0x36) (hmac_key h b key), hc_octx = map (\<lambda>x. x XOR 0x5c) (hmac_key h b key),
              hc_digest = map (\<lambda>x. x XOR 0x36) (hmac_key h b key), hc_buf = replicate b 0\<rparr>)"
    by (simp only: ssh_hmac_init_def ssh_hmac_start_def option.case ssh_hmac_ctx.select_convs ssh_hmac_ctx.update_convs Let_def
        length_replicate b_def [symmetric] list.map_comp comp_def xor_pads append_Nil)
  then show ?thesis by (simp add: hmac_holds_def b_def)
qed

lemma ssh_digest_final_total:
  "md_total md alg h \<Longrightarrow> ssh_digest_final md alg st (ssh_digest_bytes alg) = Some (h st)"
  "md_total md alg h \<Longrightarrow> ssh_digest_final md alg st SSH_DIGEST_MAX_LENGTH = Some (h st)"
  using digest_sizes(3,4) [of alg] by (auto simp: ssh_digest_final_def md_total_def SSH_DIGEST_MAX_LENGTH_def)

lemma ssh_hmac_final_hmac:
  assumes md: "md_total md (hc_alg ctx) h" and holds: "hmac_holds h key ctx" and dg: "hc_digest ctx = hc_ictx ctx @ m"
  shows "fst (ssh_hmac_final md ctx SSH_DIGEST_MAX_LENGTH) = Some (hmac h (unat (ssh_digest_blocksize (hc_alg ctx))) key m) \<and>
    hmac_holds h key (snd (ssh_hmac_final md ctx SSH_DIGEST_MAX_LENGTH)) \<and>
    hc_alg (snd (ssh_hmac_final md ctx SSH_DIGEST_MAX_LENGTH)) = hc_alg ctx"
proof -
  define d where "d = h (hc_digest ctx)"
  have d: "length d = unat (ssh_digest_bytes (hc_alg ctx))" using md by (simp add: d_def md_total_def)
  have buf: "length (hc_buf ctx) = unat (ssh_digest_blocksize (hc_alg ctx))" using holds by (simp add: hmac_holds_def Let_def)
  then have "length (mem_write (hc_buf ctx) 0 d) = length (hc_buf ctx)" "take (length d) (mem_write (hc_buf ctx) 0 d) = d"
    using digest_sizes(2) [of "hc_alg ctx"] d by (simp_all add: mem_write_def)
  moreover have "\<not> SSH_DIGEST_MAX_LENGTH < ssh_digest_bytes (hc_alg ctx)"
    using digest_sizes(4) by (simp add: SSH_DIGEST_MAX_LENGTH_def)
  ultimately show ?thesis
    using holds md dg d
    by (simp add: ssh_hmac_final_def ssh_digest_final_total [OF md] Let_def hmac_def hmac_holds_def flip: d_def) (simp add: d_def)
qed

definition mac_ready :: "md_fn \<Rightarrow> (byte list \<Rightarrow> byte list) \<Rightarrow> byte list \<Rightarrow> sshmac \<Rightarrow> bool" where
  "mac_ready md h key mac \<longleftrightarrow> sm_type mac = SSH_DIGEST \<and> sm_mac_len mac \<le> 64 \<and>
     (\<exists>ctx. sm_hmac_ctx mac = Some ctx \<and> md_total md (hc_alg ctx) h \<and> hmac_holds h key ctx)"

definition mac_tag :: "(byte list \<Rightarrow> byte list) \<Rightarrow> byte list \<Rightarrow> sshmac \<Rightarrow> u32 \<Rightarrow> byte list \<Rightarrow> byte list" where
  "mac_tag h key mac seqno data =
     take (unat (sm_mac_len mac)) (hmac h (unat (ssh_digest_blocksize (hc_alg (the (sm_hmac_ctx mac))))) key (POKE_U32 seqno @ data))"

lemma unat_ucast_u32 [simp]: "unat (ucast (x :: u32) :: size_t) = unat x"
  by (simp add: unsigned_ucast_eq take_bit_nat_eq_self_iff) (rule less_trans [OF unsigned_less], simp)

lemma mac_compute_tag:
  assumes "mac_ready md h key mac"
  shows "fst (mac_compute md um mac seqno data SSH_DIGEST_MAX_LENGTH) = Inr (mac_tag h key mac seqno data)"
    "\<exists>ctx. snd (mac_compute md um mac seqno data SSH_DIGEST_MAX_LENGTH) = mac\<lparr>sm_hmac_ctx := Some ctx\<rparr> \<and>
       hmac_holds h key ctx \<and> hc_alg ctx = hc_alg (the (sm_hmac_ctx mac))"
proof -
  obtain ctx where c: "sm_type mac = SSH_DIGEST" "sm_mac_len mac \<le> 64" "sm_hmac_ctx mac = Some ctx" "md_total md (hc_alg ctx) h" "hmac_holds h key ctx"
    using assms by (auto simp: mac_ready_def)
  define x where "x = ssh_hmac_update (ssh_hmac_update (snd (ssh_hmac_init md ctx None)) (POKE_U32 seqno)) data"
  have x: "hc_alg x = hc_alg ctx" "hmac_holds h key x" "hc_digest x = hc_ictx x @ (POKE_U32 seqno @ data)"
    using c(5) by (simp_all add: x_def ssh_hmac_update_def ssh_hmac_init_def hmac_holds_def)
  have f: "fst (ssh_hmac_final md x SSH_DIGEST_MAX_LENGTH) = Some (hmac h (unat (ssh_digest_blocksize (hc_alg ctx))) key (POKE_U32 seqno @ data))"
    "hmac_holds h key (snd (ssh_hmac_final md x SSH_DIGEST_MAX_LENGTH))" "hc_alg (snd (ssh_hmac_final md x SSH_DIGEST_MAX_LENGTH)) = hc_alg ctx"
    using ssh_hmac_final_hmac [of md x h key "POKE_U32 seqno @ data"] x c(4) by simp_all
  have "unat (sm_mac_len mac) \<le> 64" using c(2) by (simp add: word_le_nat_alt)
  then have len: "\<not> SSH_DIGEST_MAX_LENGTH < ucast (sm_mac_len mac)"
    "(if ucast (sm_mac_len mac) < SSH_DIGEST_MAX_LENGTH then ucast (sm_mac_len mac) else SSH_DIGEST_MAX_LENGTH) = ucast (sm_mac_len mac)"
    by (auto simp: SSH_DIGEST_MAX_LENGTH_def word_less_nat_alt word_unat_eq_iff)
  have "mac_compute md um mac seqno data SSH_DIGEST_MAX_LENGTH =
      (Inr (mac_tag h key mac seqno data), mac\<lparr>sm_hmac_ctx := Some (snd (ssh_hmac_final md x SSH_DIGEST_MAX_LENGTH))\<rparr>)"
    using f c(1,3) by (simp add: mac_compute_def len Let_def mac_tag_def case_prod_beta flip: x_def)
  then show "fst (mac_compute md um mac seqno data SSH_DIGEST_MAX_LENGTH) = Inr (mac_tag h key mac seqno data)"
    "\<exists>ctx. snd (mac_compute md um mac seqno data SSH_DIGEST_MAX_LENGTH) = mac\<lparr>sm_hmac_ctx := Some ctx\<rparr> \<and>
       hmac_holds h key ctx \<and> hc_alg ctx = hc_alg (the (sm_hmac_ctx mac))"
    using f(2,3) c(3) by (fastforce simp del: sshmac.update_convs)+
qed

lemma hmac_length: "md_total md alg h \<Longrightarrow> length (hmac h b key m) = unat (ssh_digest_bytes alg)"
  by (simp add: hmac_def md_total_def Let_def)

lemma mac_ready_step:
  assumes "mac_ready md h key mac" "mac' = snd (mac_compute md um mac seqno data SSH_DIGEST_MAX_LENGTH)"
  shows "mac_ready md h key mac' \<and> mac_tag h key mac' = mac_tag h key mac \<and> sm_mac_len mac' = sm_mac_len mac"
  using mac_compute_tag(2) [OF assms(1), of um seqno data] assms
  by (auto simp: mac_ready_def mac_tag_def fun_eq_iff)

lemma mac_init_ready:
  assumes "sm_type mac = SSH_DIGEST" "sm_hmac_ctx mac = Some (ssh_hmac_start alg)" "md_total md alg h" "sm_mac_len mac \<le> 64"
    "sm_key mac = Some key" "length key = unat (sm_key_len mac)"
  shows "fst (mac_init md made mac) = Inr () \<and> mac_ready md h key (snd (mac_init md made mac))"
  using ssh_hmac_init_holds [OF assms(3), of key] assms
  by (auto simp: mac_init_def mac_ready_def case_prod_beta)

lemma mac_check_tag:
  assumes "mac_ready md h key mac" "unat (sm_mac_len mac) \<le> unat (ssh_digest_bytes (hc_alg (the (sm_hmac_ctx mac))))"
    "unat (sm_mac_len mac) \<le> unat mlen" "unat mlen \<le> length theirmac"
  shows "fst (mac_check md um mac seqno data theirmac mlen) =
    (if take (unat (sm_mac_len mac)) theirmac = mac_tag h key mac seqno data then Inr () else Inl SSH_ERR_MAC_INVALID)"
proof -
  obtain mac' where m: "mac_compute md um mac seqno data SSH_DIGEST_MAX_LENGTH = (Inr (mac_tag h key mac seqno data), mac')"
    using mac_compute_tag(1) [OF assms(1), of um seqno data] by (metis prod.collapse)
  have l: "sm_mac_len mac' = sm_mac_len mac" using mac_ready_step [OF assms(1), of mac' um seqno data] m by simp
  obtain alg where "md_total md alg h" "alg = hc_alg (the (sm_hmac_ctx mac))" using assms(1) by (auto simp: mac_ready_def)
  then have "length (mac_tag h key mac seqno data) = unat (sm_mac_len mac)"
    using assms(2) by (simp add: mac_tag_def hmac_length)
  moreover have "\<not> mlen < ucast (sm_mac_len mac)" using assms(3) by (simp add: word_less_nat_alt)
  ultimately show ?thesis using assms(3,4)
    by (auto simp: mac_check_def m l timingsafe_bcmp_iff)
qed

text \<open>
  C13: The packet codes are HMAC. For every digest that behaves as one, a code set up by its name
  and initialised with its key gives, for every packet of the connection, the first bytes of the
  HMAC of the key over the sequence number and the packet, as many as its table entry says; the
  check accepts a received code exactly when it is that value.
\<close>

theorem mac_compute_hmac:
  assumes "mac_by_name name = Some a" "ma_type a = SSH_DIGEST" "mac_setup hs mac0 name = (Inr (), mac1)"
    and "length key = unat (sm_key_len mac1)" "md_total md (ma_alg a) h"
    and "mac_init md made (mac1\<lparr>sm_key := Some key\<rparr>) = (r, mac2)"
    and "mac = fold (\<lambda>(seqno, data) m. snd (mac_compute md um m seqno data SSH_DIGEST_MAX_LENGTH)) packets mac2"
    and "tag = take (unat (sm_mac_len mac1)) (hmac h (unat (ssh_digest_blocksize (ma_alg a))) key (POKE_U32 seqno @ data))"
    and "length theirmac = unat (sm_mac_len mac1)"
  shows "r = Inr () \<and> fst (mac_compute md um mac seqno data SSH_DIGEST_MAX_LENGTH) = Inr tag \<and>
    fst (mac_check md um mac seqno data theirmac (ucast (sm_mac_len mac1))) = (if theirmac = tag then Inr () else Inl SSH_ERR_MAC_INVALID)"
proof -
  have set: "a \<in> set macs" using assms(1) by (simp add: mac_by_name_in)
  have m1: "sm_type mac1 = SSH_DIGEST" "sm_hmac_ctx mac1 = Some (ssh_hmac_start (ma_alg a))"
    "sm_mac_len mac1 = (if ma_truncatebits a \<noteq> 0 then ma_truncatebits a div 8 else ucast (ssh_hmac_bytes (ma_alg a)))"
    using assms(1-3) by (auto simp: mac_setup_def mac_setup_by_alg_def Let_def split: if_splits)
  have len: "sm_mac_len mac1 \<le> 64" "unat (sm_mac_len mac1) \<le> unat (ssh_digest_bytes (ma_alg a))"
    using set assms(2) unfolding m1(3) by (auto simp: macs_def mac_entry_def ssh_hmac_bytes_def)
  have i: "r = Inr ()" "mac_ready md h key mac2" "hc_alg (the (sm_hmac_ctx mac2)) = ma_alg a" "sm_mac_len mac2 = sm_mac_len mac1"
    using mac_init_ready [of "mac1\<lparr>sm_key := Some key\<rparr>" "ma_alg a" md h key made] ssh_hmac_init_holds [OF assms(5), of key] m1 len assms(4-6)
    by (auto simp: mac_init_def case_prod_beta)
  have "mac_ready md h key m \<Longrightarrow> hc_alg (the (sm_hmac_ctx m)) = ma_alg a \<Longrightarrow> sm_mac_len m = sm_mac_len mac1 \<Longrightarrow>
      m' = fold (\<lambda>(seqno, data) m. snd (mac_compute md um m seqno data SSH_DIGEST_MAX_LENGTH)) packets m \<Longrightarrow>
      mac_ready md h key m' \<and> hc_alg (the (sm_hmac_ctx m')) = ma_alg a \<and> sm_mac_len m' = sm_mac_len mac1" for m m'
  proof (induction packets arbitrary: m)
    case (Cons p ps)
    obtain n d where p: "p = (n, d)" by (cases p)
    show ?case using Cons mac_ready_step [OF Cons.prems(1) refl, of um n d] mac_compute_tag(2) [OF Cons.prems(1), of um n d] by (auto simp: p)
  qed simp
  from this [OF i(2-4) assms(7)] have m: "mac_ready md h key mac" "hc_alg (the (sm_hmac_ctx mac)) = ma_alg a" "sm_mac_len mac = sm_mac_len mac1" by simp_all
  have "mac_tag h key mac seqno data = tag" by (simp add: mac_tag_def m assms(8))
  with mac_compute_tag(1) [OF m(1), of um seqno data] mac_check_tag [OF m(1), of "ucast (sm_mac_len mac1)" theirmac um seqno data]
  show ?thesis using i(1) len(2) m assms(9) by simp
qed

text \<open>A digest that only counts the bytes stands for SHA-256.\<close>

definition toy_md :: md_fn where
  "toy_md alg m = Some (take (unat (ssh_digest_bytes alg)) (rev m @ replicate 64 1))"

theorem mac_compute_hmac_witness:
  "\<exists>mac1 mac2. mac_setup (\<lambda>_. True) sshmac_zero ''hmac-sha2-256'' = (Inr (), mac1) \<and>
     mac_init toy_md True (mac1\<lparr>sm_key := Some (replicate 32 7)\<rparr>) = (Inr (), mac2) \<and>
     fst (mac_compute toy_md (\<lambda>_ _ _ _. []) mac2 3 [1, 2] SSH_DIGEST_MAX_LENGTH) =
       Inr (take 32 (hmac (\<lambda>m. the (toy_md SSH_DIGEST_SHA256 m)) 64 (replicate 32 7) (POKE_U32 3 @ [1, 2])))"
proof -
  define a where "a = mac_entry ''hmac-sha2-256'' SSH_DIGEST SSH_DIGEST_SHA256 0 0 0 False"
  define mac1 where "mac1 = snd (mac_setup (\<lambda>_. True) sshmac_zero ''hmac-sha2-256'')"
  have a: "mac_by_name ''hmac-sha2-256'' = Some a" by (simp add: mac_by_name_def macs_def mac_entry_def a_def)
  have s: "mac_setup (\<lambda>_. True) sshmac_zero ''hmac-sha2-256'' = (Inr (), mac1)" "sm_key_len mac1 = 32" "sm_mac_len mac1 = 32"
    by (simp_all add: mac1_def mac_setup_def a) (simp_all add: mac_setup_by_alg_def a_def mac_entry_def Let_def ssh_hmac_bytes_def)
  obtain r mac2 where i: "mac_init toy_md True (mac1\<lparr>sm_key := Some (replicate 32 7)\<rparr>) = (r, mac2)"
    by (cases "mac_init toy_md True (mac1\<lparr>sm_key := Some (replicate 32 7)\<rparr>)")
  have md: "md_total toy_md (ma_alg a) (\<lambda>m. the (toy_md SSH_DIGEST_SHA256 m))"
    by (auto simp: md_total_def toy_md_def a_def mac_entry_def min_def)
  show ?thesis
    using mac_compute_hmac [OF a _ s(1) _ md i refl refl, where um = "\<lambda>_ _ _ _. []" and packets = "[]" and seqno = 3 and data = "[1, 2]" and theirmac = "replicate 32 0"] s i
    by (simp add: a_def mac_entry_def)
qed

end
