(* ===== verification/Cipher.thy ===== *)
theory Cipher
  imports Algorithms Chachapoly
begin

text \<open>
  Cipher contexts (\<^verbatim>\<open>cipher.c\<close>, in a build with the OpenSSL library). The library is the parameter \<open>E\<close>,
  a record of the functions the code calls on a library context; each of them may fail and changes
  the context. \<open>tmp\<close> is what the stack of the repository's own cipher holds. The locale
  \<open>cipher_pair\<close> is what the packet layer relies on of the two ends of a connection.
\<close>

section \<open>The code\<close>

record 'e evp =
  evp_new :: "'e option"
  evp_init_iv :: "sshcipher \<Rightarrow> byte list option \<Rightarrow> bool \<Rightarrow> 'e \<Rightarrow> bool \<times> 'e"
  evp_set_iv_fixed :: "byte list option \<Rightarrow> 'e \<Rightarrow> bool \<times> 'e"
  evp_key_length :: "'e \<Rightarrow> int"
  evp_set_key_length :: "u32 \<Rightarrow> 'e \<Rightarrow> bool \<times> 'e"
  evp_init_key :: "byte list option \<Rightarrow> 'e \<Rightarrow> bool \<times> 'e"
  evp_iv_gen :: "'e \<Rightarrow> bool \<times> 'e"
  evp_set_tag :: "byte list \<Rightarrow> 'e \<Rightarrow> bool \<times> 'e"
  evp_aad :: "byte list \<Rightarrow> 'e \<Rightarrow> bool \<times> 'e"
  evp_cipher :: "byte list \<Rightarrow> 'e \<Rightarrow> byte list option \<times> 'e"
  evp_final :: "'e \<Rightarrow> bool \<times> 'e"
  evp_get_tag :: "nat \<Rightarrow> 'e \<Rightarrow> byte list option \<times> 'e"

record 'e sshcipher_ctx =
  sc_plaintext :: bool
  sc_encrypt :: bool
  sc_evp :: "'e option"
  sc_cp_ctx :: "chachapoly_ctx option"
  sc_cipher :: sshcipher

definition cipher_ctx_is_plaintext :: "'e sshcipher_ctx \<Rightarrow> bool" where
  "cipher_ctx_is_plaintext cc = sc_plaintext cc"

definition SIZEOF_CIPHER_CTX :: size_t where "SIZEOF_CIPHER_CTX = 48"

text \<open>The calls that set up a library context, in order; the first that fails ends them.\<close>

fun evp_calls :: "(('e \<Rightarrow> bool \<times> 'e) \<times> ssherr) list \<Rightarrow> 'e \<Rightarrow> 'e res" where
  "evp_calls [] e = Inr e"
| "evp_calls ((f, err) # fs) e = (let (ok, e') = f e in if ok then evp_calls fs e' else Inl err)"

definition cipher_init :: "'e evp \<Rightarrow> allocator \<Rightarrow> sshcipher \<Rightarrow> byte list option \<Rightarrow> u32 \<Rightarrow> byte list option \<Rightarrow> u32 \<Rightarrow> bool \<Rightarrow>
    'e sshcipher_ctx res" where
  "cipher_init E am cipher key keylen iv ivlen do_encrypt =
     (if am SIZEOF_CIPHER_CTX = NULL then Inl SSH_ERR_ALLOC_FAIL
      else let cc = \<lparr>sc_plaintext = CFLAG_NONE \<in> ciph_flags cipher, sc_encrypt = do_encrypt, sc_evp = None, sc_cp_ctx = None,
                     sc_cipher = cipher\<rparr>
        in if keylen < ciph_key_len cipher \<or> iv \<noteq> None \<and> ivlen < cipher_ivlen cipher then Inl SSH_ERR_INVALID_ARGUMENT
           else if CFLAG_CHACHAPOLY \<in> ciph_flags cipher then
             (case chachapoly_new am (the key) keylen of
                None \<Rightarrow> Inl SSH_ERR_INVALID_ARGUMENT
              | Some cp \<Rightarrow> Inr (cc\<lparr>sc_cp_ctx := Some cp\<rparr>))
           else if CFLAG_NONE \<in> ciph_flags cipher then Inr cc
           else case evp_new E of
                  None \<Rightarrow> Inl SSH_ERR_ALLOC_FAIL
                | Some e \<Rightarrow>
                    case evp_calls
                      [(evp_init_iv E cipher iv do_encrypt, SSH_ERR_LIBCRYPTO_ERROR),
                       (\<lambda>e. if cipher_authlen cipher \<noteq> 0 then evp_set_iv_fixed E iv e else (True, e), SSH_ERR_LIBCRYPTO_ERROR),
                       (\<lambda>e. if evp_key_length E e > 0 \<and> int (unat keylen) \<noteq> evp_key_length E e then evp_set_key_length E keylen e
                            else (True, e), SSH_ERR_LIBCRYPTO_ERROR),
                       (evp_init_key E key, SSH_ERR_LIBCRYPTO_ERROR)] e of
                      Inl err \<Rightarrow> Inl err
                    | Inr e \<Rightarrow> Inr (cc\<lparr>sc_evp := Some e\<rparr>))"

text \<open>
  The bytes written to \<open>dest\<close> are the result. Of a context that has no \<open>evp\<close> the code would follow a
  null pointer; \<^verbatim>\<open>cipher_init\<close> gives it one unless another branch is taken.
\<close>

definition evp_crypt :: "'e evp \<Rightarrow> bool \<Rightarrow> sshcipher \<Rightarrow> 'e \<Rightarrow> byte list \<Rightarrow> u32 \<Rightarrow> u32 \<Rightarrow> u32 \<Rightarrow> byte list res \<times> 'e" where
  "evp_crypt E encrypt cipher e src len aadlen authlen =
     (let aad = take (unat aadlen) src; text = take (unat len) (drop (unat aadlen) src) in
      if authlen \<noteq> 0 \<and> authlen \<noteq> cipher_authlen cipher then (Inl SSH_ERR_INVALID_ARGUMENT, e) else
      let (ok, e) = (if authlen \<noteq> 0 then evp_iv_gen E e else (True, e)) in
      if \<not> ok then (Inl SSH_ERR_LIBCRYPTO_ERROR, e) else
      let (ok, e) = (if authlen \<noteq> 0 \<and> \<not> encrypt
                     then evp_set_tag E (take (unat authlen) (drop (unat aadlen + unat len) src)) e else (True, e)) in
      if \<not> ok then (Inl SSH_ERR_LIBCRYPTO_ERROR, e) else
      let (ok, e) = (if aadlen \<noteq> 0 \<and> authlen \<noteq> 0 then evp_aad E aad e else (True, e)) in
      if \<not> ok then (Inl SSH_ERR_LIBCRYPTO_ERROR, e) else
      if len mod ciph_block_size cipher \<noteq> 0 then (Inl SSH_ERR_INVALID_ARGUMENT, e) else
      let (out, e) = evp_cipher E text e in
      case out of
        None \<Rightarrow> (Inl SSH_ERR_LIBCRYPTO_ERROR, e)
      | Some out \<Rightarrow>
          if authlen = 0 then (Inr (aad @ out), e) else
          let (ok, e) = evp_final E e in
          if \<not> ok then (Inl (if encrypt then SSH_ERR_LIBCRYPTO_ERROR else SSH_ERR_MAC_INVALID), e)
          else if \<not> encrypt then (Inr (aad @ out), e)
          else let (tag, e) = evp_get_tag E (unat authlen) e in
               case tag of None \<Rightarrow> (Inl SSH_ERR_LIBCRYPTO_ERROR, e) | Some t \<Rightarrow> (Inr (aad @ out @ t), e))"

definition cipher_crypt :: "'e evp \<Rightarrow> byte list \<Rightarrow> 'e sshcipher_ctx \<Rightarrow> u32 \<Rightarrow> byte list \<Rightarrow> u32 \<Rightarrow> u32 \<Rightarrow> u32 \<Rightarrow>
    byte list res \<times> 'e sshcipher_ctx" where
  "cipher_crypt E tmp cc seqnr src len aadlen authlen =
     (if CFLAG_CHACHAPOLY \<in> ciph_flags (sc_cipher cc) then
        let (r, cp) = chachapoly_crypt tmp (the (sc_cp_ctx cc)) seqnr src len aadlen authlen (sc_encrypt cc)
        in (r, cc\<lparr>sc_cp_ctx := Some cp\<rparr>)
      else if CFLAG_NONE \<in> ciph_flags (sc_cipher cc) then (Inr (take (unat (aadlen + len)) src), cc)
      else let (r, e) = evp_crypt E (sc_encrypt cc) (sc_cipher cc) (the (sc_evp cc)) src len aadlen authlen
           in (r, cc\<lparr>sc_evp := Some e\<rparr>))"

definition cipher_get_length :: "byte list \<Rightarrow> 'e sshcipher_ctx \<Rightarrow> u32 \<Rightarrow> byte list \<Rightarrow> u32 \<Rightarrow> u32 res \<times> 'e sshcipher_ctx" where
  "cipher_get_length tmp cc seqnr cp len =
     (if CFLAG_CHACHAPOLY \<in> ciph_flags (sc_cipher cc) then
        let (r, ctx) = chachapoly_get_length tmp (the (sc_cp_ctx cc)) seqnr cp len in (r, cc\<lparr>sc_cp_ctx := Some ctx\<rparr>)
      else if len < 4 then (Inl SSH_ERR_MESSAGE_INCOMPLETE, cc)
      else (Inr (PEEK_U32 cp), cc))"

section \<open>The two ends of a connection\<close>

text \<open>
  What the packet layer relies on. A sealed packet is opened to what was sealed, whatever follows it
  in the buffer; its length can be read before; a packet without a tag can be opened in two parts;
  and the ends stay a pair.
\<close>

locale cipher_pair =
  fixes E :: "'e evp" and paired :: "'e sshcipher_ctx \<Rightarrow> 'e sshcipher_ctx \<Rightarrow> bool"
  assumes pair_cipher: "paired c d \<Longrightarrow> sc_cipher d = sc_cipher c \<and> sc_plaintext d = sc_plaintext c"
    and pair_length: "paired c d \<Longrightarrow> length tmp = 64 \<Longrightarrow> paired c (snd (cipher_get_length tmp d seqnr cp n))"
    and open_sealed: "paired c d \<Longrightarrow> length tmp = 64 \<Longrightarrow> length tmp' = 64 \<Longrightarrow> authlen = cipher_authlen (sc_cipher c) \<Longrightarrow>
      length src = unat aadlen + unat len \<Longrightarrow> length src < 2 ^ 32 \<Longrightarrow> aadlen = 4 \<or> aadlen = 0 \<and> authlen = 0 \<Longrightarrow>
      cipher_crypt E tmp c seqnr src len aadlen authlen = (Inr w, c') \<Longrightarrow>
      length w = length src + unat authlen \<and>
      (aadlen = 4 \<longrightarrow> 4 \<le> n \<longrightarrow> fst (cipher_get_length tmp' d seqnr (w @ rest) n) = Inr (PEEK_U32 src)) \<and>
      (\<exists>d'. cipher_crypt E tmp' d seqnr (w @ rest) len aadlen authlen = (Inr src, d') \<and> paired c' d')"
    and open_parts: "paired c d \<Longrightarrow> length tmp = 64 \<Longrightarrow> length tmp' = 64 \<Longrightarrow> cipher_authlen (sc_cipher c) = 0 \<Longrightarrow>
      length a = unat n \<Longrightarrow> length b = unat m \<Longrightarrow> unat n + unat m < 2 ^ 32 \<Longrightarrow>
      n mod ciph_block_size (sc_cipher c) = 0 \<Longrightarrow> m mod ciph_block_size (sc_cipher c) = 0 \<Longrightarrow>
      cipher_crypt E tmp c seqnr (a @ b) (n + m) 0 0 = (Inr w, c') \<Longrightarrow>
      length w = length a + length b \<and>
      (\<exists>d1 d2. cipher_crypt E tmp' d s1 (w @ rest) n 0 0 = (Inr a, d1) \<and>
        cipher_crypt E tmp' d1 s2 (drop (unat n) w @ rest) m 0 0 = (Inr b, d2) \<and> paired c' d2)"

text \<open>The ciphers that need no library: the authenticated cipher and none.\<close>

definition own_paired :: "'e sshcipher_ctx \<Rightarrow> 'e sshcipher_ctx \<Rightarrow> bool" where
  "own_paired c d \<longleftrightarrow> sc_cipher d = sc_cipher c \<and> sc_plaintext d = sc_plaintext c \<and>
     (CFLAG_CHACHAPOLY \<in> ciph_flags (sc_cipher c) \<and> ciph_auth_len (sc_cipher c) = 16 \<and> sc_encrypt c \<and> \<not> sc_encrypt d \<and>
        (\<exists>k hk cp dp. sc_cp_ctx c = Some cp \<and> sc_cp_ctx d = Some dp \<and> ctx_keyed k hk cp \<and> ctx_keyed k hk dp) \<or>
      CFLAG_CHACHAPOLY \<notin> ciph_flags (sc_cipher c) \<and> CFLAG_NONE \<in> ciph_flags (sc_cipher c) \<and> ciph_auth_len (sc_cipher c) = 0)"

lemma chachapoly_get_length_keyed:
  assumes "ctx_keyed k hk dp" "length tmp = 64"
  shows "ctx_keyed k hk (snd (chachapoly_get_length tmp dp seqnr cp n))"
    "4 \<le> n \<Longrightarrow> fst (chachapoly_get_length tmp dp seqnr cp n) = Inr (PEEK_U32 (xor_stream (seq_state hk seqnr 0) (take 4 cp)))"
  using assms chacha_keyed_run [OF _ assms(2), of hk "header_ctx dp" seqnr 0 "take 4 cp"]
  by (auto simp: chachapoly_get_length_def Let_def ctx_keyed_def chacha_ivsetup_state case_prod_beta linorder_not_less)

lemma chachapoly_open_sealed:
  assumes k: "ctx_keyed k hk cp" "ctx_keyed k hk dp" and tmp: "length tmp = 64" "length tmp' = 64"
    and len: "length src = 4 + unat len" "length src < 2 ^ 32"
    and c: "chachapoly_crypt tmp cp seqnr src len 4 16 True = (Inr w, cp')"
  shows "length w = length src + 16" "4 \<le> n \<Longrightarrow> fst (chachapoly_get_length tmp' dp seqnr (w @ rest) n) = Inr (PEEK_U32 src)"
    "\<exists>dp'. chachapoly_crypt tmp' dp seqnr (w @ rest) len 4 16 False = (Inr src, dp') \<and> ctx_keyed k hk dp' \<and> ctx_keyed k hk cp'"
proof -
  have n: "unat (4 + len) = unat (4 :: u32) + unat len" using len unat_add_small [of 4 len] by simp
  have w: "w = seal k hk seqnr (take 4 src) (drop 4 src)" "ctx_keyed k hk cp'"
    using chachapoly_crypt_eq [OF k(1) tmp(1) n, of True src seqnr 16] c len(1) by simp_all
  then show "length w = length src + 16" using len(1) by simp
  show "4 \<le> n \<Longrightarrow> fst (chachapoly_get_length tmp' dp seqnr (w @ rest) n) = Inr (PEEK_U32 src)"
    using chachapoly_get_length_keyed(2) [OF k(2) tmp(2), of n seqnr "w @ rest"] len(1) by (simp add: w seal_def seal_body_def)
  have "opens k seqnr (w @ rest) (4 + unat len)" using len(1) by (simp add: w opens_def seal_def)
  moreover have "seal_body k hk seqnr (take 4 (w @ rest)) (take (unat len) (drop 4 (w @ rest))) = src"
    using len(1) by (simp add: w seal_def seal_body_def)
  ultimately show "\<exists>dp'. chachapoly_crypt tmp' dp seqnr (w @ rest) len 4 16 False = (Inr src, dp') \<and> ctx_keyed k hk dp' \<and> ctx_keyed k hk cp'"
    using chachapoly_crypt_eq [OF k(2) tmp(2) n, of False "w @ rest" seqnr 16] len(1) w
    by (simp add: prod_eq_iff)
qed

lemma own_paired_cases:
  assumes "own_paired c d"
  obtains (chachapoly) k hk cp dp where "sc_cp_ctx c = Some cp" "sc_cp_ctx d = Some dp" "ctx_keyed k hk cp" "ctx_keyed k hk dp"
      "CFLAG_CHACHAPOLY \<in> ciph_flags (sc_cipher c)" "cipher_authlen (sc_cipher c) = 16" "sc_encrypt c" "\<not> sc_encrypt d"
    | (none) "CFLAG_CHACHAPOLY \<notin> ciph_flags (sc_cipher c)" "CFLAG_NONE \<in> ciph_flags (sc_cipher c)" "cipher_authlen (sc_cipher c) = 0"
  using assms by (auto simp: own_paired_def cipher_authlen_def)

lemma own_paired_sealed:
  assumes p: "own_paired c d" and a: "length tmp = 64" "length tmp' = 64" "authlen = cipher_authlen (sc_cipher c)"
      "length src = unat aadlen + unat len" "length src < 2 ^ 32" "aadlen = 4 \<or> aadlen = 0 \<and> authlen = 0"
      "cipher_crypt E tmp c seqnr src len aadlen authlen = (Inr w, c')"
  shows "length w = length src + unat authlen \<and>
      (aadlen = 4 \<longrightarrow> 4 \<le> n \<longrightarrow> fst (cipher_get_length tmp' d seqnr (w @ rest) n) = Inr (PEEK_U32 src)) \<and>
      (\<exists>d'. cipher_crypt E tmp' d seqnr (w @ rest) len aadlen authlen = (Inr src, d') \<and> own_paired c' d')"
proof -
  have d: "sc_cipher d = sc_cipher c" "sc_plaintext d = sc_plaintext c" using p by (simp_all add: own_paired_def)
  show ?thesis
    using p
  proof (cases rule: own_paired_cases)
    case (chachapoly k hk cp dp)
    have al: "authlen = 16" "aadlen = 4" using a(3,6) chachapoly(6) by auto
    obtain cp' where c: "chachapoly_crypt tmp cp seqnr src len 4 16 True = (Inr w, cp')" "c' = c\<lparr>sc_cp_ctx := Some cp'\<rparr>"
      using a(7) chachapoly al by (auto simp: cipher_crypt_def split: prod.splits)
    have "length src = 4 + unat len" using a(4) al by simp
    note o = chachapoly_open_sealed [OF chachapoly(3,4) a(1,2) this a(5) c(1)]
    obtain dp' where "chachapoly_crypt tmp' dp seqnr (w @ rest) len 4 16 False = (Inr src, dp')" "ctx_keyed k hk dp'" "ctx_keyed k hk cp'"
      using o(3) by blast
    then show ?thesis using o(1,2) chachapoly d c(2)
      by (auto simp: cipher_crypt_def cipher_get_length_def own_paired_def al case_prod_beta cipher_authlen_def)
  next
    case none
    have n: "unat (aadlen + len) = length src" using a(4,5) unat_add_small [of aadlen len] by simp
    have w: "w = src" "c' = c" "authlen = 0" using a(7,3) none n by (auto simp: cipher_crypt_def)
    moreover have "PEEK_U32 (src @ rest) = PEEK_U32 src" if "aadlen = 4"
      using that a(4) by (simp add: PEEK_U32_def nth_append)
    ultimately show ?thesis using none n d p by (auto simp: cipher_crypt_def cipher_get_length_def linorder_not_less [symmetric])
  qed
qed

interpretation own_ciphers: cipher_pair E own_paired for E :: "'e evp"
proof unfold_locales
  fix c d :: "'e sshcipher_ctx" assume p: "own_paired c d"
  then show "sc_cipher d = sc_cipher c \<and> sc_plaintext d = sc_plaintext c" by (simp add: own_paired_def)
  show "length tmp = 64 \<Longrightarrow> own_paired c (snd (cipher_get_length tmp d seqnr cp n))" for tmp seqnr cp n
    using p by (auto simp: own_paired_def cipher_get_length_def case_prod_beta) (blast intro: chachapoly_get_length_keyed(1))+
next
  fix c d :: "'e sshcipher_ctx" and tmp tmp' :: "byte list" and a b w rest :: "byte list" and n m s1 s2 seqnr :: u32 and c'
  assume p: "own_paired c d" and a: "cipher_authlen (sc_cipher c) = 0" "length a = unat n" "length b = unat m" "unat n + unat m < 2 ^ 32"
    "cipher_crypt E tmp c seqnr (a @ b) (n + m) 0 0 = (Inr w, c')"
  have nm: "unat (n + m) = unat n + unat m" using a(4) unat_add_small [of n m] by simp
  show "length w = length a + length b \<and>
      (\<exists>d1 d2. cipher_crypt E tmp' d s1 (w @ rest) n 0 0 = (Inr a, d1) \<and>
        cipher_crypt E tmp' d1 s2 (drop (unat n) w @ rest) m 0 0 = (Inr b, d2) \<and> own_paired c' d2)"
    using p
  proof (cases rule: own_paired_cases)
    case none
    then have "w = a @ b" "c' = c" "sc_cipher d = sc_cipher c" using a nm p by (auto simp: cipher_crypt_def own_paired_def)
    then show ?thesis using none a p by (auto simp: cipher_crypt_def)
  qed (use a in simp)
qed (rule own_paired_sealed)

end
