(* ===== verification/Packet.thy ===== *)
theory Packet
  imports Kex Mac Cipher
begin

text \<open>
  The packet layer (\<^verbatim>\<open>packet.c\<close>): how a packet is padded, authenticated, encrypted and put on the output
  buffer, how the bytes of the input buffer become packets again, and how packets wait in a queue
  while keys are exchanged. The two structures \<^verbatim>\<open>struct ssh\<close> and \<^verbatim>\<open>struct session_state\<close> are one record.
  What the calls take from outside is the record \<open>penv\<close>: memory, the library, the digests, the random
  bytes of a call, the clock, the stack of the cipher and what the socket takes of the output. The
  build is one without zlib, so that compression never starts, and there is no hook for incoming
  packets.
\<close>

section \<open>State\<close>

record 'e penv =
  px_alloc :: allocator
  px_evp :: "'e evp"
  px_md :: md_fn
  px_umac :: umac_fn
  px_umac_made :: bool
  px_tmp :: "byte list"
  px_random :: "nat \<Rightarrow> byte list"
  px_now :: int
  px_write_wait :: "sshbuf \<Rightarrow> unit res \<times> sshbuf"

record packet_state =
  ps_seqnr :: u32
  ps_packets :: u32
  ps_blocks :: u64
  ps_bytes :: u64

record pktent =
  pk_type :: byte
  pk_payload :: sshbuf

record 'e session_state =
  ss_receive_context :: "'e sshcipher_ctx option"
  ss_send_context :: "'e sshcipher_ctx option"
  ss_input :: sshbuf
  ss_output :: sshbuf
  ss_outgoing_packet :: sshbuf
  ss_incoming_packet :: sshbuf
  ss_compression_buffer :: "sshbuf option"
  ss_server_side :: bool
  ss_after_authentication :: bool
  ss_keep_alive_timeouts :: int
  ss_newkeys :: "kex_mode \<Rightarrow> newkeys option"
  ss_p_read :: packet_state
  ss_p_send :: packet_state
  ss_max_blocks_in :: u64
  ss_max_blocks_out :: u64
  ss_rekey_limit :: u64
  ss_rekey_interval :: u32
  ss_rekey_time :: int
  ss_extra_pad :: byte
  ss_packet_discard :: u32
  ss_packet_discard_mac_already :: size_t
  ss_packet_discard_mac :: bool
  ss_packlen :: u32
  ss_rekeying :: bool
  ss_mux :: bool
  ss_outgoing :: "pktent list"

record 'e ssh = "'e session_state" +
  ssh_kex :: "kex option"
  ssh_compat :: "compat_flag set"

definition PACKET_MAX_SIZE :: u32 where "PACKET_MAX_SIZE = 256 * 1024"
definition MAX_PACKETS :: u32 where "MAX_PACKETS = 0x80000000"

abbreviation (input) SSH_MSG_NONE :: byte where "SSH_MSG_NONE \<equiv> 0"
abbreviation (input) SSH2_MSG_DISCONNECT :: byte where "SSH2_MSG_DISCONNECT \<equiv> 1"
abbreviation (input) SSH2_MSG_IGNORE :: byte where "SSH2_MSG_IGNORE \<equiv> 2"
abbreviation (input) SSH2_MSG_UNIMPLEMENTED :: byte where "SSH2_MSG_UNIMPLEMENTED \<equiv> 3"
abbreviation (input) SSH2_MSG_DEBUG :: byte where "SSH2_MSG_DEBUG \<equiv> 4"
abbreviation (input) SSH2_MSG_SERVICE_REQUEST :: byte where "SSH2_MSG_SERVICE_REQUEST \<equiv> 5"
abbreviation (input) SSH2_MSG_SERVICE_ACCEPT :: byte where "SSH2_MSG_SERVICE_ACCEPT \<equiv> 6"
abbreviation (input) SSH2_MSG_EXT_INFO :: byte where "SSH2_MSG_EXT_INFO \<equiv> 7"
abbreviation (input) SSH2_MSG_KEXINIT :: byte where "SSH2_MSG_KEXINIT \<equiv> 20"
abbreviation (input) SSH2_MSG_NEWKEYS :: byte where "SSH2_MSG_NEWKEYS \<equiv> 21"
abbreviation (input) SSH2_MSG_USERAUTH_SUCCESS :: byte where "SSH2_MSG_USERAUTH_SUCCESS \<equiv> 52"
abbreviation (input) SSH2_MSG_PING :: byte where "SSH2_MSG_PING \<equiv> 192"
abbreviation (input) SSH2_MSG_PONG :: byte where "SSH2_MSG_PONG \<equiv> 193"

text \<open>What a direction's keys make of a packet. The code for the tag of a cipher disables the MAC.\<close>

definition keys_authlen :: "newkeys option \<Rightarrow> u32" where
  "keys_authlen nk = (case nk of None \<Rightarrow> 0 | Some n \<Rightarrow> cipher_authlen (the (en_cipher (nk_enc n))))"

definition keys_mac :: "newkeys option \<Rightarrow> sshmac option" where
  "keys_mac nk = (case nk of None \<Rightarrow> None | Some n \<Rightarrow> if keys_authlen nk \<noteq> 0 then None else Some (nk_mac n))"

text \<open>The MAC, when it is enabled.\<close>

definition live_mac :: "newkeys option \<Rightarrow> sshmac option" where
  "live_mac nk = (case keys_mac nk of None \<Rightarrow> None | Some m \<Rightarrow> if sm_enabled m then Some m else None)"

definition keys_block_size :: "newkeys option \<Rightarrow> u32" where
  "keys_block_size nk = (case nk of None \<Rightarrow> 8 | Some n \<Rightarrow> en_block_size (nk_enc n))"

definition keys_etm :: "newkeys option \<Rightarrow> bool" where
  "keys_etm nk \<longleftrightarrow> (case live_mac nk of None \<Rightarrow> False | Some m \<Rightarrow> sm_etm m)"

definition keys_aadlen :: "newkeys option \<Rightarrow> u32" where
  "keys_aadlen nk = (if keys_etm nk \<or> keys_authlen nk \<noteq> 0 then 4 else 0)"

definition set_keys_mac :: "kex_mode \<Rightarrow> sshmac \<Rightarrow> 'e ssh \<Rightarrow> 'e ssh" where
  "set_keys_mac mode m s = s\<lparr>ss_newkeys := (ss_newkeys s)(mode := map_option (nk_mac_update (\<lambda>_. m)) (ss_newkeys s mode))\<rparr>"

section \<open>New keys\<close>

text \<open>Without zlib both directions fail to start.\<close>

definition ssh_packet_init_compression :: "'e penv \<Rightarrow> 'e ssh \<Rightarrow> unit res \<times> 'e ssh" where
  "ssh_packet_init_compression px s =
     (if ss_compression_buffer s \<noteq> None then (Inr (), s)
      else case sshbuf_new (px_alloc px) of
             None \<Rightarrow> (Inl SSH_ERR_ALLOC_FAIL, s)
           | Some b \<Rightarrow> (Inr (), s\<lparr>ss_compression_buffer := Some b\<rparr>))"

definition start_compression_out :: "unit res" where "start_compression_out = Inl SSH_ERR_INTERNAL_ERROR"
definition start_compression_in :: "unit res" where "start_compression_in = Inl SSH_ERR_INTERNAL_ERROR"

definition start_compression :: "'e penv \<Rightarrow> kex_mode \<Rightarrow> 'e ssh \<Rightarrow> unit res \<times> 'e ssh" where
  "start_compression px mode s =
     (case ssh_packet_init_compression px s of
        (Inl r, s) \<Rightarrow> (Inl r, s)
      | (Inr _, s) \<Rightarrow> (if mode = MODE_OUT then start_compression_out else start_compression_in, s))"

definition set_comp_enabled :: "kex_mode \<Rightarrow> 'e ssh \<Rightarrow> 'e ssh" where
  "set_comp_enabled mode s =
     s\<lparr>ss_newkeys := (ss_newkeys s)(mode := map_option (nk_comp_update (co_enabled_update (\<lambda>_. True))) (ss_newkeys s mode))\<rparr>"

definition max_blocks_for :: "u32 \<Rightarrow> u64 \<Rightarrow> u64" where
  "max_blocks_for block_size rekey_limit =
     (let m = (if block_size \<ge> 16 then push_bit (unat (block_size * 2)) 1 else push_bit 30 1 div ucast block_size)
      in if rekey_limit \<noteq> 0 then min m (rekey_limit div ucast block_size) else m)"

definition ssh_set_newkeys :: "'e penv \<Rightarrow> kex_mode \<Rightarrow> 'e ssh \<Rightarrow> unit res \<times> 'e ssh" where
  "ssh_set_newkeys px mode s =
     (let s = (if mode = MODE_OUT then s\<lparr>ss_p_send := (ss_p_send s)\<lparr>ps_packets := 0, ps_blocks := 0\<rparr>\<rparr>
               else s\<lparr>ss_p_read := (ss_p_read s)\<lparr>ps_packets := 0, ps_blocks := 0\<rparr>\<rparr>);
          k = the (ssh_kex s);
          s = s\<lparr>ss_newkeys := (ss_newkeys s)(mode := kx_newkeys k mode)\<rparr>
      in case kx_newkeys k mode of
           None \<Rightarrow> (Inl SSH_ERR_INTERNAL_ERROR, s)
         | Some nk \<Rightarrow>
             let s = s\<lparr>ssh_kex := Some (k\<lparr>kx_newkeys := (kx_newkeys k)(mode := None)\<rparr>)\<rparr>;
                 enc = nk_enc nk; cipher = the (en_cipher enc);
                 (r, m) = (if cipher_authlen cipher = 0 then mac_init (px_md px) (px_umac_made px) (nk_mac nk) else (Inr (), nk_mac nk));
                 s = set_keys_mac mode m s
             in case r of
                  Inl e \<Rightarrow> (Inl e, s)
                | Inr _ \<Rightarrow>
                    let s = set_keys_mac mode (m\<lparr>sm_enabled := True\<rparr>) s;
                        r = cipher_init (px_evp px) (px_alloc px) cipher (en_key enc) (en_key_len enc) (en_iv enc) (en_iv_len enc)
                              (mode = MODE_OUT);
                        cc = (case r of Inl _ \<Rightarrow> None | Inr cc \<Rightarrow> Some cc);
                        s = (if mode = MODE_OUT then s\<lparr>ss_send_context := cc\<rparr> else s\<lparr>ss_receive_context := cc\<rparr>)
                    in case r of
                         Inl e \<Rightarrow> (Inl e, s)
                       | Inr _ \<Rightarrow>
                           let comp = nk_comp nk;
                               start = (co_type comp = COMP_ZLIB \<or> co_type comp = COMP_DELAYED \<and> ss_after_authentication s) \<and>
                                       \<not> co_enabled comp;
                               (r, s) = (if start then start_compression px mode s else (Inr (), s))
                           in case r of
                                Inl e \<Rightarrow> (Inl e, s)
                              | Inr _ \<Rightarrow>
                                  let s = (if start then set_comp_enabled mode s else s);
                                      mb = max_blocks_for (en_block_size enc) (ss_rekey_limit s)
                                  in (Inr (), if mode = MODE_OUT then s\<lparr>ss_max_blocks_out := mb\<rparr> else s\<lparr>ss_max_blocks_in := mb\<rparr>))"

definition ssh_packet_is_rekeying :: "'e ssh \<Rightarrow> bool" where
  "ssh_packet_is_rekeying s \<longleftrightarrow> ss_rekeying s \<or> (case ssh_kex s of None \<Rightarrow> False | Some k \<Rightarrow> \<not> kx_done k)"

text \<open>\<open>ROUNDUP\<close> on 32 bits, as the code computes it.\<close>

definition roundup32 :: "u32 \<Rightarrow> u32 \<Rightarrow> u32" where
  "roundup32 x y = ((x + (y - 1)) div y) * y"

definition ssh_packet_need_rekeying :: "'e penv \<Rightarrow> 'e ssh \<Rightarrow> u32 \<Rightarrow> bool" where
  "ssh_packet_need_rekeying px s outbound_packet_len \<longleftrightarrow>
     ss_after_authentication s \<and> \<not> ssh_packet_is_rekeying s \<and> SSH_BUG_NOREKEY \<notin> ssh_compat s \<and>
     \<not> (ps_packets (ss_p_send s) = 0 \<and> ps_packets (ss_p_read s) = 0) \<and>
     (ss_rekey_interval s \<noteq> 0 \<and> ss_rekey_time s + int (unat (ss_rekey_interval s)) \<le> px_now px \<or>
      ps_packets (ss_p_send s) > MAX_PACKETS \<or> ps_packets (ss_p_read s) > MAX_PACKETS \<or>
      (let out_blocks = roundup32 outbound_packet_len (en_block_size (nk_enc (the (ss_newkeys s MODE_OUT)))) in
       ss_max_blocks_out s \<noteq> 0 \<and> ps_blocks (ss_p_send s) + ucast out_blocks > ss_max_blocks_out s \<or>
       ss_max_blocks_in s \<noteq> 0 \<and> ps_blocks (ss_p_read s) > ss_max_blocks_in s))"

text \<open>The loop over both directions, \<open>MODE_IN\<close> first.\<close>

fun delayed_compress :: "'e penv \<Rightarrow> kex_mode list \<Rightarrow> 'e ssh \<Rightarrow> unit res \<times> 'e ssh" where
  "delayed_compress px [] s = (Inr (), s)"
| "delayed_compress px (mode # modes) s =
     (case ss_newkeys s mode of
        None \<Rightarrow> delayed_compress px modes s
      | Some nk \<Rightarrow>
          if \<not> co_enabled (nk_comp nk) \<and> co_type (nk_comp nk) = COMP_DELAYED then
            (case start_compression px mode s of
               (Inl e, s) \<Rightarrow> (Inl e, s)
             | (Inr _, s) \<Rightarrow> delayed_compress px modes (set_comp_enabled mode s))
          else delayed_compress px modes s)"

definition ssh_packet_enable_delayed_compress :: "'e penv \<Rightarrow> 'e ssh \<Rightarrow> unit res \<times> 'e ssh" where
  "ssh_packet_enable_delayed_compress px s = delayed_compress px [MODE_IN, MODE_OUT] (s\<lparr>ss_after_authentication := True\<rparr>)"

section \<open>Sending\<close>

text \<open>
  The padding of a packet of \<open>len\<close> bytes, and the extra padding that is left. All of it is computed in
  bytes (\<^verbatim>\<open>u_char\<close>).
\<close>

definition packet_padlen :: "u32 \<Rightarrow> u32 \<Rightarrow> byte" where
  "packet_padlen len block_size =
     (let padlen = ucast (block_size - len mod block_size)
      in if padlen < 4 then padlen + ucast block_size else padlen)"

definition packet_padding :: "u32 \<Rightarrow> u32 \<Rightarrow> byte \<Rightarrow> byte res \<times> byte" where
  "packet_padding len block_size extra_pad =
     (let padlen = packet_padlen len block_size in
      if extra_pad = 0 then (Inr padlen, extra_pad)
      else let ep = ucast (roundup32 (ucast extra_pad) block_size) in
        if ep < extra_pad then (Inl SSH_ERR_INVALID_ARGUMENT, ep)
        else let tmp = ucast ((len + ucast padlen) mod ucast ep) in
          if tmp > ep then (Inl SSH_ERR_INVALID_ARGUMENT, ep)
          else if padlen + (ep - tmp) < padlen then (Inl SSH_ERR_INVALID_ARGUMENT, ep)
          else (Inr (padlen + (ep - tmp)), 0))"

text \<open>Up to the length fields: the packet in clear. The result is its length.\<close>

definition packet_pad_plain :: "'e penv \<Rightarrow> 'e ssh \<Rightarrow> u32 res \<times> 'e ssh" where
  "packet_pad_plain px s =
     (let nk = ss_newkeys s MODE_OUT;
          len = ucast (sshbuf_len (ss_outgoing_packet s)) - keys_aadlen nk;
          (r, ep) = packet_padding len (keys_block_size nk) (ss_extra_pad s);
          s = s\<lparr>ss_extra_pad := ep\<rparr>
      in case r of
           Inl e \<Rightarrow> (Inl e, s)
         | Inr padlen \<Rightarrow>
             (case sshbuf_reserve (px_alloc px) (ss_outgoing_packet s) (ucast padlen) of
                (Inl e, b) \<Rightarrow> (Inl e, s\<lparr>ss_outgoing_packet := b\<rparr>)
              | (Inr i, b) \<Rightarrow>
                  let pad = (if nk \<noteq> None \<and> \<not> cipher_ctx_is_plaintext (the (ss_send_context s)) then px_random px (unat padlen)
                             else replicate (unat padlen) 0);
                      b = sshbuf_fill b i pad;
                      len = ucast (sshbuf_len b)
                  in if sshbuf_mutable_ptr b = NULL then (Inl SSH_ERR_INTERNAL_ERROR, s\<lparr>ss_outgoing_packet := b\<rparr>)
                     else (Inr len, s\<lparr>ss_outgoing_packet := sshbuf_fill b (sb_off b) (POKE_U32 (len - 4) @ [padlen])\<rparr>)))"

text \<open>The code over the packet, computed by the MAC of a direction when the condition holds.\<close>

definition packet_mac :: "'e penv \<Rightarrow> bool \<Rightarrow> 'e ssh \<Rightarrow> byte list \<Rightarrow> byte list \<Rightarrow> byte list res \<times> 'e ssh" where
  "packet_mac px etm s data macbuf =
     (case live_mac (ss_newkeys s MODE_OUT) of
        None \<Rightarrow> (Inr macbuf, s)
      | Some m \<Rightarrow>
          if sm_etm m \<noteq> etm then (Inr macbuf, s)
          else let (r, m) = mac_compute (px_md px) (px_umac px) m (ps_seqnr (ss_p_send s)) data SSH_DIGEST_MAX_LENGTH
               in (r, set_keys_mac MODE_OUT m s))"

definition packet_encrypt :: "'e penv \<Rightarrow> u32 \<Rightarrow> 'e ssh \<Rightarrow> unit res \<times> 'e ssh" where
  "packet_encrypt px len s =
     (let nk = ss_newkeys s MODE_OUT; aadlen = keys_aadlen nk; authlen = keys_authlen nk;
          plain = sshbuf_bytes (ss_outgoing_packet s)
      in case packet_mac px False s (take (unat len) plain) [] of
           (Inl e, s) \<Rightarrow> (Inl e, s)
         | (Inr macbuf, s) \<Rightarrow>
             case sshbuf_reserve (px_alloc px) (ss_output s) (sshbuf_len (ss_outgoing_packet s) + ucast authlen) of
               (Inl e, b) \<Rightarrow> (Inl e, s\<lparr>ss_output := b\<rparr>)
             | (Inr i, b) \<Rightarrow>
                 let (r, cc) = cipher_crypt (px_evp px) (px_tmp px) (the (ss_send_context s)) (ps_seqnr (ss_p_send s)) plain
                                 (len - aadlen) aadlen authlen;
                     s = s\<lparr>ss_send_context := Some cc\<rparr>
                 in case r of
                      Inl e \<Rightarrow> (Inl e, s\<lparr>ss_output := b\<rparr>)
                    | Inr w \<Rightarrow>
                        case packet_mac px True (s\<lparr>ss_output := sshbuf_fill b i w\<rparr>) (take (unat len) w) macbuf of
                          (Inl e, s) \<Rightarrow> (Inl e, s)
                        | (Inr macbuf, s) \<Rightarrow>
                            case live_mac nk of
                              None \<Rightarrow> (Inr (), s)
                            | Some m \<Rightarrow>
                                let (r, b) = sshbuf_put (px_alloc px) (ss_output s) (take (unat (sm_mac_len m)) macbuf)
                                in (r, s\<lparr>ss_output := b\<rparr>))"

text \<open>The counters, and what a packet of this type changes.\<close>

definition packet_sent :: "'e penv \<Rightarrow> byte \<Rightarrow> u32 \<Rightarrow> u32 \<Rightarrow> 'e ssh \<Rightarrow> (unit res \<times> 'e ssh) outcome" where
  "packet_sent px type len block_size s =
     (let s = s\<lparr>ss_p_send := (ss_p_send s)\<lparr>ps_seqnr := ps_seqnr (ss_p_send s) + 1\<rparr>\<rparr> in
      if ps_seqnr (ss_p_send s) = 0 \<and> KEX_INITIAL \<in> kx_flags (the (ssh_kex s)) then Disconnect
      else let s = s\<lparr>ss_p_send := (ss_p_send s)\<lparr>ps_packets := ps_packets (ss_p_send s) + 1\<rparr>\<rparr> in
        if ps_packets (ss_p_send s) = 0 \<and> SSH_BUG_NOREKEY \<notin> ssh_compat s then Done (Inl SSH_ERR_NEED_REKEY, s)
        else let s = s\<lparr>ss_p_send := (ss_p_send s)\<lparr>ps_blocks := ps_blocks (ss_p_send s) + ucast (len div block_size),
                                                  ps_bytes := ps_bytes (ss_p_send s) + ucast len\<rparr>,
                       ss_outgoing_packet := sshbuf_reset (px_alloc px) (ss_outgoing_packet s)\<rparr>;
                 s = (if type = SSH2_MSG_NEWKEYS \<and> kx_kex_strict (the (ssh_kex s))
                      then s\<lparr>ss_p_send := (ss_p_send s)\<lparr>ps_seqnr := 0\<rparr>\<rparr> else s)
             in if type = SSH2_MSG_NEWKEYS then Done (ssh_set_newkeys px MODE_OUT s)
                else if type = SSH2_MSG_USERAUTH_SUCCESS \<and> ss_server_side s then Done (ssh_packet_enable_delayed_compress px s)
                else Done (Inr (), s))"

text \<open>
  The whole function. A direction with compression first drops the header and then fails in
  \<^verbatim>\<open>compress_buffer\<close>, which this build does not have.
\<close>

definition compress_buffer :: "unit res" where "compress_buffer = Inl SSH_ERR_INTERNAL_ERROR"

definition keys_compressing :: "newkeys option \<Rightarrow> bool" where
  "keys_compressing nk \<longleftrightarrow> (case nk of None \<Rightarrow> False | Some n \<Rightarrow> co_enabled (nk_comp n))"

definition compress_outgoing :: "'e ssh \<Rightarrow> unit res \<times> 'e ssh" where
  "compress_outgoing s =
     (if keys_compressing (ss_newkeys s MODE_OUT) then
        let (r, b) = sshbuf_consume (ss_outgoing_packet s) 5; s = s\<lparr>ss_outgoing_packet := b\<rparr>
        in case r of Inl e \<Rightarrow> (Inl e, s) | Inr _ \<Rightarrow> (compress_buffer, s)
      else (Inr (), s))"

definition ssh_packet_send2_wrapped :: "'e penv \<Rightarrow> 'e ssh \<Rightarrow> (unit res \<times> 'e ssh) outcome" where
  "ssh_packet_send2_wrapped px s =
     (let nk = ss_newkeys s MODE_OUT; type = sshbuf_bytes (ss_outgoing_packet s) ! 5
      in case compress_outgoing s of
           (Inl e, s) \<Rightarrow> Done (Inl e, s)
         | (Inr _, s) \<Rightarrow>
             case packet_pad_plain px s of
               (Inl e, s) \<Rightarrow> Done (Inl e, s)
             | (Inr len, s) \<Rightarrow>
                 case packet_encrypt px len s of
                   (Inl e, s) \<Rightarrow> Done (Inl e, s)
                 | (Inr _, s) \<Rightarrow> packet_sent px type len (keys_block_size nk) s)"

section \<open>The queue and the key exchange\<close>

definition ssh_packet_type_is_kex :: "byte \<Rightarrow> bool" where
  "ssh_packet_type_is_kex type \<longleftrightarrow> 1 \<le> type \<and> type \<le> 49 \<and>
     type \<noteq> SSH2_MSG_SERVICE_REQUEST \<and> type \<noteq> SSH2_MSG_SERVICE_ACCEPT \<and> type \<noteq> SSH2_MSG_EXT_INFO"

definition sshpkt_start :: "'e penv \<Rightarrow> byte \<Rightarrow> 'e ssh \<Rightarrow> unit res \<times> 'e ssh" where
  "sshpkt_start px type s =
     (let (r, b) = sshbuf_put (px_alloc px) (sshbuf_reset (px_alloc px) (ss_outgoing_packet s)) [0, 0, 0, 0, 0, type]
      in (r, s\<lparr>ss_outgoing_packet := b\<rparr>))"

definition sshpkt_putb :: "'e penv \<Rightarrow> sshbuf \<Rightarrow> 'e ssh \<Rightarrow> unit res \<times> 'e ssh" where
  "sshpkt_putb px v s = (let (r, b) = sshbuf_putb (px_alloc px) (ss_outgoing_packet s) (Some v) in (r, s\<lparr>ss_outgoing_packet := b\<rparr>))"

definition sshpkt_put_u32 :: "'e penv \<Rightarrow> u32 \<Rightarrow> 'e ssh \<Rightarrow> unit res \<times> 'e ssh" where
  "sshpkt_put_u32 px v s = (let (r, b) = sshbuf_put_u32 (px_alloc px) (ss_outgoing_packet s) v in (r, s\<lparr>ss_outgoing_packet := b\<rparr>))"

definition sshpkt_put_string :: "'e penv \<Rightarrow> byte list \<Rightarrow> 'e ssh \<Rightarrow> unit res \<times> 'e ssh" where
  "sshpkt_put_string px v s = (let (r, b) = sshbuf_put_string (px_alloc px) (ss_outgoing_packet s) v in (r, s\<lparr>ss_outgoing_packet := b\<rparr>))"

text \<open>
  A packet of the key exchange is sent at once. This is the path of \<^verbatim>\<open>ssh_packet_send2\<close> for such a type
  up to the queue, and the whole of it for every type but \<open>NEWKEYS\<close>.
\<close>

definition send2_now :: "'e penv \<Rightarrow> 'e ssh \<Rightarrow> (unit res \<times> 'e ssh) outcome" where
  "send2_now px s =
     (if sshbuf_bytes (ss_outgoing_packet s) ! 5 = SSH2_MSG_KEXINIT
      then ssh_packet_send2_wrapped px (s\<lparr>ss_rekeying := True\<rparr>) else ssh_packet_send2_wrapped px s)"

text \<open>The steps of composing a packet, in order; the first that fails ends them.\<close>

fun compose :: "('s \<Rightarrow> unit res \<times> 's) list \<Rightarrow> 's \<Rightarrow> unit res \<times> 's" where
  "compose [] s = (Inr (), s)"
| "compose (f # fs) s = (case f s of (Inl e, s) \<Rightarrow> (Inl e, s) | (Inr _, s) \<Rightarrow> compose fs s)"

definition set_kex :: "(kex \<Rightarrow> kex) \<Rightarrow> 'e ssh \<Rightarrow> 'e ssh" where
  "set_kex f s = s\<lparr>ssh_kex := map_option f (ssh_kex s)\<rparr>"

definition kex_send_kexinit :: "'e penv \<Rightarrow> 'e ssh \<Rightarrow> (unit res \<times> 'e ssh) outcome" where
  "kex_send_kexinit px s =
     (case ssh_kex s of
        None \<Rightarrow> Done (Inl SSH_ERR_INTERNAL_ERROR, s)
      | Some k \<Rightarrow>
          if KEX_INIT_SENT \<in> kx_flags k then Done (Inr (), s)
          else let s = set_kex (kx_done_update (\<lambda>_. False)) s in
            if sshbuf_len (kx_my k) < of_nat KEX_COOKIE_LEN then Done (Inl SSH_ERR_INVALID_FORMAT, s)
            else if sshbuf_mutable_ptr (kx_my k) = NULL then Done (Inl SSH_ERR_INTERNAL_ERROR, s)
            else let my = sshbuf_fill (kx_my k) (sb_off (kx_my k)) (px_random px KEX_COOKIE_LEN);
                     s = set_kex (kx_my_update (\<lambda>_. my)) s
                 in case compose [sshpkt_start px SSH2_MSG_KEXINIT, sshpkt_putb px my] s of
                      (Inl e, s) \<Rightarrow> Done (Inl e, s)
                    | (Inr _, s) \<Rightarrow>
                        case send2_now px s of
                          Done (Inr _, s) \<Rightarrow> Done (Inr (), set_kex (kx_flags_update (insert KEX_INIT_SENT)) s)
                        | r \<Rightarrow> r)"

definition kex_start_rekex :: "'e penv \<Rightarrow> 'e ssh \<Rightarrow> (unit res \<times> 'e ssh) outcome" where
  "kex_start_rekex px s =
     (case ssh_kex s of
        None \<Rightarrow> Done (Inl SSH_ERR_INTERNAL_ERROR, s)
      | Some k \<Rightarrow>
          if \<not> kx_done k then Done (Inl SSH_ERR_INTERNAL_ERROR, s)
          else kex_send_kexinit px (set_kex (kx_done_update (\<lambda>_. False)) s))"

definition ssh_packet_check_rekey :: "'e penv \<Rightarrow> 'e ssh \<Rightarrow> (unit res \<times> 'e ssh) outcome" where
  "ssh_packet_check_rekey px s = (if ssh_packet_need_rekeying px s 0 then kex_start_rekex px s else Done (Inr (), s))"

text \<open>The loop that sends the queue after new keys; its list is the queue of the state.\<close>

fun send_queue :: "'e penv \<Rightarrow> pktent list \<Rightarrow> 'e ssh \<Rightarrow> (unit res \<times> 'e ssh) outcome" where
  "send_queue px [] s = Done (Inr (), s)"
| "send_queue px (p # ps) s =
     (if ssh_packet_need_rekeying px s (ucast (sshbuf_len (pk_payload p))) then kex_start_rekex px s
      else case ssh_packet_send2_wrapped px (s\<lparr>ss_outgoing_packet := pk_payload p, ss_outgoing := ps\<rparr>) of
             Done (Inr _, s) \<Rightarrow> send_queue px ps s
           | r \<Rightarrow> r)"

definition SIZEOF_PACKET :: size_t where "SIZEOF_PACKET = 32"

text \<open>
  When the buffer for the next packet cannot be made, the field is left \<^verbatim>\<open>NULL\<close>. A buffer without
  references stands for that: the sanity check refuses both in every operation.
\<close>

definition null_sshbuf :: "sshbuf \<Rightarrow> sshbuf" where
  "null_sshbuf b = b\<lparr>sb_refcount := 0\<rparr>"

definition ssh_packet_send2 :: "'e penv \<Rightarrow> 'e ssh \<Rightarrow> (unit res \<times> 'e ssh) outcome" where
  "ssh_packet_send2 px s =
     (if sshbuf_len (ss_outgoing_packet s) < 6 then Done (Inl SSH_ERR_INTERNAL_ERROR, s)
      else let type = sshbuf_bytes (ss_outgoing_packet s) ! 5;
               need_rekey = \<not> ssh_packet_type_is_kex type \<and> ssh_packet_need_rekeying px s (ucast (sshbuf_len (ss_outgoing_packet s)))
      in if (need_rekey \<or> ss_rekeying s) \<and> \<not> ssh_packet_type_is_kex type then
           if px_alloc px SIZEOF_PACKET = NULL then Done (Inl SSH_ERR_ALLOC_FAIL, s)
           else let s = s\<lparr>ss_outgoing := ss_outgoing s @ [\<lparr>pk_type = type, pk_payload = ss_outgoing_packet s\<rparr>]\<rparr>
             in case sshbuf_new (px_alloc px) of
                  None \<Rightarrow> Done (Inl SSH_ERR_ALLOC_FAIL, s\<lparr>ss_outgoing_packet := null_sshbuf (ss_outgoing_packet s)\<rparr>)
                | Some b \<Rightarrow>
                    let s = s\<lparr>ss_outgoing_packet := b\<rparr>
                    in if need_rekey then kex_start_rekex px s else Done (Inr (), s)
         else case send2_now px s of
                Done (Inr _, s) \<Rightarrow>
                  if type = SSH2_MSG_NEWKEYS
                  then let s = s\<lparr>ss_rekeying := False, ss_rekey_time := px_now px\<rparr> in send_queue px (ss_outgoing s) s
                  else Done (Inr (), s)
              | r \<Rightarrow> r)"

definition ssh_packet_send_mux :: "'e penv \<Rightarrow> 'e ssh \<Rightarrow> unit res \<times> 'e ssh" where
  "ssh_packet_send_mux px s =
     (if ssh_kex s \<noteq> None then (Inl SSH_ERR_INTERNAL_ERROR, s)
      else let len = sshbuf_len (ss_outgoing_packet s) in
        if len < 6 then (Inl SSH_ERR_INTERNAL_ERROR, s)
        else let type = sshbuf_bytes (ss_outgoing_packet s) ! 5 in
          if 80 \<le> type \<and> type \<le> 127 then
            let p = sshbuf_fill (ss_outgoing_packet s) (sb_off (ss_outgoing_packet s)) (POKE_U32 (ucast (len - 4)));
                (r, b) = sshbuf_putb (px_alloc px) (ss_output s) (Some p);
                s = s\<lparr>ss_output := b, ss_outgoing_packet := p\<rparr>
            in case r of
                 Inl e \<Rightarrow> (Inl e, s)
               | Inr _ \<Rightarrow> (Inr (), s\<lparr>ss_outgoing_packet := sshbuf_reset (px_alloc px) p\<rparr>)
          else (Inr (), s\<lparr>ss_outgoing_packet := sshbuf_reset (px_alloc px) (ss_outgoing_packet s)\<rparr>))"

definition sshpkt_send :: "'e penv \<Rightarrow> 'e ssh \<Rightarrow> (unit res \<times> 'e ssh) outcome" where
  "sshpkt_send px s = (if ss_mux s then Done (ssh_packet_send_mux px s) else ssh_packet_send2 px s)"

definition sshpkt_disconnect :: "'e penv \<Rightarrow> string \<Rightarrow> 'e ssh \<Rightarrow> (unit res \<times> 'e ssh) outcome" where
  "sshpkt_disconnect px msg s =
     (case compose [sshpkt_start px SSH2_MSG_DISCONNECT, sshpkt_put_u32 px 2, sshpkt_put_string px (map chr_byte msg),
                    sshpkt_put_string px []] s of
        (Inl e, s) \<Rightarrow> Done (Inl e, s)
      | (Inr _, s) \<Rightarrow> sshpkt_send px s)"

section \<open>Receiving\<close>

text \<open>
  After a bad packet of a cipher in CBC mode the input is discarded up to a fixed amount, and a MAC
  is computed over as many bytes, so that the time tells nothing. The loop that fills the buffer adds
  1024 bytes a turn and stops at 256 KiB: it takes at most 256 turns.
\<close>

fun discard_fill :: "allocator \<Rightarrow> nat \<Rightarrow> size_t \<Rightarrow> sshbuf \<Rightarrow> unit res \<times> sshbuf" where
  "discard_fill am 0 dlen b = (Inr (), b)"
| "discard_fill am (Suc n) dlen b =
     (if sshbuf_len b < dlen then
        (case sshbuf_put am b (replicate 1024 97) of (Inl e, b) \<Rightarrow> (Inl e, b) | (Inr _, b) \<Rightarrow> discard_fill am n dlen b)
      else (Inr (), b))"

definition ssh_packet_stop_discard :: "'e penv \<Rightarrow> 'e ssh \<Rightarrow> unit res \<times> 'e ssh" where
  "ssh_packet_stop_discard px s =
     (if ss_packet_discard_mac s then
        let dlen = ucast PACKET_MAX_SIZE;
            dlen = (if dlen > ss_packet_discard_mac_already s then dlen - ss_packet_discard_mac_already s else dlen);
            (r, b) = discard_fill (px_alloc px) 256 dlen (ss_incoming_packet s);
            s = s\<lparr>ss_incoming_packet := b\<rparr>
        in case r of
             Inl e \<Rightarrow> (Inl e, s)
           | Inr _ \<Rightarrow>
               let m = nk_mac (the (ss_newkeys s MODE_IN));
                   (_, m) = mac_compute (px_md px) (px_umac px) m (ps_seqnr (ss_p_read s)) (take (unat dlen) (sshbuf_bytes b)) 0
               in (Inl SSH_ERR_MAC_INVALID, set_keys_mac MODE_IN m s)
      else (Inl SSH_ERR_MAC_INVALID, s))"

definition ssh_packet_start_discard :: "'e penv \<Rightarrow> size_t \<Rightarrow> u32 \<Rightarrow> 'e ssh \<Rightarrow> (unit res \<times> 'e ssh) outcome" where
  "ssh_packet_start_discard px mac_already discard s =
     (let nk = ss_newkeys s MODE_IN in
      if nk = None \<or> \<not> cipher_is_cbc (the (en_cipher (nk_enc (the nk)))) \<or> (case keys_mac nk of None \<Rightarrow> False | Some m \<Rightarrow> sm_etm m) then
        (case sshpkt_disconnect px ''Packet corrupt'' s of
           Done (Inr _, s) \<Rightarrow> Done (Inl SSH_ERR_MAC_INVALID, s)
         | r \<Rightarrow> r)
      else let s = (if live_mac nk \<noteq> None then s\<lparr>ss_packet_discard_mac := True, ss_packet_discard_mac_already := mac_already\<rparr> else s) in
        if sshbuf_len (ss_input s) \<ge> ucast discard then Done (ssh_packet_stop_discard px s)
        else Done (Inr (), s\<lparr>ss_packet_discard := discard - ucast (sshbuf_len (ss_input s))\<rparr>))"

text \<open>How far a step of reading came: it ended with a result, or the next step follows.\<close>

datatype ('r, 's) progress = Stop 'r | Next 's

definition length_bad :: "u32 \<Rightarrow> bool" where
  "length_bad packlen \<longleftrightarrow> packlen < 1 + 4 \<or> packlen > PACKET_MAX_SIZE"

text \<open>A result without a packet; \<open>typep\<close> is \<open>SSH_MSG_NONE\<close>.\<close>

definition no_packet :: "(unit res \<times> 'e ssh) outcome \<Rightarrow> (byte res \<times> 'e ssh) outcome" where
  "no_packet r = (case r of Done (Inr _, s) \<Rightarrow> Done (Inr SSH_MSG_NONE, s) | Done (Inl e, s) \<Rightarrow> Done (Inl e, s)
                  | Fatal \<Rightarrow> Fatal | Disconnect \<Rightarrow> Disconnect)"

text \<open>
  The length of the packet, when it is not known yet: read apart when the length is sent in clear or
  under its own key, else from the first decrypted block.
\<close>

definition read_length :: "'e penv \<Rightarrow> 'e ssh \<Rightarrow> ((byte res \<times> 'e ssh) outcome, 'e ssh) progress" where
  "read_length px s =
     (let nk = ss_newkeys s MODE_IN; block_size = keys_block_size nk in
      if ss_packlen s \<noteq> 0 then Next s
      else if keys_aadlen nk \<noteq> 0 then
        let (r, cc) = cipher_get_length (px_tmp px) (the (ss_receive_context s)) (ps_seqnr (ss_p_read s)) (sshbuf_bytes (ss_input s))
                        (ucast (sshbuf_len (ss_input s)));
            s = s\<lparr>ss_receive_context := Some cc\<rparr>
        in case r of
             Inl _ \<Rightarrow> Stop (Done (Inr SSH_MSG_NONE, s))
           | Inr packlen \<Rightarrow>
               let s = s\<lparr>ss_packlen := packlen\<rparr>
               in if length_bad packlen then
                    Stop (case sshpkt_disconnect px ''Packet corrupt'' s of
                            Done (Inr _, s) \<Rightarrow> Done (Inl SSH_ERR_CONN_CORRUPT, s)
                          | r \<Rightarrow> no_packet r)
                  else Next (s\<lparr>ss_incoming_packet := sshbuf_reset (px_alloc px) (ss_incoming_packet s)\<rparr>)
      else if sshbuf_len (ss_input s) < ucast block_size then Stop (Done (Inr SSH_MSG_NONE, s))
      else case sshbuf_reserve (px_alloc px) (sshbuf_reset (px_alloc px) (ss_incoming_packet s)) (ucast block_size) of
             (Inl e, b) \<Rightarrow> Stop (Done (Inl e, s\<lparr>ss_incoming_packet := b\<rparr>))
           | (Inr i, b) \<Rightarrow>
               let (r, cc) = cipher_crypt (px_evp px) (px_tmp px) (the (ss_receive_context s)) (ps_seqnr (ss_p_send s))
                               (sshbuf_bytes (ss_input s)) block_size 0 0;
                   s = s\<lparr>ss_receive_context := Some cc\<rparr>
               in case r of
                    Inl e \<Rightarrow> Stop (Done (Inl e, s\<lparr>ss_incoming_packet := b\<rparr>))
                  | Inr w \<Rightarrow>
                      let b = sshbuf_fill b i w; packlen = PEEK_U32 (sshbuf_bytes b);
                          s = s\<lparr>ss_incoming_packet := b, ss_packlen := packlen\<rparr>
                      in if length_bad packlen then Stop (no_packet (ssh_packet_start_discard px 0 PACKET_MAX_SIZE s))
                         else let (r, inp) = sshbuf_consume (ss_input s) (ucast block_size); s = s\<lparr>ss_input := inp\<rparr>
                              in case r of Inl e \<Rightarrow> Stop (Done (Inl e, s)) | Inr _ \<Rightarrow> Next s)"

text \<open>The rest of the packet, when it has all arrived: authenticated, decrypted, taken from the input.\<close>

definition check_mac :: "'e penv \<Rightarrow> bool \<Rightarrow> 'e ssh \<Rightarrow> byte list \<Rightarrow> byte list \<Rightarrow> unit res \<times> 'e ssh" where
  "check_mac px etm s data theirmac =
     (case live_mac (ss_newkeys s MODE_IN) of
        None \<Rightarrow> (Inr (), s)
      | Some m \<Rightarrow>
          if sm_etm m \<noteq> etm then (Inr (), s)
          else let (r, m') = mac_check (px_md px) (px_umac px) m (ps_seqnr (ss_p_read s)) data theirmac (ucast (sm_mac_len m))
               in (r, set_keys_mac MODE_IN m' s))"

definition keys_maclen :: "newkeys option \<Rightarrow> u32" where
  "keys_maclen nk = (case live_mac nk of None \<Rightarrow> 0 | Some m \<Rightarrow> sm_mac_len m)"

definition packet_need :: "'e ssh \<Rightarrow> u32" where
  "packet_need s =
     (if keys_aadlen (ss_newkeys s MODE_IN) \<noteq> 0 then ss_packlen s
      else 4 + ss_packlen s - keys_block_size (ss_newkeys s MODE_IN))"

definition read_body :: "'e penv \<Rightarrow> 'e ssh \<Rightarrow> ((byte res \<times> 'e ssh) outcome, 'e ssh) progress" where
  "read_body px s =
     (let nk = ss_newkeys s MODE_IN; block_size = keys_block_size nk; aadlen = keys_aadlen nk; authlen = keys_authlen nk;
          maclen = keys_maclen nk; need = packet_need s; input = sshbuf_bytes (ss_input s)
      in if need mod block_size \<noteq> 0 then Stop (no_packet (ssh_packet_start_discard px 0 (PACKET_MAX_SIZE - block_size) s))
         else if sshbuf_len (ss_input s) < ucast (aadlen + need + authlen + maclen) then Stop (Done (Inr SSH_MSG_NONE, s))
         else case check_mac px True s (take (unat (aadlen + need)) input) (drop (unat aadlen + unat need + unat authlen) input) of
           (Inl e, s) \<Rightarrow> Stop (Done (Inl e, s))
         | (Inr _, s) \<Rightarrow>
             case sshbuf_reserve (px_alloc px) (ss_incoming_packet s) (ucast (aadlen + need)) of
               (Inl e, b) \<Rightarrow> Stop (Done (Inl e, s\<lparr>ss_incoming_packet := b\<rparr>))
             | (Inr i, b) \<Rightarrow>
                 let (r, cc) = cipher_crypt (px_evp px) (px_tmp px) (the (ss_receive_context s)) (ps_seqnr (ss_p_read s)) input
                                 need aadlen authlen;
                     s = s\<lparr>ss_receive_context := Some cc\<rparr>
                 in case r of
                      Inl e \<Rightarrow> Stop (Done (Inl e, s\<lparr>ss_incoming_packet := b\<rparr>))
                    | Inr w \<Rightarrow>
                        let s = s\<lparr>ss_incoming_packet := sshbuf_fill b i w\<rparr>;
                            (r, inp) = sshbuf_consume (ss_input s) (ucast (aadlen + need + authlen));
                            s = s\<lparr>ss_input := inp\<rparr>
                        in case r of
                             Inl e \<Rightarrow> Stop (Done (Inl e, s))
                           | Inr _ \<Rightarrow>
                               case check_mac px False s (sshbuf_bytes (ss_incoming_packet s)) (sshbuf_bytes (ss_input s)) of
                                 (Inl e, s) \<Rightarrow>
                                   Stop (if e \<noteq> SSH_ERR_MAC_INVALID then Done (Inl e, s)
                                         else if need + block_size > PACKET_MAX_SIZE then Done (Inl SSH_ERR_INTERNAL_ERROR, s)
                                         else no_packet (ssh_packet_start_discard px (sshbuf_len (ss_incoming_packet s))
                                                (PACKET_MAX_SIZE - need - block_size) s))
                               | (Inr _, s) \<Rightarrow>
                                   let (r, inp) = sshbuf_consume (ss_input s) (ucast maclen); s = s\<lparr>ss_input := inp\<rparr>
                                   in case r of Inl e \<Rightarrow> Stop (Done (Inl e, s)) | Inr _ \<Rightarrow> Next s)"

text \<open>A complaint to the peer that ends in an error.\<close>

definition disconnect_corrupt :: "'e penv \<Rightarrow> string \<Rightarrow> ssherr \<Rightarrow> 'e ssh \<Rightarrow> (byte res \<times> 'e ssh) outcome" where
  "disconnect_corrupt px msg err s =
     (case sshpkt_disconnect px msg s of
        Done (Inr _, s) \<Rightarrow>
          let (r, b) = px_write_wait px (ss_output s); s = s\<lparr>ss_output := b\<rparr>
          in case r of Inl e \<Rightarrow> Done (Inl e, s) | Inr _ \<Rightarrow> Done (Inl err, s)
      | r \<Rightarrow> no_packet r)"

definition uncompress_buffer :: "unit res" where "uncompress_buffer = Inl SSH_ERR_INTERNAL_ERROR"

text \<open>The type of the packet, and what a packet of this type changes.\<close>

definition read_type :: "'e penv \<Rightarrow> 'e ssh \<Rightarrow> (byte res \<times> 'e ssh) outcome" where
  "read_type px s =
     (let (r, b) = sshbuf_get_u8 (ss_incoming_packet s); s = s\<lparr>ss_incoming_packet := b\<rparr>
      in case r of
           Inl e \<Rightarrow> Done (Inl e, s)
         | Inr type \<Rightarrow>
             if type < 1 then disconnect_corrupt px ''Invalid ssh2 packet type: 0'' SSH_ERR_PROTOCOL_ERROR s
             else let s = (if type = SSH2_MSG_USERAUTH_SUCCESS \<and> \<not> ss_server_side s
                           then snd (ssh_packet_enable_delayed_compress px s) else s);
                      s = s\<lparr>ss_packlen := 0\<rparr>;
                      s = (if type = SSH2_MSG_NEWKEYS \<and> kx_kex_strict (the (ssh_kex s))
                           then s\<lparr>ss_p_read := (ss_p_read s)\<lparr>ps_seqnr := 0\<rparr>\<rparr> else s)
                  in case ssh_packet_check_rekey px s of
                       Done (Inr _, s) \<Rightarrow> Done (Inr type, s)
                     | r \<Rightarrow> no_packet r)"

text \<open>The counters, the padding, and the payload.\<close>

definition read_payload :: "'e penv \<Rightarrow> 'e ssh \<Rightarrow> (byte res \<times> 'e ssh) outcome" where
  "read_payload px s =
     (let nk = ss_newkeys s MODE_IN;
          s = s\<lparr>ss_p_read := (ss_p_read s)\<lparr>ps_seqnr := ps_seqnr (ss_p_read s) + 1\<rparr>\<rparr> in
      if ps_seqnr (ss_p_read s) = 0 \<and> KEX_INITIAL \<in> kx_flags (the (ssh_kex s)) then Disconnect
      else let s = s\<lparr>ss_p_read := (ss_p_read s)\<lparr>ps_packets := ps_packets (ss_p_read s) + 1\<rparr>\<rparr> in
        if ps_packets (ss_p_read s) = 0 \<and> SSH_BUG_NOREKEY \<notin> ssh_compat s then Done (Inl SSH_ERR_NEED_REKEY, s)
        else let s = s\<lparr>ss_p_read := (ss_p_read s)
                        \<lparr>ps_blocks := ps_blocks (ss_p_read s) + ucast ((ss_packlen s + 4) div keys_block_size nk),
                         ps_bytes := ps_bytes (ss_p_read s) + ucast (ss_packlen s + 4)\<rparr>\<rparr>;
                 padlen = sshbuf_bytes (ss_incoming_packet s) ! 4
             in if padlen < 4 then disconnect_corrupt px (''Corrupted padlen '' @ [byte_chr (48 + padlen)] @ '' on input.'') SSH_ERR_CONN_CORRUPT s
                else case sshbuf_consume (ss_incoming_packet s) (4 + 1) of
                       (Inl e, b) \<Rightarrow> Done (Inl e, s\<lparr>ss_incoming_packet := b\<rparr>)
                     | (Inr _, b) \<Rightarrow>
                         case sshbuf_consume_end b (ucast padlen) of
                           (Inl e, b) \<Rightarrow> Done (Inl e, s\<lparr>ss_incoming_packet := b\<rparr>)
                         | (Inr _, b) \<Rightarrow>
                             let s = s\<lparr>ss_incoming_packet := b\<rparr>
                             in if keys_compressing nk then
                                  (case uncompress_buffer of Inl e \<Rightarrow> Done (Inl e, s) | Inr _ \<Rightarrow> read_type px s)
                                else read_type px s)"

definition ssh_packet_read_poll2_mux :: "'e penv \<Rightarrow> 'e ssh \<Rightarrow> byte res \<times> 'e ssh" where
  "ssh_packet_read_poll2_mux px s =
     (if ssh_kex s \<noteq> None then (Inl SSH_ERR_INTERNAL_ERROR, s)
      else let cp = sshbuf_bytes (ss_input s) in
        if ss_packlen s = 0 \<and> sshbuf_len (ss_input s) < 4 + 1 then (Inr SSH_MSG_NONE, s)
        else let s' = (if ss_packlen s = 0 then s\<lparr>ss_packlen := PEEK_U32 cp\<rparr> else s) in
          if ss_packlen s = 0 \<and> length_bad (ss_packlen s') then (Inl SSH_ERR_MESSAGE_INCOMPLETE, s')
          else let need = ucast (ss_packlen s' + 4) in
            if sshbuf_len (ss_input s') < need then (Inr SSH_MSG_NONE, s')
            else let (r, b) = sshbuf_put (px_alloc px) (sshbuf_reset (px_alloc px) (ss_incoming_packet s'))
                                (take (unat (ss_packlen s')) (drop 4 cp));
                     s' = s'\<lparr>ss_incoming_packet := b\<rparr>
                 in case r of Inl e \<Rightarrow> (Inl e, s')
                    | Inr _ \<Rightarrow>
                        let (r, inp) = sshbuf_consume (ss_input s') need; s' = s'\<lparr>ss_input := inp\<rparr>
                        in case r of Inl e \<Rightarrow> (Inl e, s')
                           | Inr _ \<Rightarrow>
                               let (r, b) = sshbuf_get_u8 (ss_incoming_packet s'); s' = s'\<lparr>ss_incoming_packet := b\<rparr>
                               in case r of Inl e \<Rightarrow> (Inl e, s')
                                  | Inr _ \<Rightarrow>
                                      let (r, b) = sshbuf_get_u8 (ss_incoming_packet s'); s' = s'\<lparr>ss_incoming_packet := b\<rparr>
                                      in case r of Inl e \<Rightarrow> (Inl e, s')
                                         | Inr type \<Rightarrow> (Inr type, s'\<lparr>ss_packlen := 0\<rparr>))"

text \<open>The whole function; \<open>seqnr_p\<close> is not asked for.\<close>

definition ssh_packet_read_poll2 :: "'e penv \<Rightarrow> 'e ssh \<Rightarrow> (byte res \<times> 'e ssh) outcome" where
  "ssh_packet_read_poll2 px s =
     (if ss_mux s then Done (ssh_packet_read_poll2_mux px s)
      else if ss_packet_discard s \<noteq> 0 then Done (Inr SSH_MSG_NONE, s)
      else case read_length px s of
             Stop r \<Rightarrow> r
           | Next s \<Rightarrow> (case read_body px s of Stop r \<Rightarrow> r | Next s \<Rightarrow> read_payload px s))"

definition ssh_packet_process_incoming :: "'e penv \<Rightarrow> byte list \<Rightarrow> 'e ssh \<Rightarrow> unit res \<times> 'e ssh" where
  "ssh_packet_process_incoming px buf s =
     (let len = of_nat (length buf) in
      if ss_packet_discard s \<noteq> 0 then
        let s = s\<lparr>ss_keep_alive_timeouts := 0\<rparr>;
            (r, s) = (if len \<ge> ss_packet_discard s then ssh_packet_stop_discard px s else (Inr (), s))
        in case r of Inl e \<Rightarrow> (Inl e, s) | Inr _ \<Rightarrow> (Inr (), s\<lparr>ss_packet_discard := ss_packet_discard s - len\<rparr>)
      else let (r, b) = sshbuf_put (px_alloc px) (ss_input s) buf in (r, s\<lparr>ss_input := b\<rparr>))"

definition sshpkt_get_end :: "'e ssh \<Rightarrow> unit res" where
  "sshpkt_get_end s = (if sshbuf_len (ss_incoming_packet s) > 0 then Inl SSH_ERR_UNEXPECTED_TRAILING_DATA else Inr ())"

text \<open>The handler of \<open>NEWKEYS\<close>; the dispatch table is not part of the state here.\<close>

definition kex_input_newkeys :: "'e penv \<Rightarrow> 'e ssh \<Rightarrow> unit res \<times> 'e ssh" where
  "kex_input_newkeys px s =
     (case sshpkt_get_end s of
        Inl e \<Rightarrow> (Inl e, s)
      | Inr _ \<Rightarrow>
          case ssh_set_newkeys px MODE_IN s of
            (Inl e, s) \<Rightarrow> (Inl e, s)
          | (Inr _, s) \<Rightarrow>
              (Inr (), set_kex (\<lambda>k. k\<lparr>kx_done := True, kx_flags := kx_flags k - {KEX_INITIAL, KEX_INIT_SENT},
                                      kx_peer := sshbuf_reset (px_alloc px) (kx_peer k), kx_name := None\<rparr>) s))"

end
