(* ===== verification/Spec2Isabelle.thy ===== *)
theory Spec2Isabelle
  imports Match_Host Chan_Flow Multicast5G Kex_Agree Packet
begin

text \<open>
  A verification library for the group key repository. The program has two halves under
  \<^verbatim>\<open>src/5g\<close>. One is a small emulation of a 5G core in Python, in which a terminal registers, is
  authenticated and gets a session, beside a simulator of a base station that sends to multicast
  groups. The other is the secure shell that its group key management carries, OpenSSH 9.6p1 in C
  (\<^verbatim>\<open>group_key_mgmt/openssh-9.6p1\<close>; C file names below are relative to it).

  \<^bold>\<open>How the parts work together.\<close> Every message of the shell is built and taken apart in an \<open>sshbuf\<close>.
  Two peers compare their algorithm lists (the key exchange) and derive keys. The packet layer pads,
  authenticates and encrypts each message under these keys and holds back the messages of the
  application while keys are exchanged. Above it channels multiplex byte streams under a window for
  flow control. Address and pattern lists decide who is let in.

  \<^bold>\<open>Prelude.\<close> \<open>Prelude\<close> has the types shared by all (bytes and machine words, the error codes of
  \<^verbatim>\<open>ssherr.h\<close>, results as \<open>error + value\<close>, the allocator as a function whose value 0 is \<^verbatim>\<open>NULL\<close>), general
  lemmas, and the locale \<open>step_invariant\<close> for invariants of runs. An operation that changes a structure
  returns its result and the new structure; \<^verbatim>\<open>fatal\<close> and a disconnect are values of a datatype.

  \<^bold>\<open>Buffers.\<close> \<open>Sshbuf\<close> models \<^verbatim>\<open>sshbuf.c\<close>: the record has the fields of the structure, and buffers that
  share storage live in a table, as parents and children do in the code. \<open>Sshbuf_GetPut\<close> models
  \<^verbatim>\<open>sshbuf-getput-basic.c\<close> with the locale \<open>wire_codec\<close> (what is put is got back), interpreted for raw bytes
  and for the typed fields. \<open>Sshbuf_Refs\<close> shows for all runs that a held buffer is never freed and that
  none is leaked (\<open>buf_run\<close>: every operation on buffers, failing ones and resets included, except a reset
  under a limit of less than 256 bytes and a reference count beyond the limit of the sanity test, both of
  which leave a buffer that fails this test; the signal that the test can raise is an error here),
  the contract of put and get, and the round trip of field sequences. \<open>Base64_Codec\<close> and
  \<open>Sshbuf_Misc\<close> model \<^verbatim>\<open>openbsd-compat/base64.c\<close> and \<^verbatim>\<open>sshbuf-misc.c\<close>: the decoder is a decision procedure for
  canonical base64.

  \<^bold>\<open>Matching.\<close> \<open>Cstrings\<close> has the string helpers, \<open>Match\<close> models \<^verbatim>\<open>match.c\<close> and proves the wildcard matcher
  equal to the language of the pattern, \<open>Addr\<close> models \<^verbatim>\<open>addr.c\<close> and \<^verbatim>\<open>addrmatch.c\<close> (a network matches exactly
  the addresses with its leading bits, and the verdict of a list is exact for every resolver), \<open>Match_Host\<close> joins the two for \<^verbatim>\<open>user@host\<close> entries, and \<open>Compat\<close>
  models \<^verbatim>\<open>compat.c\<close>.

  \<^bold>\<open>Channels.\<close> \<open>Nchan\<close> models the state machine of \<^verbatim>\<open>nchan.c\<close>, \<open>Channels\<close> the table, windows, data paths and
  message handlers of \<^verbatim>\<open>channels.c\<close>. \<open>Chan_Order\<close> shows with the locale \<open>chan_machine\<close> that the messages of
  a channel keep the order of the protocol in every run. \<open>Chan_Flow\<close> joins two ends by two queues of
  messages: the receiver's output is a prefix of the sender's input, data in flight is always accepted,
  and the window never locks up.

  \<^bold>\<open>Key exchange.\<close> \<open>Algorithms\<close> has the tables of \<^verbatim>\<open>cipher.c\<close>, \<^verbatim>\<open>mac.c\<close>, \<^verbatim>\<open>digest-openssl.c\<close> and \<^verbatim>\<open>sshkey.c\<close>;
  \<open>Kex_Names\<close> the name lists, in their order of preference, and \<open>Kex\<close> the choice of algorithms and the derivation of keys of \<^verbatim>\<open>kex.c\<close>.
  \<open>Kex_Agree\<close> shows that two peers settle the same algorithms and hold the same keys for each direction,
  and that between two peers that run this code the first exchange is strict.

  \<^bold>\<open>Cryptography.\<close> \<open>Chacha\<close> (\<^verbatim>\<open>chacha.c\<close>) is equal to the key stream of a 64-bit block counter, \<open>Poly1305\<close>
  (\<^verbatim>\<open>poly1305.c\<close>) to the polynomial modulo \<open>2\<^sup>1\<^sup>3\<^sup>0 - 5\<close>. \<open>Chachapoly\<close> has both versions of the authenticated cipher:
  the locale \<open>chacha_provider\<close> says what the library cipher must do, and it is interpreted on
  \<^verbatim>\<open>chacha.c\<close>. \<open>Mac\<close> (\<^verbatim>\<open>hmac.c\<close>, \<^verbatim>\<open>mac.c\<close>) computes HMAC over every packet of a connection. \<open>Cipher\<close> has the
  contexts of \<^verbatim>\<open>cipher.c\<close>; the locale \<open>cipher_pair\<close> is what the packet layer needs of the two ends of a
  direction, and it is interpreted on the ciphers that the repository implements itself.

  \<^bold>\<open>Packets.\<close> \<open>Packet\<close> models \<^verbatim>\<open>packet.c\<close> and the messages of \<^verbatim>\<open>kex.c\<close> that it starts by itself: composing, padding,
  encryption, sequence numbers and the limits for new keys, the queue, and reading with the discarding of
  corrupt input.

  \<^bold>\<open>5G.\<close> \<open>Core5G\<close> models the handlers of \<^verbatim>\<open>udm.py\<close>, \<^verbatim>\<open>ausf.py\<close>, \<^verbatim>\<open>amf.py\<close>, \<^verbatim>\<open>gnb.py\<close>, \<^verbatim>\<open>smf.py\<close>, \<^verbatim>\<open>upf.py\<close> and \<^verbatim>\<open>ue.py\<close> as
  functions on one state, a request being a call as it is in the scripts. In all runs only subscribers
  have contexts at the access function; the theory also shows what the code does not protect
  (constant keys, sessions without authentication) and that in all runs of the servers no security command
  reaches the terminal. \<open>Multicast5G\<close> models
  \<^verbatim>\<open>5g-physical-multicast/gnb-multicast.py\<close>: delivery reaches exactly the connected members of a group.

  \<^bold>\<open>Parameters.\<close> Memory, the digests, the functions of OpenSSL, UMAC, name resolution, random bytes, the
  clock, and what a system call returns are arguments of the definitions; theorems that need something
  of them name it as a hypothesis, and a witness has an instance of it.

  \<^bold>\<open>Bounds.\<close> Machine words are kept at their width. Recursions end structurally or by a measure, the loop of
  the key derivation (\<open>kdf_loop\<close>) by the bytes that are missing. Fuel is used in two places:
  \<open>discard_fill\<close> adds 1024 bytes a turn up to at most 256 KiB, so 256 turns are enough, and \<open>drop_padding\<close>
  removes a byte a turn and starts with one turn more than the buffer has bytes. The key stream cipher takes
  a list of bytes whose length the code holds in 32 bits; packets are far below that.

  \<^bold>\<open>Not modelled.\<close> Key exchange methods, keys, certificates and signatures (arithmetic of the library),
  UMAC (AES of the library), user authentication, privilege separation and the main programs (processes,
  descriptors, files, PAM), option files, compression (zlib), the channel listeners and forwarding
  set-up (sockets), the socket loops of the packet layer, platform code; of the Python side the UDP scripts,
  which only send fixed datagrams, and the numerical studies.
\<close>

end
